(* ===== verification/Prelude.thy ===== *)
theory Prelude
  imports Main "HOL-Library.Word" "HOL-Library.AList" "HOL-Library.Char_ord"
    "HOL-Library.List_Lexorder" "HOL-Library.Product_Lexorder" "HOL-Library.Sublist"
    "HOL-Library.Multiset"
begin

text \<open>
  Shared vocabulary of the profgate development: the types the Go sources use everywhere
  (instants, durations, byte strings, maps), the pieces of the Go standard library the
  components call (64-bit wrap-around, truncating division, \<open>strings.Cut\<close>,
  \<open>strings.CutPrefix\<close>, decimal printing), and the generic lemmas about them.

  An instant is an integer count of nanoseconds since the Unix epoch and a duration an
  integer count of nanoseconds.  \<open>time.Time\<close> has a range far beyond 64 bits, so instants
  are unbounded; a duration is an \<open>int64\<close>, and the places where a product of durations
  could leave that range apply \<open>i64\<close> to every operation.  A Go map is an association
  list with distinct keys, so that a \<open>range\<close> over it computes.
\<close>

section \<open>Collections of facts\<close>

named_theorems go_simps \<open>equations that evaluate the modelled standard-library calls\<close>
named_theorems prog_simps \<open>equations that unfold programs and their execution\<close>
named_theorems stable_facts \<open>assertions that every protocol step keeps\<close>

section \<open>Instants and durations\<close>

type_synonym time = int
type_synonym duration = int

definition second :: duration where "second = 1000000000"
definition minute :: duration where "minute = 60 * second"
definition hour :: duration where "hour = 60 * minute"

lemmas duration_units = second_def minute_def hour_def

text \<open>\<open>time.Time{}\<close>, the instant \<open>IsZero\<close> recognises: 1 January of year 1.\<close>

definition zeroTime :: time where "zeroTime = - 62135596800000000000"

section \<open>64-bit signed integers\<close>

text \<open>The value a Go \<open>int64\<close> expression holds after wrap-around.\<close>

definition i64 :: "int \<Rightarrow> int" where
  "i64 x = (x + 2 ^ 63) mod 2 ^ 64 - 2 ^ 63"

definition in_i64 :: "int \<Rightarrow> bool" where
  "in_i64 x \<longleftrightarrow> - (2 ^ 63) \<le> x \<and> x < 2 ^ 63"

lemma i64_id [simp]: "in_i64 x \<Longrightarrow> i64 x = x"
  by (simp add: i64_def in_i64_def)

lemma i64_range [simp]: "in_i64 (i64 x)"
proof -
  have "0 \<le> (x + 2 ^ 63) mod (2 ^ 64 :: int)" "(x + 2 ^ 63) mod (2 ^ 64 :: int) < 2 ^ 64"
    by simp_all
  then show ?thesis unfolding i64_def in_i64_def by simp
qed

text \<open>Go integer division truncates towards zero.\<close>

definition tdiv :: "int \<Rightarrow> int \<Rightarrow> int" where
  "tdiv a b = sgn a * sgn b * (\<bar>a\<bar> div \<bar>b\<bar>)"

lemma tdiv_nonneg [simp]: "0 \<le> a \<Longrightarrow> 0 < b \<Longrightarrow> tdiv a b = a div b"
  by (cases "a = 0") (simp_all add: tdiv_def)

text \<open>Go's remainder has the sign of the dividend.\<close>

definition tmod :: "int \<Rightarrow> int \<Rightarrow> int" where
  "tmod a b = a - b * tdiv a b"

lemma tmod_nonneg: "0 \<le> a \<Longrightarrow> 0 < b \<Longrightarrow> tmod a b = a mod b"
  by (simp add: tmod_def minus_mult_div_eq_mod)

lemma tmod_neg: "a < 0 \<Longrightarrow> 0 < b \<Longrightarrow> tmod a b = - ((- a) mod b)"
  by (simp add: tmod_def tdiv_def minus_mult_div_eq_mod [symmetric])

lemma tmod_floor:
  assumes "0 < b"
  shows "(if tmod a b < 0 then tmod a b + b else tmod a b) = a mod b"
proof (cases "0 \<le> a")
  case True
  then show ?thesis using assms by (simp add: tmod_nonneg not_less)
next
  case False
  let ?m = "(- a) mod b"
  have m: "0 \<le> ?m" "?m < b" using assms by simp_all
  have "a mod b = (if ?m = 0 then 0 else b - ?m)"
    using assms zmod_zminus1_eq_if [of "- a" b] by (simp split: if_splits)
  then show ?thesis using False assms m by (auto simp: tmod_neg)
qed

section \<open>Strings\<close>

text \<open>\<open>strings.CutPrefix\<close>: the rest of the string after the prefix, or \<open>None\<close>.\<close>

fun cutPrefix :: "'a list \<Rightarrow> 'a list \<Rightarrow> 'a list option" where
  "cutPrefix [] s = Some s"
| "cutPrefix (p # ps) [] = None"
| "cutPrefix (p # ps) (c # cs) = (if p = c then cutPrefix ps cs else None)"

definition cutSuffix :: "'a list \<Rightarrow> 'a list \<Rightarrow> 'a list option" where
  "cutSuffix p s = map_option rev (cutPrefix (rev p) (rev s))"

definition hasPrefix :: "'a list \<Rightarrow> 'a list \<Rightarrow> bool" where
  "hasPrefix p s \<longleftrightarrow> cutPrefix p s \<noteq> None"

text \<open>\<open>strings.Cut\<close> at a one-byte separator.\<close>

fun cutChar :: "'a \<Rightarrow> 'a list \<Rightarrow> ('a list \<times> 'a list) option" where
  "cutChar c [] = None"
| "cutChar c (x # xs) =
     (if x = c then Some ([], xs)
      else map_option (\<lambda>(a, b). (x # a, b)) (cutChar c xs))"

lemma cutPrefix_append [simp, go_simps]: "cutPrefix p (p @ s) = Some s"
  by (induction p) auto

lemma cutPrefix_Some: "cutPrefix p s = Some r \<longleftrightarrow> s = p @ r"
  by (induction p s rule: cutPrefix.induct) auto

lemma cutPrefix_None: "cutPrefix p s = None \<longleftrightarrow> (\<nexists>r. s = p @ r)"
  using cutPrefix_Some [of p s] by (cases "cutPrefix p s") auto

lemma hasPrefix_iff: "hasPrefix p s \<longleftrightarrow> (\<exists>r. s = p @ r)"
  by (auto simp: hasPrefix_def cutPrefix_Some)

lemma cutSuffix_Some: "cutSuffix p s = Some r \<longleftrightarrow> s = r @ p"
  by (auto simp: cutSuffix_def cutPrefix_Some rev_swap)

lemma cutSuffix_append [simp, go_simps]: "cutSuffix p (s @ p) = Some s"
  by (simp add: cutSuffix_Some)

lemma cutChar_append [simp, go_simps]: "c \<notin> set a \<Longrightarrow> cutChar c (a @ c # b) = Some (a, b)"
  by (induction a) auto

lemma cutChar_Some: "cutChar c s = Some (a, b) \<longleftrightarrow> s = a @ c # b \<and> c \<notin> set a"
proof (induction s arbitrary: a)
  case (Cons x xs)
  show ?case
  proof (cases "x = c")
    case True then show ?thesis by (cases a) auto
  next
    case False then show ?thesis using Cons.IH by (cases a) (auto split: option.splits)
  qed
qed simp

lemma cutChar_None: "cutChar c s = None \<longleftrightarrow> c \<notin> set s"
  by (induction s) auto

text \<open>Decimal printing of a natural number and of an integer, as \<open>%d\<close> writes them.\<close>

definition digitChar :: "nat \<Rightarrow> char" where
  "digitChar d = char_of (48 + d)"

fun showNat :: "nat \<Rightarrow> string" where
  "showNat n = (if n < 10 then [digitChar n] else showNat (n div 10) @ [digitChar (n mod 10)])"

declare showNat.simps [simp del]

definition showInt :: "int \<Rightarrow> string" where
  "showInt i = (if i < 0 then CHR ''-'' # showNat (nat (- i)) else showNat (nat i))"

definition isDigit :: "char \<Rightarrow> bool" where
  "isDigit c \<longleftrightarrow> 48 \<le> (of_char c :: nat) \<and> (of_char c :: nat) \<le> 57"

definition digitVal :: "char \<Rightarrow> nat" where
  "digitVal c = of_char c - 48"

definition readNat :: "string \<Rightarrow> nat" where
  "readNat s = foldl (\<lambda>n c. 10 * n + digitVal c) 0 s"

lemma digitChar_isDigit [simp]: "d < 10 \<Longrightarrow> isDigit (digitChar d)"
  by (simp add: isDigit_def digitChar_def)

lemma digitVal_digitChar [simp]: "d < 10 \<Longrightarrow> digitVal (digitChar d) = d"
  by (simp add: digitVal_def digitChar_def)

lemma showNat_digits: "\<forall>c \<in> set (showNat n). isDigit c"
proof (induction n rule: showNat.induct)
  case (1 n)
  then show ?case by (subst showNat.simps) auto
qed

lemma showNat_nonempty [simp]: "showNat n \<noteq> []"
  by (subst showNat.simps) simp

lemma readNat_showNat [simp]: "readNat (showNat n) = n"
proof (induction n rule: showNat.induct)
  case (1 n)
  then show ?case by (subst showNat.simps) (auto simp: readNat_def)
qed

lemma showNat_inj [simp]: "showNat m = showNat n \<longleftrightarrow> m = n"
  by (metis readNat_showNat)

lemma isDigit_minus [simp]: "\<not> isDigit (CHR ''-'')"
  by (simp add: isDigit_def)

lemma isDigit_dot [simp]: "\<not> isDigit (CHR ''.'')"
  by (simp add: isDigit_def)

lemma isDigit_colon [simp]: "\<not> isDigit (CHR '':'')"
  by (simp add: isDigit_def)

lemma showInt_inj [simp]: "showInt a = showInt b \<longleftrightarrow> a = b"
proof -
  have "CHR ''-'' \<notin> set (showNat n)" for n using showNat_digits [of n] isDigit_minus by blast
  then have "showNat n \<noteq> CHR ''-'' # xs" "CHR ''-'' # xs \<noteq> showNat n" for n xs
    by (metis list.set_intros(1))+
  then show ?thesis by (auto simp: showInt_def)
qed

lemma showInt_nodot: "CHR ''.'' \<notin> set (showInt i)"
proof -
  have "CHR ''.'' \<notin> set (showNat n)" for n using showNat_digits [of n] isDigit_dot by blast
  then show ?thesis by (simp add: showInt_def)
qed

text \<open>
  \<open>strconv.Atoi\<close>: an optional sign, at least one decimal digit, and a value that fits
  an \<open>int\<close> (64 bits on the platforms the gateway ships for).
\<close>

definition atoi :: "string \<Rightarrow> int option" where
  "atoi s =
     (let (neg, ds) = (case s of
          [] \<Rightarrow> (False, [])
        | c # cs \<Rightarrow> if c = CHR ''-'' then (True, cs) else if c = CHR ''+'' then (False, cs) else (False, s))
      in if ds = [] \<or> \<not> list_all isDigit ds then None
         else let v = (if neg then - int (readNat ds) else int (readNat ds))
              in if in_i64 v then Some v else None)"

lemma atoi_showInt: "in_i64 i \<Longrightarrow> atoi (showInt i) = Some i"
proof -
  assume i: "in_i64 i"
  obtain c cs where n: "showNat (nat i) = c # cs" by (meson list.exhaust showNat_nonempty)
  have d: "list_all isDigit (showNat k)" for k by (simp add: list_all_iff showNat_digits)
  have "isDigit c" using showNat_digits [of "nat i"] n by simp
  then have "c \<noteq> CHR ''-''" "c \<noteq> CHR ''+''" by (auto simp: isDigit_def)
  then show ?thesis using i d [of "nat i"] d [of "nat (- i)"] readNat_showNat [of "nat i"] n
    by (auto simp: atoi_def showInt_def)
qed

text \<open>
  \<open>Format(time.RFC3339)\<close> of a UTC instant: the civil date of a count of days, by the 400-year eras
  that begin on the first of March, and the time of day.
\<close>

definition civilDate :: "int \<Rightarrow> int \<times> int \<times> int" where
  "civilDate days =
     (let z = days + 719468; era = z div 146097; doe = z mod 146097;
          yoe = (doe - doe div 1460 + doe div 36524 - doe div 146096) div 365;
          doy = doe - (365 * yoe + yoe div 4 - yoe div 100);
          mp = (5 * doy + 2) div 153;
          m = (if mp < 10 then mp + 3 else mp - 9)
      in (yoe + 400 * era + (if m \<le> 2 then 1 else 0), m, doy - (153 * mp + 2) div 5 + 1))"

definition padInt :: "nat \<Rightarrow> int \<Rightarrow> string" where
  "padInt width n = (let ds = showNat (nat (abs n)) in (if n < 0 then [CHR ''-''] else []) @ replicate (width - length ds) (CHR ''0'') @ ds)"

definition formatRFC3339 :: "time \<Rightarrow> string" where
  "formatRFC3339 t =
     (let secs = t div second; (y, m, d) = civilDate (secs div 86400); rest = secs mod 86400
      in padInt 4 y @ ''-'' @ padInt 2 m @ ''-'' @ padInt 2 d @ ''T'' @
         padInt 2 (rest div 3600) @ '':'' @ padInt 2 (rest mod 3600 div 60) @ '':'' @ padInt 2 (rest mod 60) @ ''Z'')"

lemma formatRFC3339_examples:
  "formatRFC3339 0 = ''1970-01-01T00:00:00Z''" "formatRFC3339 zeroTime = ''0001-01-01T00:00:00Z''"
  "formatRFC3339 (1709208000 * second) = ''2024-02-29T12:00:00Z''" "formatRFC3339 (- second) = ''1969-12-31T23:59:59Z''"
  by code_simp+

section \<open>Association lists\<close>

text \<open>A Go map: keys are distinct, a lookup is \<open>map_of\<close>.\<close>

abbreviation wf_map :: "('k \<times> 'v) list \<Rightarrow> bool" where
  "wf_map m \<equiv> distinct (map fst m)"

abbreviation map_put :: "'k \<Rightarrow> 'v \<Rightarrow> ('k \<times> 'v) list \<Rightarrow> ('k \<times> 'v) list" where
  "map_put k v m \<equiv> AList.update k v m"

abbreviation map_del :: "'k \<Rightarrow> ('k \<times> 'v) list \<Rightarrow> ('k \<times> 'v) list" where
  "map_del k m \<equiv> AList.delete k m"

lemma map_of_put [simp]: "map_of (map_put k v m) = (map_of m)(k \<mapsto> v)"
  by (simp add: update_conv')

lemma map_of_del [simp]: "map_of (map_del k m) = (map_of m)(k := None)"
  by (simp add: delete_conv')

lemma wf_map_put [simp]: "wf_map m \<Longrightarrow> wf_map (map_put k v m)"
  by (simp add: distinct_update)

lemma wf_map_del [simp]: "wf_map m \<Longrightarrow> wf_map (map_del k m)"
  by (simp add: distinct_delete)

lemma in_set_map_of: "wf_map m \<Longrightarrow> (k, v) \<in> set m \<longleftrightarrow> map_of m k = Some v"
  by (simp add: map_of_eq_Some_iff)

section \<open>Sorting\<close>

text \<open>\<open>strings.Compare\<close> and the \<open>Compare\<close> methods: a negative, zero or positive result.\<close>

definition compare3 :: "'a::linorder \<Rightarrow> 'a \<Rightarrow> int" where
  "compare3 a b = (if a < b then -1 else if a = b then 0 else 1)"

text \<open>\<open>slices.SortFunc\<close>: a permutation ordered by the comparison; equal elements may swap.\<close>

fun insertFunc :: "('a \<Rightarrow> 'a \<Rightarrow> int) \<Rightarrow> 'a \<Rightarrow> 'a list \<Rightarrow> 'a list" where
  "insertFunc cmp x [] = [x]"
| "insertFunc cmp x (y # ys) = (if cmp x y \<le> 0 then x # y # ys else y # insertFunc cmp x ys)"

definition sortFunc :: "('a \<Rightarrow> 'a \<Rightarrow> int) \<Rightarrow> 'a list \<Rightarrow> 'a list" where
  "sortFunc cmp xs = foldr (insertFunc cmp) xs []"

text \<open>What \<open>SortFunc\<close> asks of a comparison.\<close>

definition comparison :: "('a \<Rightarrow> 'a \<Rightarrow> int) \<Rightarrow> bool" where
  "comparison cmp \<longleftrightarrow> (\<forall>a b. cmp a b \<le> 0 \<or> cmp b a \<le> 0) \<and>
     (\<forall>a b c. cmp a b \<le> 0 \<longrightarrow> cmp b c \<le> 0 \<longrightarrow> cmp a c \<le> 0)"

lemma set_insertFunc [simp]: "set (insertFunc cmp x ys) = insert x (set ys)"
  by (induction ys) auto

lemma mset_insertFunc [simp]: "mset (insertFunc cmp x ys) = add_mset x (mset ys)"
  by (induction ys) auto

lemma sortFunc_simps [simp]:
  "sortFunc cmp [] = []" "sortFunc cmp (x # xs) = insertFunc cmp x (sortFunc cmp xs)"
  by (simp_all add: sortFunc_def)

lemma mset_sortFunc [simp]: "mset (sortFunc cmp xs) = mset xs"
  by (induction xs) simp_all

lemma set_sortFunc [simp]: "set (sortFunc cmp xs) = set xs"
  by (induction xs) simp_all

lemma length_sortFunc [simp]: "length (sortFunc cmp xs) = length xs"
  by (metis mset_sortFunc size_mset)

lemma distinct_sortFunc [simp]: "distinct (sortFunc cmp xs) = distinct xs"
  by (metis mset_sortFunc mset_eq_imp_distinct_iff)

lemma sorted_insertFunc:
  assumes "comparison cmp" and "sorted_wrt (\<lambda>a b. cmp a b \<le> 0) ys"
  shows "sorted_wrt (\<lambda>a b. cmp a b \<le> 0) (insertFunc cmp x ys)"
  using assms(2)
proof (induction ys)
  case (Cons y ys)
  show ?case
  proof (cases "cmp x y \<le> 0")
    case True
    moreover have "cmp x z \<le> 0" if "z \<in> set ys" for z
      using True that Cons.prems assms(1) unfolding comparison_def by (meson list.set_intros sorted_wrt.simps(2))
    ultimately show ?thesis using Cons.prems by auto
  next
    case False
    then have "cmp y x \<le> 0" using assms(1) unfolding comparison_def by blast
    then show ?thesis using False Cons by auto
  qed
qed simp

lemma sorted_sortFunc: "comparison cmp \<Longrightarrow> sorted_wrt (\<lambda>a b. cmp a b \<le> 0) (sortFunc cmp xs)"
  by (induction xs) (simp_all add: sorted_insertFunc)

lemma comparison_compare3 [simp]: "comparison (compare3 :: 'a::linorder \<Rightarrow> 'a \<Rightarrow> int)"
  by (auto simp: comparison_def compare3_def)

lemma comparison_on: "comparison cmp \<Longrightarrow> comparison (\<lambda>a b. cmp (f a) (f b))"
  unfolding comparison_def by blast

lemma set_map_filter: "set (List.map_filter f xs) = {y. \<exists>x \<in> set xs. f x = Some y}"
  by (induction xs) (auto simp: map_filter_simps split: option.split)

lemma distinct_map_sorted_wrt: "distinct (map f xs) \<longleftrightarrow> sorted_wrt (\<lambda>a b. f a \<noteq> f b) xs"
  by (induction xs) auto

lemma sorted_wrt_conj: "sorted_wrt P xs \<Longrightarrow> sorted_wrt Q xs \<Longrightarrow> sorted_wrt (\<lambda>a b. P a b \<and> Q a b) xs"
  by (induction xs) auto

lemma distinct_map_sortFunc: "distinct (map f (sortFunc cmp xs)) = distinct (map f xs)"
  by (rule mset_eq_imp_distinct_iff) simp

lemma distinct_subseq: "subseq xs ys \<Longrightarrow> distinct ys \<Longrightarrow> distinct xs"
  by (auto simp: subseq_conv_nths distinct_nthsI)

lemma distinct_submset:
  assumes "mset xs \<subseteq># mset ys" and "distinct ys"
  shows "distinct xs"
proof -
  have "count (mset xs) a = (if a \<in> set xs then 1 else 0)" for a
  proof -
    have "count (mset xs) a \<le> count (mset ys) a" using assms(1) by (rule mset_subset_eq_count)
    also have "\<dots> \<le> 1" using assms(2) by (simp add: distinct_count_atmost_1)
    finally show ?thesis by (auto simp: le_Suc_eq count_eq_zero_iff)
  qed
  then show ?thesis by (simp add: distinct_count_atmost_1)
qed

section \<open>Options\<close>

lemma option_cases_eq: "(case x of None \<Rightarrow> a | Some y \<Rightarrow> a) = a"
  by (cases x) auto

end
