(* ===== verification/Discovery.thy ===== *)
theory Discovery
  imports Prelude
begin

text \<open>
  Discovery (\<open>internal/k8s\<close>): how a Service is resolved to the Pods that can be profiled
  (\<open>eligibility.go\<close>), how the dropped ones are explained, how a selected Pod is confirmed
  before it is connected to (\<open>confirm.go\<close>), and the catalogue of Services (\<open>catalog.go\<close>).

  The informer caches and the label matcher belong to client-go; they are the function fields
  of \<open>Cluster\<close>, and \<open>lister_laws\<close> names what is relied on: a Pod list is the namespace's Pods
  the selector matches, each reachable by its name, and no two Pods share a UID.
\<close>

section \<open>Kubernetes objects\<close>

type_synonym labels = "(string \<times> string) list"

record ContainerPort =
  cp_Name :: string
  cp_Protocol :: string
  cp_Port :: int

record Pod =
  pod_Name :: string
  pod_UID :: string
  pod_Labels :: labels
  pod_Deleted :: bool
  pod_Phase :: string
  pod_Conditions :: "(string \<times> string) list"
  pod_IPs :: "string list"
  pod_Node :: string
  pod_Containers :: "ContainerPort list list"

record Service =
  svc_Namespace :: string
  svc_Name :: string
  svc_Selector :: labels

record ObjectReference =
  or_Kind :: string
  or_Namespace :: string
  or_Name :: string
  or_UID :: string

record Endpoint =
  ep_Addresses :: "string list"
  ep_Ready :: "bool option"
  ep_TargetRef :: "ObjectReference option"

record EndpointSlice =
  es_AddressType :: string
  es_Endpoints :: "Endpoint list"

definition podKind :: string where "podKind = ''Pod''"
definition AddressTypeIPv4 :: string where "AddressTypeIPv4 = ''IPv4''"
definition AddressTypeIPv6 :: string where "AddressTypeIPv6 = ''IPv6''"
definition PodRunning :: string where "PodRunning = ''Running''"
definition PodReady :: string where "PodReady = ''Ready''"
definition ConditionTrue :: string where "ConditionTrue = ''True''"
definition ProtocolTCP :: string where "ProtocolTCP = ''TCP''"

section \<open>The seam's own types\<close>

record Target =
  tg_Namespace :: string
  tg_Service :: string
  tg_Pod :: string
  tg_Node :: string
  tg_PodIP :: string
  tg_Port :: int
  tg_Version :: string
  tg_UID :: string

datatype disc_err = ErrServiceNotFound | ErrServiceSelectorless | ErrTargetChanged
  | ErrDiscoveryUnavailable | ErrCanceled | ErrCacheRead

record PortSelection =
  ps_Port :: int
  ps_PortName :: string

datatype exclusionReason =
    ReasonPodTerminating | ReasonPodNotRunning | ReasonPodNotReady | ReasonEndpointMissing
  | ReasonEndpointNotReady | ReasonEndpointAddressMismatch | ReasonEndpointAddressConflict
  | ReasonPortNameNotDeclared | ReasonVersionMismatch | ReasonPodNameMismatch

definition exclusionReasons :: "exclusionReason list" where
  "exclusionReasons = [ReasonPodTerminating, ReasonPodNotRunning, ReasonPodNotReady, ReasonEndpointMissing,
     ReasonEndpointNotReady, ReasonEndpointAddressMismatch, ReasonEndpointAddressConflict,
     ReasonPortNameNotDeclared, ReasonVersionMismatch, ReasonPodNameMismatch]"

record Explanation =
  ex_Targets :: "Target list"
  ex_SelectorMatched :: nat
  ex_Excluded :: "(exclusionReason \<times> nat) list"

datatype lister_err = NotFound | ReadFailed

text \<open>
  The informer listers, the label matcher and the options a cluster was built with.  A list
  read is \<open>None\<close> when the lister could not be read.
\<close>

record Cluster =
  cl_service :: "string \<Rightarrow> string \<Rightarrow> lister_err + Service"
  cl_services :: "string \<Rightarrow> Service list option"
  cl_slices :: "string \<Rightarrow> string \<Rightarrow> EndpointSlice list option"
  cl_pod :: "string \<Rightarrow> string \<Rightarrow> Pod option"
  cl_pods :: "string \<Rightarrow> labels \<Rightarrow> Pod list option"
  cl_matches :: "labels \<Rightarrow> labels \<Rightarrow> bool"
  cl_VersionLabel :: string
  cl_Port :: int
  cl_PortName :: string

section \<open>The rules on one Pod\<close>

fun podReadyConds :: "(string \<times> string) list \<Rightarrow> bool" where
  "podReadyConds [] = False"
| "podReadyConds ((t, s) # cs) = (if t = PodReady then s = ConditionTrue else podReadyConds cs)"

definition podReady :: "Pod \<Rightarrow> bool" where
  "podReady pod = podReadyConds (pod_Conditions pod)"

definition hasPodIP :: "Pod \<Rightarrow> string \<Rightarrow> bool" where
  "hasPodIP pod address = List.member (pod_IPs pod) address"

fun namedPortIn :: "string \<Rightarrow> ContainerPort list \<Rightarrow> int option" where
  "namedPortIn name [] = None"
| "namedPortIn name (p # ps) =
     (if cp_Name p = name \<and> (cp_Protocol p = [] \<or> cp_Protocol p = ProtocolTCP) then Some (cp_Port p)
      else namedPortIn name ps)"

fun namedPortOf :: "string \<Rightarrow> ContainerPort list list \<Rightarrow> int option" where
  "namedPortOf name [] = None"
| "namedPortOf name (c # cs) = (case namedPortIn name c of Some p \<Rightarrow> Some p | None \<Rightarrow> namedPortOf name cs)"

definition namedPort :: "Pod \<Rightarrow> string \<Rightarrow> int option" where
  "namedPort pod name = namedPortOf name (pod_Containers pod)"

definition pprofPort :: "Cluster \<Rightarrow> Pod \<Rightarrow> PortSelection \<Rightarrow> int option" where
  "pprofPort c pod sel =
     (if ps_Port sel \<noteq> 0 then Some (ps_Port sel)
      else if ps_PortName sel \<noteq> [] then namedPort pod (ps_PortName sel)
      else if cl_Port c \<noteq> 0 then Some (cl_Port c)
      else if cl_PortName c \<noteq> [] then namedPort pod (cl_PortName c)
      else None)"

fun addressFamilyFrom :: "string \<Rightarrow> EndpointSlice list \<Rightarrow> string" where
  "addressFamilyFrom family [] = family"
| "addressFamilyFrom family (es # rest) =
     (if es_AddressType es = AddressTypeIPv4 then AddressTypeIPv4
      else addressFamilyFrom (if es_AddressType es = AddressTypeIPv6 then AddressTypeIPv6 else family) rest)"

definition addressFamily :: "EndpointSlice list \<Rightarrow> string" where
  "addressFamily epSlices = addressFamilyFrom [] epSlices"

section \<open>The endpoint pass\<close>

record endpointFacts =
  ef_notReady :: bool
  ef_addressMismatch :: bool
  ef_address :: string
  ef_conflict :: bool
  ef_pod :: string
  ef_target :: "Target option"

abbreviation ef_hasTarget :: "endpointFacts \<Rightarrow> bool" where
  "ef_hasTarget f \<equiv> ef_target f \<noteq> None"

definition isTarget :: "endpointFacts \<Rightarrow> bool" where
  "isTarget f \<longleftrightarrow> ef_hasTarget f \<and> \<not> ef_conflict f"

definition conflicted :: "endpointFacts \<Rightarrow> bool" where
  "conflicted f \<longleftrightarrow> ef_conflict f \<and> (ef_hasTarget f \<or> (\<not> ef_notReady f \<and> \<not> ef_addressMismatch f))"

text \<open>The Pod an endpoint names, when the endpoint is trusted.\<close>

definition trustedPod :: "Cluster \<Rightarrow> Service \<Rightarrow> (string \<Rightarrow> Pod option) \<Rightarrow> Endpoint \<Rightarrow> Pod option" where
  "trustedPod c svc look ep =
     (case ep_TargetRef ep of
        None \<Rightarrow> None
      | Some ref \<Rightarrow>
          if or_Kind ref \<noteq> podKind \<or> or_Namespace ref \<noteq> svc_Namespace svc then None
          else (case look (or_Name ref) of
             None \<Rightarrow> None
           | Some pod \<Rightarrow>
               if pod_UID pod \<noteq> or_UID ref then None
               else if \<not> cl_matches c (svc_Selector svc) (pod_Labels pod) then None
               else Some pod))"

definition podTarget :: "Cluster \<Rightarrow> Service \<Rightarrow> Pod \<Rightarrow> string \<Rightarrow> int \<Rightarrow> Target" where
  "podTarget c svc pod address port = \<lparr>
     tg_Namespace = svc_Namespace svc, tg_Service = svc_Name svc, tg_Pod = pod_Name pod, tg_Node = pod_Node pod,
     tg_PodIP = address, tg_Port = port,
     tg_Version = (case map_of (pod_Labels pod) (cl_VersionLabel c) of None \<Rightarrow> [] | Some v \<Rightarrow> v),
     tg_UID = pod_UID pod\<rparr>"

text \<open>What one trusted endpoint adds to the facts of its Pod.\<close>

definition podServing :: "Pod \<Rightarrow> bool" where
  "podServing pod \<longleftrightarrow> pod_Phase pod = PodRunning \<and> podReady pod \<and> \<not> pod_Deleted pod"

definition noteEndpoint :: "Cluster \<Rightarrow> Service \<Rightarrow> PortSelection \<Rightarrow> Pod \<Rightarrow> Endpoint \<Rightarrow> endpointFacts \<Rightarrow> endpointFacts" where
  "noteEndpoint c svc sel pod ep facts =
     (if ep_Ready ep = Some False then facts\<lparr>ef_notReady := True\<rparr>
      else if \<not> podServing pod then facts
      else case ep_Addresses ep of
          [] \<Rightarrow> facts\<lparr>ef_addressMismatch := True\<rparr>
        | address # _ \<Rightarrow>
            if \<not> hasPodIP pod address then facts\<lparr>ef_addressMismatch := True\<rparr>
            else
              let facts1 =
                    (if ef_address facts = [] then facts\<lparr>ef_address := address\<rparr>
                     else if ef_address facts \<noteq> address then facts\<lparr>ef_conflict := True\<rparr>
                     else facts)
              in case pprofPort c pod sel of
                   None \<Rightarrow> facts1
                 | Some port \<Rightarrow>
                     if ef_hasTarget facts1 then facts1
                     else facts1\<lparr>ef_target := Some (podTarget c svc pod address port)\<rparr>)"

definition newFacts :: "Pod \<Rightarrow> endpointFacts" where
  "newFacts pod = \<lparr>ef_notReady = False, ef_addressMismatch = False, ef_address = [], ef_conflict = False,
                   ef_pod = pod_Name pod, ef_target = None\<rparr>"

text \<open>The pass keeps \<open>seen\<close>, the facts by Pod UID, and \<open>order\<close>, the UIDs as first met.\<close>

type_synonym passState = "(string \<times> endpointFacts) list \<times> string list"

definition visitEndpoint :: "Cluster \<Rightarrow> Service \<Rightarrow> PortSelection \<Rightarrow> (string \<Rightarrow> Pod option) \<Rightarrow> Endpoint \<Rightarrow> passState \<Rightarrow> passState" where
  "visitEndpoint c svc sel look ep st =
     (case trustedPod c svc look ep of
        None \<Rightarrow> st
      | Some pod \<Rightarrow>
          (let (seen, order) = st; uid = pod_UID pod in
           case map_of seen uid of
             None \<Rightarrow> (map_put uid (noteEndpoint c svc sel pod ep (newFacts pod)) seen, order @ [uid])
           | Some facts \<Rightarrow> (map_put uid (noteEndpoint c svc sel pod ep facts) seen, order)))"

definition resolvePass :: "Cluster \<Rightarrow> Service \<Rightarrow> PortSelection \<Rightarrow> (string \<Rightarrow> Pod option) \<Rightarrow> EndpointSlice list \<Rightarrow> passState" where
  "resolvePass c svc sel look epSlices =
     fold (\<lambda>es st. if es_AddressType es \<noteq> addressFamily epSlices then st
                    else fold (visitEndpoint c svc sel look) (es_Endpoints es) st) epSlices ([], [])"

definition resolve :: "Cluster \<Rightarrow> Service \<Rightarrow> PortSelection \<Rightarrow> (string \<Rightarrow> Pod option) \<Rightarrow> EndpointSlice list
    \<Rightarrow> Target list \<times> (string \<times> endpointFacts) list" where
  "resolve c svc sel look epSlices =
     (let (seen, order) = resolvePass c svc sel look epSlices in
      (List.map_filter (\<lambda>uid. case map_of seen uid of
          None \<Rightarrow> None | Some facts \<Rightarrow> if isTarget facts then ef_target facts else None) order, seen))"

section \<open>Targets, Explain, Confirm, Catalog\<close>

definition serviceSlices :: "Cluster \<Rightarrow> string \<Rightarrow> string \<Rightarrow> disc_err + Service \<times> EndpointSlice list" where
  "serviceSlices c ns name =
     (case cl_service c ns name of
        Inl NotFound \<Rightarrow> Inl ErrServiceNotFound
      | Inl ReadFailed \<Rightarrow> Inl ErrCacheRead
      | Inr svc \<Rightarrow>
          if svc_Selector svc = [] then Inl ErrServiceSelectorless
          else (case cl_slices c ns name of None \<Rightarrow> Inl ErrCacheRead | Some ess \<Rightarrow> Inr (svc, ess)))"

definition Targets :: "Cluster \<Rightarrow> string \<Rightarrow> string \<Rightarrow> PortSelection \<Rightarrow> disc_err + Target list" where
  "Targets c ns name sel =
     (case serviceSlices c ns name of
        Inl e \<Rightarrow> Inl e
      | Inr (svc, ess) \<Rightarrow> Inr (fst (resolve c svc sel (cl_pod c ns) ess)))"

definition attribute :: "Pod \<Rightarrow> endpointFacts option \<Rightarrow> exclusionReason" where
  "attribute pod facts =
     (if pod_Deleted pod then ReasonPodTerminating
      else if pod_Phase pod \<noteq> PodRunning then ReasonPodNotRunning
      else if \<not> podReady pod then ReasonPodNotReady
      else case facts of
          None \<Rightarrow> ReasonEndpointMissing
        | Some f \<Rightarrow>
            if ef_hasTarget f then ReasonEndpointAddressConflict
            else if ef_notReady f then ReasonEndpointNotReady
            else if ef_addressMismatch f then ReasonEndpointAddressMismatch
            else if ef_conflict f then ReasonEndpointAddressConflict
            else ReasonPortNameNotDeclared)"

definition lookupList :: "Pod list \<Rightarrow> string \<Rightarrow> Pod option" where
  "lookupList pods name = map_of (rev (map (\<lambda>p. (pod_Name p, p)) pods)) name"

definition droppedReasons :: "(string \<times> endpointFacts) list \<Rightarrow> Pod list \<Rightarrow> exclusionReason list" where
  "droppedReasons seen pods =
     List.map_filter (\<lambda>pod.
       let facts = map_of seen (pod_UID pod) in
       if (case facts of None \<Rightarrow> False | Some f \<Rightarrow> isTarget f) then None else Some (attribute pod facts)) pods"

definition reasonCounts :: "exclusionReason list \<Rightarrow> (exclusionReason \<times> nat) list" where
  "reasonCounts dropped =
     List.map_filter (\<lambda>r. if count_list dropped r > 0 then Some (r, count_list dropped r) else None) exclusionReasons"

definition Explain :: "Cluster \<Rightarrow> string \<Rightarrow> string \<Rightarrow> PortSelection \<Rightarrow> disc_err + Explanation" where
  "Explain c ns name sel =
     (case serviceSlices c ns name of
        Inl e \<Rightarrow> Inl e
      | Inr (svc, ess) \<Rightarrow>
          (case cl_pods c ns (svc_Selector svc) of
             None \<Rightarrow> Inl ErrCacheRead
           | Some pods \<Rightarrow>
               let (targets, seen) = resolve c svc sel (lookupList pods) ess
               in Inr \<lparr>ex_Targets = targets, ex_SelectorMatched = length pods,
                       ex_Excluded = reasonCounts (droppedReasons seen pods)\<rparr>))"

text \<open>The answer of the guarded read of one Pod from the API server.\<close>

datatype podRead = PodGot Pod | PodGone | PodReadCanceled | PodReadFailed

definition Confirm :: "podRead \<Rightarrow> bool \<Rightarrow> Target \<Rightarrow> disc_err option" where
  "Confirm read callerCanceled t =
     (case read of
        PodGone \<Rightarrow> Some ErrTargetChanged
      | PodReadCanceled \<Rightarrow> Some ErrCanceled
      | PodReadFailed \<Rightarrow> if callerCanceled then Some ErrCanceled else Some ErrDiscoveryUnavailable
      | PodGot pod \<Rightarrow>
          if pod_UID pod \<noteq> tg_UID t then Some ErrTargetChanged
          else if pod_Deleted pod then Some ErrTargetChanged
          else if pod_Phase pod \<noteq> PodRunning then Some ErrTargetChanged
          else if \<not> podReady pod then Some ErrTargetChanged
          else if \<not> hasPodIP pod (tg_PodIP t) then Some ErrTargetChanged
          else None)"

definition compareRefs :: "string \<times> string \<Rightarrow> string \<times> string \<Rightarrow> int" where
  "compareRefs a b = (let x = compare3 (fst a) (fst b) in if x \<noteq> 0 then x else compare3 (snd a) (snd b))"

definition Catalog :: "Cluster \<Rightarrow> string \<Rightarrow> disc_err + (string \<times> string) list" where
  "Catalog c ns =
     (case cl_services c ns of
        None \<Rightarrow> Inl ErrCacheRead
      | Some svcs \<Rightarrow> Inr (sortFunc compareRefs
          (map (\<lambda>s. (svc_Namespace s, svc_Name s)) (filter (\<lambda>s. svc_Selector s \<noteq> []) svcs))))"

section \<open>What the pass computes\<close>

text \<open>
  The endpoints that are read, the trusted ones with their Pods, and what it takes for an
  endpoint to vouch for an address of its Pod.
\<close>

definition familyEndpoints :: "EndpointSlice list \<Rightarrow> Endpoint list" where
  "familyEndpoints ess = concat (map es_Endpoints (filter (\<lambda>es. es_AddressType es = addressFamily ess) ess))"

definition trusted :: "Cluster \<Rightarrow> Service \<Rightarrow> (string \<Rightarrow> Pod option) \<Rightarrow> Endpoint list \<Rightarrow> (Pod \<times> Endpoint) list" where
  "trusted c svc look eps = List.map_filter (\<lambda>ep. map_option (\<lambda>p. (p, ep)) (trustedPod c svc look ep)) eps"

definition vouches :: "Pod \<Rightarrow> Endpoint \<Rightarrow> string \<Rightarrow> bool" where
  "vouches pod ep a \<longleftrightarrow> ep_Ready ep \<noteq> Some False \<and> podServing pod \<and> (\<exists>rest. ep_Addresses ep = a # rest) \<and> hasPodIP pod a"

definition vouched :: "Pod \<Rightarrow> Endpoint list \<Rightarrow> string list" where
  "vouched pod eps = map (\<lambda>ep. hd (ep_Addresses ep)) (filter (\<lambda>ep. vouches pod ep (hd (ep_Addresses ep))) eps)"

lemma set_vouched: "set (vouched pod eps) = {a. \<exists>ep \<in> set eps. vouches pod ep a}"
  by (auto simp: vouched_def vouches_def image_iff) (metis list.sel(1))+

lemma fold_slices:
  "fold (\<lambda>es st. if es_AddressType es \<noteq> fam then st else fold f (es_Endpoints es) st) ess st =
   fold f (concat (map es_Endpoints (filter (\<lambda>es. es_AddressType es = fam) ess))) st"
  by (induction ess arbitrary: st) auto

lemma resolvePass_flat: "resolvePass c svc sel look ess = fold (visitEndpoint c svc sel look) (familyEndpoints ess) ([], [])"
  unfolding resolvePass_def familyEndpoints_def by (rule fold_slices)

lemma trusted_snoc:
  "trusted c svc look (eps @ [ep]) = trusted c svc look eps @
     (case trustedPod c svc look ep of None \<Rightarrow> [] | Some p \<Rightarrow> [(p, ep)])"
  by (simp add: trusted_def map_filter_def split: option.split)

definition noteAll :: "Cluster \<Rightarrow> Service \<Rightarrow> PortSelection \<Rightarrow> (Pod \<times> Endpoint) list \<Rightarrow> endpointFacts option" where
  "noteAll c svc sel xs = (case xs of [] \<Rightarrow> None
     | x # _ \<Rightarrow> Some (fold (\<lambda>(p, ep). noteEndpoint c svc sel p ep) xs (newFacts (fst x))))"

lemma noteAll_snoc:
  "noteAll c svc sel (xs @ [(p, ep)]) =
     Some (noteEndpoint c svc sel p ep (case noteAll c svc sel xs of None \<Rightarrow> newFacts p | Some f \<Rightarrow> f))"
  by (cases xs) (simp_all add: noteAll_def)

lemma noteAll_None [simp]: "noteAll c svc sel xs = None \<longleftrightarrow> xs = []"
  by (cases xs) (simp_all add: noteAll_def)

lemma noteAll_Nil [simp]: "noteAll c svc sel [] = None"
  by simp

lemma visitEndpoint_cases:
  "trustedPod c svc look ep = None \<Longrightarrow> visitEndpoint c svc sel look ep st = st"
  "trustedPod c svc look ep = Some p \<Longrightarrow> visitEndpoint c svc sel look ep st =
     (map_put (pod_UID p) (noteEndpoint c svc sel p ep
        (case map_of (fst st) (pod_UID p) of None \<Rightarrow> newFacts p | Some f \<Rightarrow> f)) (fst st),
      if map_of (fst st) (pod_UID p) = None then snd st @ [pod_UID p] else snd st)"
  by (simp_all add: visitEndpoint_def Let_def split_def split: option.split)

lemma pass_facts:
  "map_of (fst (fold (visitEndpoint c svc sel look) eps ([], []))) u =
     noteAll c svc sel (filter (\<lambda>(p, _). pod_UID p = u) (trusted c svc look eps))"
proof (induction eps arbitrary: u rule: rev_induct)
  case Nil
  then show ?case by (simp add: trusted_def map_filter_def noteAll_def)
next
  case (snoc ep eps)
  show ?case
  proof (cases "trustedPod c svc look ep")
    case None
    then show ?thesis using snoc by (simp add: trusted_snoc visitEndpoint_cases)
  next
    case (Some p)
    then show ?thesis using snoc by (simp add: trusted_snoc visitEndpoint_cases noteAll_snoc)
  qed
qed

lemma pass_order:
  "distinct (snd (fold (visitEndpoint c svc sel look) eps ([], []))) \<and>
   set (snd (fold (visitEndpoint c svc sel look) eps ([], []))) = pod_UID ` fst ` set (trusted c svc look eps)"
proof (induction eps rule: rev_induct)
  case Nil
  then show ?case by (simp add: trusted_def map_filter_def)
next
  case (snoc ep eps)
  show ?case
  proof (cases "trustedPod c svc look ep")
    case None
    then show ?thesis using snoc by (simp add: trusted_snoc visitEndpoint_cases)
  next
    case (Some p)
    let ?st = "fold (visitEndpoint c svc sel look) eps ([], [])"
    have "map_of (fst ?st) (pod_UID p) = None \<longleftrightarrow> pod_UID p \<notin> set (snd ?st)"
      using snoc by (auto simp: pass_facts filter_empty_conv) (metis fst_conv image_eqI)
    then show ?thesis using snoc Some by (auto simp: trusted_snoc visitEndpoint_cases)
  qed
qed

text \<open>The facts of a Pod, from its endpoints alone.\<close>

lemma notes_of_pod:
  assumes "[] \<notin> set (pod_IPs p)"
  shows "fold (noteEndpoint c svc sel p) eps (newFacts p) = \<lparr>
     ef_notReady = (\<exists>ep \<in> set eps. ep_Ready ep = Some False),
     ef_addressMismatch = (podServing p \<and> (\<exists>ep \<in> set eps. ep_Ready ep \<noteq> Some False \<and> (\<nexists>a. vouches p ep a))),
     ef_address = (case vouched p eps of [] \<Rightarrow> [] | a # _ \<Rightarrow> a),
     ef_conflict = (\<exists>a \<in> set (vouched p eps). a \<noteq> hd (vouched p eps)),
     ef_pod = pod_Name p,
     ef_target = (case vouched p eps of [] \<Rightarrow> None | a # _ \<Rightarrow> map_option (podTarget c svc p a) (pprofPort c p sel))\<rparr>"
proof (induction eps rule: rev_induct)
  case Nil
  then show ?case by (simp add: newFacts_def vouched_def)
next
  case (snoc ep eps)
  have ne: "a \<noteq> []" if "a \<in> set (vouched p eps)" for a
    using that assms by (auto simp: set_vouched vouches_def hasPodIP_def)
  have v: "vouched p (eps @ [ep]) = vouched p eps @ (if vouches p ep (hd (ep_Addresses ep)) then [hd (ep_Addresses ep)] else [])"
    by (simp add: vouched_def)
  have dec: "(\<exists>a. vouches p ep a) \<longleftrightarrow> vouches p ep (hd (ep_Addresses ep))"
    by (auto simp: vouches_def)
  consider (unready) "ep_Ready ep = Some False" | (idle) "ep_Ready ep \<noteq> Some False" "\<not> podServing p"
    | (mismatch) "ep_Ready ep \<noteq> Some False" "podServing p" "\<not> vouches p ep (hd (ep_Addresses ep))"
    | (passes) a rest where "ep_Ready ep \<noteq> Some False" "podServing p" "ep_Addresses ep = a # rest" "hasPodIP p a"
    unfolding vouches_def by (cases "ep_Addresses ep") auto
  then show ?case
  proof cases
    case unready
    then have "\<not> vouches p ep (hd (ep_Addresses ep))" by (simp add: vouches_def)
    then show ?thesis using unready snoc v by (simp add: noteEndpoint_def)
  next
    case idle
    then have "\<not> vouches p ep (hd (ep_Addresses ep))" by (simp add: vouches_def)
    then show ?thesis using idle snoc v by (simp add: noteEndpoint_def)
  next
    case mismatch
    then show ?thesis using snoc v dec by (auto simp: noteEndpoint_def vouches_def split: list.split)
  next
    case passes
    then have "vouches p ep a" by (simp add: vouches_def)
    then show ?thesis using passes snoc v ne
      by (auto simp: noteEndpoint_def Let_def split: list.split option.split)
  qed
qed

text \<open>
  What is relied on of the listers for the Pods of one namespace: no two Pods share a UID, and
  the addresses a Pod lists are not empty strings.
\<close>

definition pods_ok :: "(string \<Rightarrow> Pod option) \<Rightarrow> bool" where
  "pods_ok look \<longleftrightarrow>
     (\<forall>n p. look n = Some p \<longrightarrow> pod_Name p = n \<and> [] \<notin> set (pod_IPs p)) \<and>
     (\<forall>n p m q. look n = Some p \<longrightarrow> look m = Some q \<longrightarrow> pod_UID p = pod_UID q \<longrightarrow> p = q)"

lemma trustedPod_look:
  "trustedPod c svc look ep = Some p \<Longrightarrow> \<exists>n. look n = Some p \<and> cl_matches c (svc_Selector svc) (pod_Labels p)"
  by (auto simp: trustedPod_def split: option.splits if_splits)

lemma set_trusted: "(p, ep) \<in> set (trusted c svc look eps) \<longleftrightarrow> ep \<in> set eps \<and> trustedPod c svc look ep = Some p"
  by (auto simp: trusted_def set_map_filter)

definition podEndpoints :: "Cluster \<Rightarrow> Service \<Rightarrow> (string \<Rightarrow> Pod option) \<Rightarrow> EndpointSlice list \<Rightarrow> Pod \<Rightarrow> Endpoint list" where
  "podEndpoints c svc look ess p = filter (\<lambda>ep. trustedPod c svc look ep = Some p) (familyEndpoints ess)"

lemma trusted_of_uid:
  assumes ok: "pods_ok look" and p: "look n = Some p"
  shows "filter (\<lambda>(q, _). pod_UID q = pod_UID p) (trusted c svc look eps) =
    map (\<lambda>ep. (p, ep)) (filter (\<lambda>ep. trustedPod c svc look ep = Some p) eps)"
proof (induction eps rule: rev_induct)
  case Nil
  then show ?case by (simp add: trusted_def map_filter_def)
next
  case (snoc ep eps)
  have "q = p" if "trustedPod c svc look ep = Some q" "pod_UID q = pod_UID p" for q
    using trustedPod_look [OF that(1)] that(2) ok p unfolding pods_ok_def by blast
  then show ?case using snoc by (auto simp: trusted_snoc split: option.split)
qed

lemma snd_resolve: "snd (resolve c svc sel look ess) = fst (fold (visitEndpoint c svc sel look) (familyEndpoints ess) ([], []))"
  by (simp only: resolve_def resolvePass_flat Let_def split_def snd_conv)

lemma fst_resolve: "fst (resolve c svc sel look ess) = List.map_filter (\<lambda>uid.
    case map_of (snd (resolve c svc sel look ess)) uid of
      None \<Rightarrow> None | Some facts \<Rightarrow> if isTarget facts then ef_target facts else None)
    (snd (fold (visitEndpoint c svc sel look) (familyEndpoints ess) ([], [])))"
  by (simp only: resolve_def resolvePass_flat Let_def split_def fst_conv snd_conv)

lemma resolve_seen:
  assumes "pods_ok look" and "look n = Some p"
  shows "map_of (snd (resolve c svc sel look ess)) (pod_UID p) =
    (if podEndpoints c svc look ess p = [] then None
     else Some (fold (noteEndpoint c svc sel p) (podEndpoints c svc look ess p) (newFacts p)))"
proof -
  have "map_of (snd (resolve c svc sel look ess)) (pod_UID p) =
      noteAll c svc sel (map (\<lambda>ep. (p, ep)) (podEndpoints c svc look ess p))"
    using trusted_of_uid [OF assms, of c svc "familyEndpoints ess"]
      pass_facts [of c svc sel look "familyEndpoints ess" "pod_UID p"]
    by (simp add: snd_resolve podEndpoints_def)
  then show ?thesis by (cases "podEndpoints c svc look ess p") (simp_all add: noteAll_def fold_map comp_def)
qed

text \<open>The address all the vouching endpoints of a Pod agree on.\<close>

definition agreed :: "Pod \<Rightarrow> Endpoint list \<Rightarrow> string \<Rightarrow> bool" where
  "agreed p eps a \<longleftrightarrow> (\<exists>ep \<in> set eps. vouches p ep a) \<and> (\<forall>ep \<in> set eps. \<forall>b. vouches p ep b \<longrightarrow> b = a)"

lemma isTarget_iff:
  assumes "[] \<notin> set (pod_IPs p)"
  shows "isTarget (fold (noteEndpoint c svc sel p) eps (newFacts p)) \<and>
      ef_target (fold (noteEndpoint c svc sel p) eps (newFacts p)) = Some t \<longleftrightarrow>
    (\<exists>a port. agreed p eps a \<and> pprofPort c p sel = Some port \<and> t = podTarget c svc p a port)"
proof -
  have "agreed p eps a \<longleftrightarrow> a \<in> set (vouched p eps) \<and> (\<forall>b \<in> set (vouched p eps). b = a)" for a
    by (auto simp: agreed_def set_vouched)
  then show ?thesis
    by (cases "vouched p eps") (auto simp: notes_of_pod [OF assms] isTarget_def)
qed

text \<open>The UIDs the pass met, in the order of their first endpoint.\<close>

definition metUIDs :: "Cluster \<Rightarrow> Service \<Rightarrow> PortSelection \<Rightarrow> (string \<Rightarrow> Pod option) \<Rightarrow> EndpointSlice list \<Rightarrow> string list" where
  "metUIDs c svc sel look ess = snd (fold (visitEndpoint c svc sel look) (familyEndpoints ess) ([], []))"

lemma distinct_metUIDs: "distinct (metUIDs c svc sel look ess)"
  using pass_order unfolding metUIDs_def by blast

lemma set_metUIDs:
  "u \<in> set (metUIDs c svc sel look ess) \<longleftrightarrow>
     (\<exists>p n. u = pod_UID p \<and> look n = Some p \<and> podEndpoints c svc look ess p \<noteq> [])" (is "?l = ?r")
proof -
  have "set (metUIDs c svc sel look ess) = pod_UID ` fst ` set (trusted c svc look (familyEndpoints ess))"
    using pass_order unfolding metUIDs_def by blast
  then have "?l \<longleftrightarrow> (\<exists>p ep. u = pod_UID p \<and> ep \<in> set (familyEndpoints ess) \<and> trustedPod c svc look ep = Some p)"
    by (simp add: image_image image_iff Bex_def set_trusted) blast
  also have "\<dots> \<longleftrightarrow> ?r"
  proof
    assume "\<exists>p ep. u = pod_UID p \<and> ep \<in> set (familyEndpoints ess) \<and> trustedPod c svc look ep = Some p"
    then obtain p ep where "u = pod_UID p" "ep \<in> set (familyEndpoints ess)" "trustedPod c svc look ep = Some p" by blast
    then show ?r using trustedPod_look [of c svc look ep p] by (auto simp: podEndpoints_def filter_empty_conv)
  qed (auto simp: podEndpoints_def filter_empty_conv)
  finally show ?thesis .
qed

lemma mem_targets:
  assumes ok: "pods_ok look"
  shows "t \<in> set (fst (resolve c svc sel look ess)) \<longleftrightarrow>
      (\<exists>p a port n. look n = Some p \<and> agreed p (podEndpoints c svc look ess p) a \<and> pprofPort c p sel = Some port \<and>
         t = podTarget c svc p a port)" (is "?l = ?r")
proof -
  note seen = resolve_seen [OF ok, of _ _ c svc sel ess]
  have ips: "[] \<notin> set (pod_IPs p)" if "look n = Some p" for n p using ok that by (auto simp: pods_ok_def)
  have l: "?l \<longleftrightarrow> (\<exists>u \<in> set (metUIDs c svc sel look ess). \<exists>facts.
      map_of (snd (resolve c svc sel look ess)) u = Some facts \<and> isTarget facts \<and> ef_target facts = Some t)"
    unfolding fst_resolve set_map_filter metUIDs_def by (auto split: option.splits if_splits)
  show ?thesis
  proof
    assume ?l
    then obtain u facts where u: "u \<in> set (metUIDs c svc sel look ess)"
      and f: "map_of (snd (resolve c svc sel look ess)) u = Some facts" "isTarget facts" "ef_target facts = Some t"
      unfolding l by blast
    then obtain p n where p: "u = pod_UID p" "look n = Some p" unfolding set_metUIDs by blast
    then show ?r using f seen [OF p(2)] isTarget_iff [OF ips [OF p(2)], of c svc sel _ t] by (metis option.distinct(1) option.inject)
  next
    assume ?r
    then obtain p a port n where p: "look n = Some p" and a: "agreed p (podEndpoints c svc look ess p) a"
      "pprofPort c p sel = Some port" "t = podTarget c svc p a port" by blast
    have ne: "podEndpoints c svc look ess p \<noteq> []" using a(1) by (auto simp: agreed_def)
    then have "pod_UID p \<in> set (metUIDs c svc sel look ess)" using p set_metUIDs by blast
    then show ?l unfolding l using seen [OF p] ne isTarget_iff [OF ips [OF p]] a by fastforce
  qed
qed

section \<open>Targets and Explain\<close>

definition lister_laws :: "Cluster \<Rightarrow> string \<Rightarrow> bool" where
  "lister_laws c ns \<longleftrightarrow> pods_ok (cl_pod c ns) \<and>
     (\<forall>sel pods. cl_pods c ns sel = Some pods \<longrightarrow> distinct (map pod_Name pods) \<and>
        (\<forall>p. p \<in> set pods \<longleftrightarrow> cl_pod c ns (pod_Name p) = Some p \<and> cl_matches c sel (pod_Labels p)))"

lemma lookupList_Some:
  assumes "distinct (map pod_Name pods)"
  shows "lookupList pods n = Some p \<longleftrightarrow> p \<in> set pods \<and> pod_Name p = n"
proof -
  have "distinct (map fst (rev (map (\<lambda>p. (pod_Name p, p)) pods)))"
    using assms by (simp add: rev_map [symmetric] comp_def)
  then show ?thesis by (auto simp: lookupList_def map_of_eq_Some_iff)
qed

lemma lister_lawsD:
  assumes "lister_laws c ns"
  shows "pods_ok (cl_pod c ns)"
    "cl_pods c ns sel = Some pods \<Longrightarrow> distinct (map pod_Name pods)"
    "cl_pods c ns sel = Some pods \<Longrightarrow> p \<in> set pods \<longleftrightarrow> cl_pod c ns (pod_Name p) = Some p \<and> cl_matches c sel (pod_Labels p)"
    "cl_pod c ns n = Some q \<Longrightarrow> pod_Name q = n"
  using assms unfolding lister_laws_def pods_ok_def by blast+

lemma listed_lookup:
  assumes "lister_laws c ns" and "cl_pods c ns sel = Some pods"
  shows "lookupList pods n = Some p \<longleftrightarrow> cl_pod c ns n = Some p \<and> cl_matches c sel (pod_Labels p)"
  using lookupList_Some [OF lister_lawsD(2) [OF assms]] lister_lawsD(3) [OF assms] lister_lawsD(4) [OF assms(1)] by metis

lemma pods_ok_listed:
  assumes "lister_laws c ns" and "cl_pods c ns sel = Some pods"
  shows "pods_ok (lookupList pods)"
proof -
  have "cl_pod c ns n = Some p" if "lookupList pods n = Some p" for n p using listed_lookup [OF assms] that by blast
  moreover note lister_lawsD(1) [OF assms(1)]
  ultimately show ?thesis unfolding pods_ok_def by meson
qed

lemma option_eqI: "(\<And>p. x = Some p \<longleftrightarrow> y = Some p) \<Longrightarrow> x = y"
  by (cases x; cases y) auto

lemma trustedPod_listed:
  assumes "lister_laws c ns" and "cl_pods c ns (svc_Selector svc) = Some pods"
  shows "trustedPod c svc (lookupList pods) ep = trustedPod c svc (cl_pod c ns) ep"
proof -
  let ?look = "\<lambda>n. case cl_pod c ns n of None \<Rightarrow> None
      | Some p \<Rightarrow> if cl_matches c (svc_Selector svc) (pod_Labels p) then Some p else None"
  have "lookupList pods n = Some p \<longleftrightarrow> ?look n = Some p" for n p
    unfolding listed_lookup [OF assms] by (cases "cl_pod c ns n") auto
  then have look: "lookupList pods = ?look" by (intro ext option_eqI)
  show ?thesis unfolding trustedPod_def look by (simp split: option.split)
qed

lemma resolve_listed:
  assumes "lister_laws c ns" and "cl_pods c ns (svc_Selector svc) = Some pods"
  shows "resolve c svc sel (lookupList pods) ess = resolve c svc sel (cl_pod c ns) ess"
proof -
  have "visitEndpoint c svc sel (lookupList pods) = visitEndpoint c svc sel (cl_pod c ns)"
    by (intro ext) (simp add: visitEndpoint_def trustedPod_listed [OF assms])
  then show ?thesis unfolding resolve_def resolvePass_def by (simp only:)
qed

text \<open>Whether the pass made the Pod of this UID a target.\<close>

definition madeTarget :: "(string \<times> endpointFacts) list \<Rightarrow> string \<Rightarrow> bool" where
  "madeTarget seen u \<longleftrightarrow> (case map_of seen u of None \<Rightarrow> False | Some f \<Rightarrow> isTarget f)"

lemma length_map_filter: "length (List.map_filter f xs) = length (filter (\<lambda>x. f x \<noteq> None) xs)"
  by (induction xs) (simp_all add: map_filter_simps split: option.split)

lemma length_targets:
  "length (fst (resolve c svc sel look ess)) =
     length (filter (madeTarget (snd (resolve c svc sel look ess))) (metUIDs c svc sel look ess))"
proof -
  have "(case map_of seen u of None \<Rightarrow> None | Some f \<Rightarrow> if isTarget f then ef_target f else None) \<noteq> None \<longleftrightarrow> madeTarget seen u"
    for seen u by (auto simp: madeTarget_def isTarget_def split: option.split)
  then show ?thesis unfolding fst_resolve metUIDs_def by (simp add: length_map_filter)
qed

lemma length_dropped: "length (droppedReasons seen pods) = length (filter (\<lambda>p. \<not> madeTarget seen (pod_UID p)) pods)"
proof -
  have "(let facts = map_of seen (pod_UID p) in if case facts of None \<Rightarrow> False | Some f \<Rightarrow> isTarget f then None
      else Some (attribute p facts)) \<noteq> None \<longleftrightarrow> \<not> madeTarget seen (pod_UID p)" for p
    by (simp add: madeTarget_def Let_def)
  then show ?thesis unfolding droppedReasons_def length_map_filter by simp
qed

lemma targets_counted:
  assumes ok: "pods_ok (lookupList pods)" and d: "distinct (map pod_Name pods)"
  shows "length (fst (resolve c svc sel (lookupList pods) ess)) =
    length (filter (\<lambda>p. madeTarget (snd (resolve c svc sel (lookupList pods) ess)) (pod_UID p)) pods)"
proof -
  let ?seen = "snd (resolve c svc sel (lookupList pods) ess)" and ?met = "metUIDs c svc sel (lookupList pods) ess"
  have look: "lookupList pods (pod_Name p) = Some p" if "p \<in> set pods" for p using lookupList_Some [OF d] that by blast
  have "set (filter (madeTarget ?seen) ?met) = pod_UID ` set (filter (\<lambda>p. madeTarget ?seen (pod_UID p)) pods)"
  proof (rule set_eqI, rule iffI)
    fix u assume "u \<in> set (filter (madeTarget ?seen) ?met)"
    then obtain p n where "u = pod_UID p" "lookupList pods n = Some p" "madeTarget ?seen u" using set_metUIDs by auto
    then show "u \<in> pod_UID ` set (filter (\<lambda>p. madeTarget ?seen (pod_UID p)) pods)" using lookupList_Some [OF d] by auto
  next
    fix u assume "u \<in> pod_UID ` set (filter (\<lambda>p. madeTarget ?seen (pod_UID p)) pods)"
    then obtain p where p: "p \<in> set pods" "u = pod_UID p" "madeTarget ?seen u" by auto
    then have "podEndpoints c svc (lookupList pods) ess p \<noteq> []"
      using resolve_seen [OF ok look [OF p(1)], of c svc sel ess] by (auto simp: madeTarget_def)
    then show "u \<in> set (filter (madeTarget ?seen) ?met)" using set_metUIDs p look by fastforce
  qed
  moreover have "inj_on pod_UID (set (filter (\<lambda>p. madeTarget ?seen (pod_UID p)) pods))"
    using ok look unfolding pods_ok_def inj_on_def by (metis filter_is_subset subset_iff)
  moreover have "distinct pods" using d by (simp add: distinct_map)
  ultimately show ?thesis
    using distinct_metUIDs [of c svc sel "lookupList pods" ess]
    by (metis (no_types, lifting) card_image distinct_card distinct_filter length_targets)
qed

lemma reasons_all: "set exclusionReasons = UNIV" "distinct exclusionReasons"
proof -
  have "r \<in> set exclusionReasons" for r by (cases r) (simp_all add: exclusionReasons_def)
  then show "set exclusionReasons = UNIV" by blast
qed (simp add: exclusionReasons_def)

lemma sum_counts: "sum_list (map (count_list xs) exclusionReasons) = length xs"
proof -
  have "sum (count_list xs) (set exclusionReasons) = length xs" by (rule sum_count_set) (use reasons_all(1) in blast, simp)
  then show ?thesis using reasons_all(2) by (simp add: sum_list_distinct_conv_sum_set)
qed

lemma reasonCounts_sum: "sum_list (map snd (reasonCounts xs)) = length xs"
proof -
  have "sum_list (map snd (List.map_filter (\<lambda>r. if count_list xs r > 0 then Some (r, count_list xs r) else None) rs)) =
      sum_list (map (count_list xs) rs)" for rs
    by (induction rs) (simp_all add: map_filter_simps)
  then show ?thesis by (simp add: reasonCounts_def sum_counts)
qed

lemma reasonCounts_distinct: "distinct (map fst (reasonCounts xs))"
proof -
  have "distinct (map fst (List.map_filter (\<lambda>r. if count_list xs r > 0 then Some (r, count_list xs r) else None) rs))"
    if "distinct rs" for rs
    using that by (induction rs) (auto simp: map_filter_simps set_map_filter split: if_splits)
  then show ?thesis using reasons_all by (simp add: reasonCounts_def)
qed

text \<open>
  C27: \<open>Targets\<close> answers exactly the Pods it may: a Target is in the answer if and only if its
  Pod is reachable through a trusted endpoint of the read address family (by name, UID and
  selector), at least one endpoint that is not unready vouches for one of the Pod's own
  addresses while the Pod is running, ready and not terminating, all vouching endpoints agree
  on that address, and a pprof port resolves; the Target carries that address, port and version.
\<close>

theorem Targets_exact:
  assumes "pods_ok (cl_pod c ns)" and "Targets c ns name sel = Inr ts"
  shows "\<exists>svc ess. serviceSlices c ns name = Inr (svc, ess) \<and>
    (\<forall>t. t \<in> set ts \<longleftrightarrow> (\<exists>p a port n. cl_pod c ns n = Some p \<and>
       agreed p (podEndpoints c svc (cl_pod c ns) ess p) a \<and> pprofPort c p sel = Some port \<and>
       t = podTarget c svc p a port))"
  using assms mem_targets [OF assms(1)] by (auto simp: Targets_def split: sum.splits)

text \<open>
  \<open>Explain\<close> accounts for every selected Pod: its targets are those of \<open>Targets\<close>, and the
  Pods the selector matched are the targets plus the sum of the exclusion counts, each count
  positive and the reasons distinct.
\<close>

theorem Explain_accounts:
  assumes laws: "lister_laws c ns" and ex: "Explain c ns name sel = Inr x"
  shows "Targets c ns name sel = Inr (ex_Targets x) \<and>
    ex_SelectorMatched x = length (ex_Targets x) + sum_list (map snd (ex_Excluded x)) \<and>
    (\<forall>(r, n) \<in> set (ex_Excluded x). 0 < n) \<and> distinct (map fst (ex_Excluded x))"
proof -
  obtain svc ess pods where s: "serviceSlices c ns name = Inr (svc, ess)" and l: "cl_pods c ns (svc_Selector svc) = Some pods"
    and x: "x = \<lparr>ex_Targets = fst (resolve c svc sel (lookupList pods) ess), ex_SelectorMatched = length pods,
       ex_Excluded = reasonCounts (droppedReasons (snd (resolve c svc sel (lookupList pods) ess)) pods)\<rparr>"
    using ex by (auto simp: Explain_def split_def Let_def split: sum.splits option.splits)
  have d: "distinct (map pod_Name pods)" using lister_lawsD(2) [OF laws l] .
  have t: "Targets c ns name sel = Inr (ex_Targets x)" using s x resolve_listed [OF laws l] by (simp add: Targets_def)
  have "length pods = length (ex_Targets x) + sum_list (map snd (ex_Excluded x))"
    using targets_counted [OF pods_ok_listed [OF laws l] d, of c svc sel ess]
    by (simp add: x reasonCounts_sum length_dropped sum_length_filter_compl)
  moreover have "\<forall>(r, n) \<in> set (ex_Excluded x). 0 < n"
    by (auto simp: x reasonCounts_def set_map_filter split: if_splits)
  ultimately show ?thesis using t x reasonCounts_distinct by simp
qed

text \<open>
  the reason \<open>port_name_not_declared\<close> is given only when it is true: a selected Pod that
  \<open>Explain\<close> drops with it is running, ready and not terminating, some endpoint vouches for its
  address, and no pprof port resolves for it under the request's selection.
\<close>

theorem port_reason_sound:
  assumes "lister_laws c ns" and "serviceSlices c ns name = Inr (svc, ess)"
    and "cl_pods c ns (svc_Selector svc) = Some pods" and "p \<in> set pods"
    and "attribute p (map_of (snd (resolve c svc sel (lookupList pods) ess)) (pod_UID p)) = ReasonPortNameNotDeclared"
  shows "podServing p \<and> pprofPort c p sel = None \<and> (\<exists>ep \<in> set (familyEndpoints ess). \<exists>a. vouches p ep a)"
proof -
  let ?eps = "podEndpoints c svc (lookupList pods) ess p"
  have look: "lookupList pods (pod_Name p) = Some p" using lookupList_Some [OF lister_lawsD(2) [OF assms(1,3)]] assms(4) by blast
  have ok: "pods_ok (lookupList pods)" by (rule pods_ok_listed [OF assms(1,3)])
  then have ips: "[] \<notin> set (pod_IPs p)" using look by (auto simp: pods_ok_def)
  have serving: "podServing p" using assms(5) by (auto simp: attribute_def podServing_def split: if_splits option.splits)
  have ne: "?eps \<noteq> []"
    using assms(5) resolve_seen [OF ok look, of c svc sel ess] by (auto simp: attribute_def split: if_splits)
  then have facts: "map_of (snd (resolve c svc sel (lookupList pods) ess)) (pod_UID p) =
      Some (fold (noteEndpoint c svc sel p) ?eps (newFacts p))"
    using resolve_seen [OF ok look] by simp
  have all: "\<exists>a. vouches p ep a" if "ep \<in> set ?eps" for ep
    using assms(5) serving that unfolding facts notes_of_pod [OF ips]
    by (auto simp: attribute_def split: if_splits)
  then have "set (vouched p ?eps) \<noteq> {}" using ne unfolding set_vouched by (metis (mono_tags, lifting) empty_iff last_in_set mem_Collect_eq)
  then have "vouched p ?eps \<noteq> []" by auto
  then have "pprofPort c p sel = None"
    using assms(5) unfolding facts notes_of_pod [OF ips] by (auto simp: attribute_def split: if_splits list.splits)
  moreover have "set ?eps \<subseteq> set (familyEndpoints ess)" by (auto simp: podEndpoints_def)
  ultimately show ?thesis using serving ne all by (metis list.set_sel(1) subset_iff)
qed

text \<open>
  C28: a Pod that has not changed since it was selected is confirmed: the read of the very Pod
  the Target was made from answers no error, and an answer without error means that the Pod
  read has the Target's UID and address and is running, ready and not terminating.
\<close>

theorem Confirm_matches_selection:
  assumes "pods_ok (cl_pod c ns)" and "Targets c ns name sel = Inr ts" and "t \<in> set ts"
  shows "(\<exists>p n. cl_pod c ns n = Some p \<and> pod_UID p = tg_UID t \<and> Confirm (PodGot p) canceled t = None) \<and>
    (\<forall>r. Confirm r canceled t = None \<longrightarrow>
       (\<exists>q. r = PodGot q \<and> pod_UID q = tg_UID t \<and> podServing q \<and> hasPodIP q (tg_PodIP t)))"
proof -
  obtain svc ess p a port n where "cl_pod c ns n = Some p" "agreed p (podEndpoints c svc (cl_pod c ns) ess p) a"
    "t = podTarget c svc p a port"
    using assms mem_targets [OF assms(1)] by (auto simp: Targets_def split: sum.splits)
  then have "cl_pod c ns n = Some p \<and> pod_UID p = tg_UID t \<and> Confirm (PodGot p) canceled t = None"
    by (auto simp: agreed_def vouches_def podServing_def Confirm_def podTarget_def)
  moreover have "\<exists>q. r = PodGot q \<and> pod_UID q = tg_UID t \<and> podServing q \<and> hasPodIP q (tg_PodIP t)"
    if "Confirm r canceled t = None" for r
    using that by (auto simp: Confirm_def podServing_def split: podRead.splits if_splits)
  ultimately show ?thesis by blast
qed

section \<open>A small cluster\<close>

text \<open>Two Pods behind one Service; the second one's endpoints disagree on its address.\<close>

definition demo_pod :: "string \<Rightarrow> string list \<Rightarrow> Pod" where
  "demo_pod name ips = \<lparr>pod_Name = name, pod_UID = ''u-'' @ name, pod_Labels = [(''app'', ''x''), (''v'', ''1'')],
     pod_Deleted = False, pod_Phase = ''Running'', pod_Conditions = [(''Ready'', ''True'')], pod_IPs = ips,
     pod_Node = ''n'', pod_Containers = [[\<lparr>cp_Name = ''pprof'', cp_Protocol = [], cp_Port = 6060\<rparr>]]\<rparr>"

definition demo_endpoint :: "string \<Rightarrow> string \<Rightarrow> Endpoint" where
  "demo_endpoint name ip = \<lparr>ep_Addresses = [ip], ep_Ready = None,
     ep_TargetRef = Some \<lparr>or_Kind = ''Pod'', or_Namespace = ''ns'', or_Name = name, or_UID = ''u-'' @ name\<rparr>\<rparr>"

definition demo_pods :: "Pod list" where
  "demo_pods = [demo_pod ''a'' [''10.0.0.1''], demo_pod ''b'' [''10.0.0.2'', ''10.0.0.3'']]"

definition demo_cluster :: Cluster where
  "demo_cluster = \<lparr>
     cl_service = (\<lambda>_ _. Inr \<lparr>svc_Namespace = ''ns'', svc_Name = ''svc'', svc_Selector = [(''app'', ''x'')]\<rparr>),
     cl_services = (\<lambda>_. Some []),
     cl_slices = (\<lambda>_ _. Some [\<lparr>es_AddressType = ''IPv4'', es_Endpoints =
        [demo_endpoint ''a'' ''10.0.0.1'', demo_endpoint ''b'' ''10.0.0.2'', demo_endpoint ''b'' ''10.0.0.3'']\<rparr>]),
     cl_pod = (\<lambda>_. lookupList demo_pods),
     cl_pods = (\<lambda>_ sel. Some (filter (\<lambda>p. set sel \<subseteq> set (pod_Labels p)) demo_pods)),
     cl_matches = (\<lambda>sel ls. set sel \<subseteq> set ls),
     cl_VersionLabel = ''v'', cl_Port = 0, cl_PortName = ''pprof''\<rparr>"

definition demo_sel :: PortSelection where "demo_sel = \<lparr>ps_Port = 0, ps_PortName = []\<rparr>"

lemma demo_names: "distinct (map pod_Name demo_pods)"
  by (simp add: demo_pods_def demo_pod_def)

lemma demo_laws: "lister_laws demo_cluster ns"
proof -
  have l: "cl_pod demo_cluster ns n = Some p \<longleftrightarrow> p \<in> set demo_pods \<and> pod_Name p = n" for n p
    by (simp add: demo_cluster_def lookupList_Some [OF demo_names])
  have "pods_ok (cl_pod demo_cluster ns)"
    unfolding pods_ok_def l by (auto simp: demo_pods_def demo_pod_def)
  then show ?thesis unfolding lister_laws_def l
    using demo_names by (auto simp: demo_cluster_def distinct_map_filter)
qed

lemma demo_ok: "pods_ok (cl_pod demo_cluster ns)"
  using lister_lawsD(1) [OF demo_laws] .

lemma demo_targets: "Targets demo_cluster ''ns'' ''svc'' demo_sel =
    Inr [\<lparr>tg_Namespace = ''ns'', tg_Service = ''svc'', tg_Pod = ''a'', tg_Node = ''n'', tg_PodIP = ''10.0.0.1'',
          tg_Port = 6060, tg_Version = ''1'', tg_UID = ''u-a''\<rparr>]"
  by code_simp

theorem Targets_exact_witness:
  "\<exists>svc ess. serviceSlices demo_cluster ''ns'' ''svc'' = Inr (svc, ess) \<and>
    (\<exists>t p a port n. t = podTarget demo_cluster svc p a port \<and> cl_pod demo_cluster ''ns'' n = Some p \<and>
       agreed p (podEndpoints demo_cluster svc (cl_pod demo_cluster ''ns'') ess p) a \<and> tg_PodIP t = ''10.0.0.1'')"
proof -
  let ?t = "\<lparr>tg_Namespace = ''ns'', tg_Service = ''svc'', tg_Pod = ''a'', tg_Node = ''n'', tg_PodIP = ''10.0.0.1'',
          tg_Port = 6060, tg_Version = ''1'', tg_UID = ''u-a''\<rparr> :: Target"
  obtain svc ess where s: "serviceSlices demo_cluster ''ns'' ''svc'' = Inr (svc, ess)"
    and "\<forall>t. t \<in> set [?t] \<longleftrightarrow> (\<exists>p a port n. cl_pod demo_cluster ''ns'' n = Some p \<and>
       agreed p (podEndpoints demo_cluster svc (cl_pod demo_cluster ''ns'') ess p) a \<and>
       pprofPort demo_cluster p demo_sel = Some port \<and> t = podTarget demo_cluster svc p a port)"
    using Targets_exact [OF demo_ok demo_targets] by blast
  then obtain p a port n where "cl_pod demo_cluster ''ns'' n = Some p"
    "agreed p (podEndpoints demo_cluster svc (cl_pod demo_cluster ''ns'') ess p) a" "?t = podTarget demo_cluster svc p a port"
    by (meson list.set_intros(1))
  moreover have "tg_PodIP ?t = ''10.0.0.1''" by simp
  ultimately show ?thesis using s by metis
qed

lemma demo_explain: "Explain demo_cluster ''ns'' ''svc'' demo_sel =
    Inr \<lparr>ex_Targets = [\<lparr>tg_Namespace = ''ns'', tg_Service = ''svc'', tg_Pod = ''a'', tg_Node = ''n'', tg_PodIP = ''10.0.0.1'',
          tg_Port = 6060, tg_Version = ''1'', tg_UID = ''u-a''\<rparr>], ex_SelectorMatched = 2,
          ex_Excluded = [(ReasonEndpointAddressConflict, 1)]\<rparr>"
  by code_simp

theorem Explain_accounts_witness:
  "\<exists>x. Explain demo_cluster ''ns'' ''svc'' demo_sel = Inr x \<and>
    ex_SelectorMatched x = length (ex_Targets x) + sum_list (map snd (ex_Excluded x)) \<and> ex_Excluded x \<noteq> []"
  using Explain_accounts [OF demo_laws demo_explain] demo_explain by auto

theorem Confirm_matches_selection_witness:
  "\<exists>t. Targets demo_cluster ''ns'' ''svc'' demo_sel = Inr [t] \<and>
    (\<exists>p n. cl_pod demo_cluster ''ns'' n = Some p \<and> pod_UID p = tg_UID t \<and> Confirm (PodGot p) False t = None)"
  using Confirm_matches_selection [OF demo_ok demo_targets, of _ False] demo_targets by auto

text \<open>The same cluster asked for a port name its Pods do not declare.\<close>

definition demo_other :: PortSelection where "demo_other = \<lparr>ps_Port = 0, ps_PortName = ''debug''\<rparr>"

theorem port_reason_sound_witness:
  "\<exists>p svc ess. serviceSlices demo_cluster ''ns'' ''svc'' = Inr (svc, ess) \<and> p \<in> set demo_pods \<and>
     pprofPort demo_cluster p demo_other = None"
proof -
  obtain svc ess where s: "serviceSlices demo_cluster ''ns'' ''svc'' = Inr (svc, ess)"
    and ess: "ess = [\<lparr>es_AddressType = ''IPv4'', es_Endpoints =
        [demo_endpoint ''a'' ''10.0.0.1'', demo_endpoint ''b'' ''10.0.0.2'', demo_endpoint ''b'' ''10.0.0.3'']\<rparr>]"
    and svc: "svc = \<lparr>svc_Namespace = ''ns'', svc_Name = ''svc'', svc_Selector = [(''app'', ''x'')]\<rparr>"
    by (simp add: serviceSlices_def demo_cluster_def)
  have l: "cl_pods demo_cluster ''ns'' (svc_Selector svc) = Some demo_pods" unfolding svc by code_simp
  have m: "demo_pod ''a'' [''10.0.0.1''] \<in> set demo_pods" by (simp add: demo_pods_def)
  have "attribute (demo_pod ''a'' [''10.0.0.1'']) (map_of (snd (resolve demo_cluster svc demo_other (lookupList demo_pods) ess))
      (pod_UID (demo_pod ''a'' [''10.0.0.1'']))) = ReasonPortNameNotDeclared" unfolding svc ess by code_simp
  then show ?thesis using port_reason_sound [OF demo_laws s l m] s m by blast
qed

end
