(* ===== verification/Limits.thy ===== *)
theory Limits
  imports Prelude
begin

text \<open>
  The PGO block of the operator's configuration (\<open>internal/config/config.go\<close>): the ceilings
  \<open>PGOLimits\<close>, the default policy \<open>PGODefaults\<close>, the per-key ranges their struct tags
  declare, the rules that relate one key to another (\<open>validatePGO\<close>,
  \<open>validatePGODefaults\<close>, \<open>validatePGOSizing\<close>), and the memory figure derived from
  the ceilings.  Every \<open>int64\<close> operation of the sizing rule is wrapped with \<open>i64\<close>.
\<close>

section \<open>The configuration block\<close>

record PGOLimits =
  lim_MaxDuration :: duration
  lim_MaxRounds :: int
  lim_MaxParallel :: int
  lim_MinEvery :: duration
  lim_MaxEvery :: duration
  lim_MaxRetention :: duration
  lim_MaxSampleBytes :: int
  lim_MaxMergedBytes :: int
  lim_MaxTargetsPerRound :: int
  lim_MaxActiveCollections :: int
  lim_OnDemandPerMinute :: int
  lim_MaxLiveCollections :: int

record PGODefaults =
  def_Every :: duration
  def_Jitter :: duration
  def_Duration :: duration
  def_Rounds :: int
  def_RoundInterval :: duration
  def_Replicas :: string
  def_MaxParallel :: int
  def_Retention :: duration

record PGOConfig =
  cfg_Enabled :: bool
  cfg_LeaseTTL :: duration
  cfg_MaxAttempts :: int
  cfg_JobRetention :: duration
  cfg_Limits :: PGOLimits
  cfg_Defaults :: PGODefaults

definition replicasAll :: string where "replicasAll = ''all''"

definition PGOMaxRoundInterval :: duration where "PGOMaxRoundInterval = 10 * minute"
definition PGOSampleOverhead :: duration where "PGOSampleOverhead = 30 * second"
definition PGODeadlineSlack :: duration where "PGODeadlineSlack = 60 * second"
definition PGODecodeRetainFactor :: int where "PGODecodeRetainFactor = 12"
definition PGOMergeRetainFactor :: int where "PGOMergeRetainFactor = 16"
definition PGOGatewayBaseMemory :: int where "PGOGatewayBaseMemory = 536870912"
definition maxSamplesPerCollection :: int where "maxSamplesPerCollection = 256"

lemmas pgo_constants = PGOMaxRoundInterval_def PGOSampleOverhead_def PGODeadlineSlack_def
  PGODecodeRetainFactor_def PGOMergeRetainFactor_def PGOGatewayBaseMemory_def
  maxSamplesPerCollection_def

text \<open>
  The ranges the \<open>validate\<close> tags declare.  The integer keys are Go \<open>int\<close>s and
  \<open>int64\<close>s, so a key with no upper tag is still a 64-bit value.
\<close>

definition limits_tags :: "PGOLimits \<Rightarrow> bool" where
  "limits_tags l \<longleftrightarrow>
     second \<le> lim_MaxDuration l \<and> in_i64 (lim_MaxDuration l) \<and>
     1 \<le> lim_MaxRounds l \<and> lim_MaxRounds l \<le> 20 \<and>
     1 \<le> lim_MaxParallel l \<and> lim_MaxParallel l \<le> 64 \<and>
     minute \<le> lim_MinEvery l \<and> in_i64 (lim_MinEvery l) \<and>
     lim_MaxEvery l \<le> 24 * hour \<and> in_i64 (lim_MaxEvery l) \<and>
     minute \<le> lim_MaxRetention l \<and> lim_MaxRetention l \<le> 720 * hour \<and>
     1048576 \<le> lim_MaxSampleBytes l \<and> lim_MaxSampleBytes l \<le> 268435456 \<and>
     lim_MaxMergedBytes l \<le> 1073741824 \<and> in_i64 (lim_MaxMergedBytes l) \<and>
     1 \<le> lim_MaxTargetsPerRound l \<and> lim_MaxTargetsPerRound l \<le> 256 \<and>
     1 \<le> lim_MaxActiveCollections l \<and> in_i64 (lim_MaxActiveCollections l) \<and>
     1 \<le> lim_OnDemandPerMinute l \<and> lim_OnDemandPerMinute l \<le> 600 \<and>
     1 \<le> lim_MaxLiveCollections l \<and> lim_MaxLiveCollections l \<le> 1024"

definition defaults_tags :: "PGODefaults \<Rightarrow> bool" where
  "defaults_tags d \<longleftrightarrow>
     second \<le> def_Duration d \<and> 1 \<le> def_Rounds d \<and>
     0 \<le> def_RoundInterval d \<and> def_RoundInterval d \<le> 10 * minute \<and>
     1 \<le> def_MaxParallel d \<and> minute \<le> def_Retention d"

section \<open>The defaults the struct tags declare\<close>

definition shippedLimits :: PGOLimits where
  "shippedLimits = \<lparr>lim_MaxDuration = 60 * second, lim_MaxRounds = 5, lim_MaxParallel = 4, lim_MinEvery = 15 * minute,
     lim_MaxEvery = 24 * hour, lim_MaxRetention = 24 * hour, lim_MaxSampleBytes = 16777216, lim_MaxMergedBytes = 33554432,
     lim_MaxTargetsPerRound = 32, lim_MaxActiveCollections = 1, lim_OnDemandPerMinute = 10, lim_MaxLiveCollections = 64\<rparr>"

definition shippedDefaults :: PGODefaults where
  "shippedDefaults = \<lparr>def_Every = 6 * hour, def_Jitter = 10 * minute, def_Duration = 30 * second, def_Rounds = 2,
     def_RoundInterval = 30 * second, def_Replicas = ''all'', def_MaxParallel = 4, def_Retention = 24 * hour\<rparr>"

definition shippedConfig :: PGOConfig where
  "shippedConfig = \<lparr>cfg_Enabled = False, cfg_LeaseTTL = 60 * second, cfg_MaxAttempts = 3, cfg_JobRetention = 168 * hour,
     cfg_Limits = shippedLimits, cfg_Defaults = shippedDefaults\<rparr>"

lemmas shipped_defs = shippedLimits_def shippedDefaults_def shippedConfig_def

section \<open>The rules that relate keys\<close>

datatype cfg_error =
    BadSamplesProduct | BadJobRetention | BadEveryRange | BadMergedBytes
  | BadDefaultEvery | BadDefaultJitter | BadDefaultDuration | BadDefaultRounds
  | BadDefaultParallel | BadDefaultReplicas | BadDefaultRetention | BadDefaultRetentionEvery
  | BadNATS | BadMaxDuration | BadSizing

definition validatePGODefaults :: "PGODefaults \<Rightarrow> PGOLimits \<Rightarrow> cfg_error option" where
  "validatePGODefaults d lim =
     (if def_Every d < lim_MinEvery lim \<or> def_Every d > lim_MaxEvery lim then Some BadDefaultEvery
      else if def_Jitter d > tdiv (def_Every d) 2 then Some BadDefaultJitter
      else if def_Duration d > lim_MaxDuration lim then Some BadDefaultDuration
      else if def_Rounds d > lim_MaxRounds lim then Some BadDefaultRounds
      else if def_MaxParallel d > lim_MaxParallel lim then Some BadDefaultParallel
      else if (if def_Replicas d \<noteq> replicasAll
               then (case atoi (def_Replicas d) of
                       None \<Rightarrow> True
                     | Some n \<Rightarrow> n < 1 \<or> n > lim_MaxTargetsPerRound lim)
               else False) then Some BadDefaultReplicas
      else if def_Retention d > lim_MaxRetention lim then Some BadDefaultRetention
      else if def_Retention d < def_Every d then Some BadDefaultRetentionEvery
      else None)"

text \<open>
  \<open>math.MaxInt64 / x\<close> of the sizing rule.  \<open>limits.MaxMergedBytes\<close> has no lower tag, but
  \<open>validatePGO\<close> has refused a value below \<open>MaxSampleBytes\<close> before it gets here, so no
  divisor is zero.
\<close>

definition MaxInt64 :: int where "MaxInt64 = 2 ^ 63 - 1"

definition validatePGOSizing :: "PGOLimits \<Rightarrow> cfg_error option" where
  "validatePGOSizing lim =
     (let samples = i64 (lim_MaxParallel lim * (2 + PGODecodeRetainFactor)) in
      if samples > tdiv MaxInt64 (lim_MaxSampleBytes lim) then Some BadSizing
      else if 1 + PGOMergeRetainFactor > tdiv MaxInt64 (lim_MaxMergedBytes lim) then Some BadSizing
      else
        let sampleTerm = i64 (samples * lim_MaxSampleBytes lim);
            mergedTerm = i64 ((1 + PGOMergeRetainFactor) * lim_MaxMergedBytes lim) in
        if sampleTerm > i64 (MaxInt64 - mergedTerm) then Some BadSizing
        else
          let perCollection = i64 (sampleTerm + mergedTerm) in
          if lim_MaxActiveCollections lim > tdiv MaxInt64 perCollection then Some BadSizing
          else if i64 (lim_MaxActiveCollections lim * perCollection)
                  > i64 (MaxInt64 - PGOGatewayBaseMemory) then Some BadSizing
          else None)"

text \<open>
  \<open>validatePGO\<close>.  \<open>natsErr\<close> is the outcome of \<open>validateNATS\<close>, which checks a URL and a
  credentials file, and \<open>cpuSeconds\<close> is \<open>limits.cpuSeconds\<close>.
\<close>

definition validatePGO :: "bool \<Rightarrow> int \<Rightarrow> PGOConfig \<Rightarrow> cfg_error option" where
  "validatePGO natsErr cpuSeconds cfg =
     (let lim = cfg_Limits cfg in
      if i64 (lim_MaxRounds lim * lim_MaxTargetsPerRound lim) > maxSamplesPerCollection
        then Some BadSamplesProduct
      else if cfg_JobRetention cfg < i64 (lim_MaxRetention lim + hour) then Some BadJobRetention
      else if lim_MinEvery lim > lim_MaxEvery lim then Some BadEveryRange
      else if lim_MaxSampleBytes lim > lim_MaxMergedBytes lim then Some BadMergedBytes
      else case validatePGODefaults (cfg_Defaults cfg) lim of
        Some e \<Rightarrow> Some e
      | None \<Rightarrow>
          if \<not> cfg_Enabled cfg then None
          else if natsErr then Some BadNATS
          else if lim_MaxDuration lim > i64 (cpuSeconds * second) then Some BadMaxDuration
          else validatePGOSizing lim)"

section \<open>The memory figure\<close>

definition PGOMemoryBytes :: "PGOConfig \<Rightarrow> int" where
  "PGOMemoryBytes c =
     (let l = cfg_Limits c;
          perCollection =
            i64 (i64 (i64 (lim_MaxParallel l * (2 + PGODecodeRetainFactor)) * lim_MaxSampleBytes l)
                 + i64 ((1 + PGOMergeRetainFactor) * lim_MaxMergedBytes l))
      in i64 (lim_MaxActiveCollections l * perCollection))"

definition GatewayMemoryBytes :: "PGOConfig \<Rightarrow> int" where
  "GatewayMemoryBytes c =
     (if \<not> cfg_Enabled c then PGOGatewayBaseMemory
      else i64 (PGOGatewayBaseMemory + PGOMemoryBytes c))"

section \<open>What a configuration that loaded guarantees\<close>

lemma validatePGO_None:
  assumes "validatePGO natsErr cpu cfg = None"
  shows "validatePGODefaults (cfg_Defaults cfg) (cfg_Limits cfg) = None"
    and "lim_MinEvery (cfg_Limits cfg) \<le> lim_MaxEvery (cfg_Limits cfg)"
    and "lim_MaxSampleBytes (cfg_Limits cfg) \<le> lim_MaxMergedBytes (cfg_Limits cfg)"
    and "cfg_Enabled cfg \<Longrightarrow> lim_MaxDuration (cfg_Limits cfg) \<le> i64 (cpu * second)"
    and "cfg_Enabled cfg \<Longrightarrow> validatePGOSizing (cfg_Limits cfg) = None"
  using assms by (auto simp: validatePGO_def Let_def split: if_splits option.splits)

text \<open>The exact figure the sizing rule bounds, computed without wrap-around.\<close>

definition exact_memory :: "PGOLimits \<Rightarrow> int" where
  "exact_memory l =
     lim_MaxActiveCollections l *
       (lim_MaxParallel l * (2 + PGODecodeRetainFactor) * lim_MaxSampleBytes l
        + (1 + PGOMergeRetainFactor) * lim_MaxMergedBytes l)"

lemma per_collection_exact:
  assumes "limits_tags l" and "lim_MaxSampleBytes l \<le> lim_MaxMergedBytes l"
  defines "pc \<equiv> lim_MaxParallel l * (2 + PGODecodeRetainFactor) * lim_MaxSampleBytes l
                + (1 + PGOMergeRetainFactor) * lim_MaxMergedBytes l"
  shows "0 < pc \<and> pc < 2 ^ 40 \<and>
    i64 (lim_MaxParallel l * (2 + PGODecodeRetainFactor)) = lim_MaxParallel l * 14 \<and>
    i64 (lim_MaxParallel l * 14 * lim_MaxSampleBytes l) = lim_MaxParallel l * 14 * lim_MaxSampleBytes l \<and>
    i64 ((1 + PGOMergeRetainFactor) * lim_MaxMergedBytes l) = 17 * lim_MaxMergedBytes l"
proof -
  let ?p = "lim_MaxParallel l" and ?s = "lim_MaxSampleBytes l" and ?m = "lim_MaxMergedBytes l"
  have b: "1 \<le> ?p" "?p \<le> 64" "1048576 \<le> ?s" "?s \<le> 268435456" "?s \<le> ?m" "?m \<le> 1073741824"
    using assms(1,2) by (simp_all add: limits_tags_def)
  define q where "q = ?p * ?s"
  have pos: "0 < q" using b by (simp add: q_def)
  have top: "q \<le> 64 * 268435456" unfolding q_def using b by (intro mult_mono) auto
  have eq: "?p * 14 * ?s = 14 * q" by (simp add: q_def)
  show ?thesis using b pos top unfolding pc_def
    by (simp add: pgo_constants eq in_i64_def)
qed

lemma MaxInt64_guard:
  assumes "0 < pc" and "a \<le> tdiv MaxInt64 pc"
  shows "a * pc \<le> MaxInt64"
proof -
  have "a \<le> MaxInt64 div pc" using assms by (simp add: MaxInt64_def)
  then have "a * pc \<le> (MaxInt64 div pc) * pc" using assms(1) by simp
  also have "\<dots> \<le> MaxInt64" using assms(1) by (simp add: MaxInt64_def minus_mod_eq_div_mult [symmetric])
  finally show ?thesis .
qed

lemma sizing_exact:
  assumes "limits_tags l" and "lim_MaxSampleBytes l \<le> lim_MaxMergedBytes l"
    and "validatePGOSizing l = None"
  shows "0 < exact_memory l \<and> exact_memory l \<le> MaxInt64 - PGOGatewayBaseMemory"
proof -
  define pc where "pc = lim_MaxParallel l * (2 + PGODecodeRetainFactor) * lim_MaxSampleBytes l
                + (1 + PGOMergeRetainFactor) * lim_MaxMergedBytes l"
  note ex = per_collection_exact [OF assms(1,2), folded pc_def]
  have pcw: "i64 (lim_MaxParallel l * 14 * lim_MaxSampleBytes l + 17 * lim_MaxMergedBytes l) = pc"
    using ex by (simp add: pc_def pgo_constants in_i64_def)
  have act: "1 \<le> lim_MaxActiveCollections l" using assms(1) by (simp add: limits_tags_def)
  have fit: "lim_MaxActiveCollections l \<le> tdiv MaxInt64 pc"
    and base: "i64 (lim_MaxActiveCollections l * pc) \<le> i64 (MaxInt64 - PGOGatewayBaseMemory)"
    using assms(3) ex pcw by (auto simp: validatePGOSizing_def Let_def split: if_splits)
  have pos: "0 < lim_MaxActiveCollections l * pc" using ex act by simp
  have "in_i64 (lim_MaxActiveCollections l * pc)"
    using MaxInt64_guard [OF _ fit] ex pos by (simp add: in_i64_def MaxInt64_def)
  moreover have "in_i64 (MaxInt64 - PGOGatewayBaseMemory)"
    by (simp add: in_i64_def MaxInt64_def pgo_constants)
  ultimately have "lim_MaxActiveCollections l * pc \<le> MaxInt64 - PGOGatewayBaseMemory"
    using base by simp
  then show ?thesis using pos by (simp add: exact_memory_def pc_def)
qed

section \<open>Properties\<close>

text \<open>
  The configuration the defaults give passes every rule, also once the feature is switched on,
  and the memory the gateway is sized for is the base plus one Collection's worth.
\<close>

theorem shipped_config_valid:
  "limits_tags shippedLimits \<and> defaults_tags shippedDefaults \<and>
   validatePGO False 60 shippedConfig = None \<and> validatePGO False 60 (shippedConfig\<lparr>cfg_Enabled := True\<rparr>) = None \<and>
   GatewayMemoryBytes (shippedConfig\<lparr>cfg_Enabled := True\<rparr>) = 536870912 + (4 * 14 * 16777216 + 17 * 33554432)"
  by (simp add: shipped_defs limits_tags_def defaults_tags_def validatePGO_def validatePGODefaults_def validatePGOSizing_def
      GatewayMemoryBytes_def PGOMemoryBytes_def replicasAll_def pgo_constants duration_units in_i64_def MaxInt64_def tdiv_def)

text \<open>
  C39: Once a configuration loads with the feature enabled, the memory figure the gateway derives from
  it is the exact product of its ceilings: no 64-bit operation of the sum wraps.
\<close>

theorem memory_figure_exact:
  assumes "limits_tags (cfg_Limits cfg)" and "cfg_Enabled cfg" and "validatePGO natsErr cpuSeconds cfg = None"
  shows "GatewayMemoryBytes cfg = PGOGatewayBaseMemory + exact_memory (cfg_Limits cfg) \<and>
    0 < exact_memory (cfg_Limits cfg) \<and> GatewayMemoryBytes cfg \<le> MaxInt64"
proof -
  let ?l = "cfg_Limits cfg"
  note v = validatePGO_None [OF assms(3)]
  note ex = per_collection_exact [OF assms(1) v(3)] and sz = sizing_exact [OF assms(1) v(3) v(5) [OF assms(2)]]
  define pc where "pc = lim_MaxParallel ?l * (2 + PGODecodeRetainFactor) * lim_MaxSampleBytes ?l + (1 + PGOMergeRetainFactor) * lim_MaxMergedBytes ?l"
  have pc: "i64 (lim_MaxParallel ?l * 14 * lim_MaxSampleBytes ?l + 17 * lim_MaxMergedBytes ?l) = pc"
    using ex by (simp add: pc_def pgo_constants in_i64_def)
  have "in_i64 (lim_MaxActiveCollections ?l * pc)" "lim_MaxActiveCollections ?l * pc = exact_memory ?l"
    using sz by (simp_all add: exact_memory_def pc_def in_i64_def MaxInt64_def PGOGatewayBaseMemory_def)
  then have "PGOMemoryBytes cfg = exact_memory ?l" using ex pc by (simp add: PGOMemoryBytes_def Let_def)
  moreover have "in_i64 (PGOGatewayBaseMemory + exact_memory ?l)"
    using sz by (simp add: in_i64_def MaxInt64_def PGOGatewayBaseMemory_def)
  ultimately show ?thesis using sz assms(2) by (simp add: GatewayMemoryBytes_def)
qed

lemma memory_figure_exact_witness:
  "GatewayMemoryBytes (shippedConfig\<lparr>cfg_Enabled := True\<rparr>) = PGOGatewayBaseMemory + exact_memory shippedLimits"
  using memory_figure_exact [of "shippedConfig\<lparr>cfg_Enabled := True\<rparr>" False 60]
  by (simp add: shipped_defs limits_tags_def validatePGO_def validatePGODefaults_def validatePGOSizing_def
      replicasAll_def pgo_constants duration_units in_i64_def MaxInt64_def tdiv_def)

end
