(* ===== verification/Policy.thy ===== *)
theory Policy
  imports Limits
begin

text \<open>
  The PGO policy of one Service (\<open>internal/pgo/policy.go\<close>): the value types
  \<open>Duration\<close> and \<open>Replicas\<close>, the effective \<open>Policy\<close>, the stored
  \<open>PolicyOverride\<close> with its one level of optional blocks, \<open>DefaultPolicy\<close>,
  \<open>Effective\<close>, which layers an override over a policy, and \<open>Validate\<close>, which measures a
  policy against the ceilings.
\<close>

section \<open>Data\<close>

text \<open>The struct \<open>Replicas\<close> has two fields; its zero value is neither "all" nor a positive count.\<close>

record Replicas =
  repl_all :: bool
  repl_count :: int

definition AllReplicas :: Replicas where "AllReplicas = \<lparr>repl_all = True, repl_count = 0\<rparr>"

definition ReplicaCount :: "int \<Rightarrow> Replicas" where
  "ReplicaCount n = \<lparr>repl_all = False, repl_count = n\<rparr>"

definition Count :: "Replicas \<Rightarrow> int" where
  "Count r = (if repl_all r then 0 else repl_count r)"

text \<open>The number of Pods one round samples under a \<open>maxTargetsPerRound\<close> ceiling.\<close>

definition Resolve :: "Replicas \<Rightarrow> int \<Rightarrow> int" where
  "Resolve r maxTargets = (if repl_all r then maxTargets else min (repl_count r) maxTargets)"

record Schedule =
  sch_Every :: duration
  sch_Jitter :: duration

record Sampling =
  smp_Duration :: duration
  smp_Rounds :: int
  smp_RoundInterval :: duration
  smp_Replicas :: Replicas
  smp_MaxParallel :: int

record Policy =
  pol_Enabled :: bool
  pol_Schedule :: Schedule
  pol_Sampling :: Sampling
  pol_Version :: string
  pol_Retention :: duration

record ScheduleOverride =
  so_Every :: "duration option"
  so_Jitter :: "duration option"

record SamplingOverride =
  sa_Duration :: "duration option"
  sa_Rounds :: "int option"
  sa_RoundInterval :: "duration option"
  sa_Replicas :: "Replicas option"
  sa_MaxParallel :: "int option"

text \<open>
  The blocks \<open>target\<close> and \<open>artifact\<close> hold one optional field each, so each is an option
  of an option: the block, then the field.
\<close>

record PolicyOverride =
  po_Enabled :: "bool option"
  po_Schedule :: "ScheduleOverride option"
  po_Sampling :: "SamplingOverride option"
  po_Target :: "string option option"
  po_Artifact :: "duration option option"

section \<open>Layering\<close>

text \<open>\<open>setIf\<close>: a nil source leaves the destination alone.\<close>

definition setIf :: "'a \<Rightarrow> 'a option \<Rightarrow> 'a" where
  "setIf dst src = (case src of None \<Rightarrow> dst | Some v \<Rightarrow> v)"

lemma setIf_simps [simp]: "setIf d None = d" "setIf d (Some v) = v"
  by (simp_all add: setIf_def)

definition Effective :: "Policy \<Rightarrow> PolicyOverride option \<Rightarrow> Policy" where
  "Effective defaults override =
     (case override of
        None \<Rightarrow> defaults
      | Some o' \<Rightarrow>
          defaults\<lparr>
            pol_Enabled := setIf (pol_Enabled defaults) (po_Enabled o'),
            pol_Schedule := (case po_Schedule o' of
                None \<Rightarrow> pol_Schedule defaults
              | Some s \<Rightarrow> (pol_Schedule defaults)\<lparr>
                  sch_Every := setIf (sch_Every (pol_Schedule defaults)) (so_Every s),
                  sch_Jitter := setIf (sch_Jitter (pol_Schedule defaults)) (so_Jitter s)\<rparr>),
            pol_Sampling := (case po_Sampling o' of
                None \<Rightarrow> pol_Sampling defaults
              | Some s \<Rightarrow> (pol_Sampling defaults)\<lparr>
                  smp_Duration := setIf (smp_Duration (pol_Sampling defaults)) (sa_Duration s),
                  smp_Rounds := setIf (smp_Rounds (pol_Sampling defaults)) (sa_Rounds s),
                  smp_RoundInterval := setIf (smp_RoundInterval (pol_Sampling defaults)) (sa_RoundInterval s),
                  smp_Replicas := setIf (smp_Replicas (pol_Sampling defaults)) (sa_Replicas s),
                  smp_MaxParallel := setIf (smp_MaxParallel (pol_Sampling defaults)) (sa_MaxParallel s)\<rparr>),
            pol_Version := (case po_Target o' of
                None \<Rightarrow> pol_Version defaults
              | Some t \<Rightarrow> setIf (pol_Version defaults) t),
            pol_Retention := (case po_Artifact o' of
                None \<Rightarrow> pol_Retention defaults
              | Some a \<Rightarrow> setIf (pol_Retention defaults) a)\<rparr>)"

text \<open>
  \<open>DefaultPolicy\<close>: the operator's defaults as a policy, disabled and with no version pin;
  \<open>None\<close> is the error for an unparsable replicas value.
\<close>

definition DefaultPolicy :: "PGODefaults \<Rightarrow> Policy option" where
  "DefaultPolicy d =
     (case (if def_Replicas d \<noteq> replicasAll
            then map_option ReplicaCount (atoi (def_Replicas d))
            else Some AllReplicas) of
        None \<Rightarrow> None
      | Some replicas \<Rightarrow> Some \<lparr>
          pol_Enabled = False,
          pol_Schedule = \<lparr>sch_Every = def_Every d, sch_Jitter = def_Jitter d\<rparr>,
          pol_Sampling = \<lparr>smp_Duration = def_Duration d, smp_Rounds = def_Rounds d,
             smp_RoundInterval = def_RoundInterval d, smp_Replicas = replicas,
             smp_MaxParallel = def_MaxParallel d\<rparr>,
          pol_Version = [],
          pol_Retention = def_Retention d\<rparr>)"

section \<open>Validation\<close>

definition minSamplingDuration :: duration where "minSamplingDuration = second"
definition minRetention :: duration where "minRetention = minute"

datatype vcode = AboveMaximum | BelowMinimum | OutOfRange | RetentionUnderInterval

text \<open>
  The \<open>Detail\<close> of a violation is a sentence over two measured values; the model keeps the
  values and the shape of the sentence rather than its wording.
\<close>

datatype detail = MoreThan int int | LessThan int int | MoreThanHalf int int | Outside int int

record Violation =
  v_Field :: string
  v_Code :: vcode
  v_Ceiling :: string
  v_Detail :: detail

definition viol :: "string \<Rightarrow> vcode \<Rightarrow> string \<Rightarrow> detail \<Rightarrow> Violation" where
  "viol f c ceil d = \<lparr>v_Field = f, v_Code = c, v_Ceiling = ceil, v_Detail = d\<rparr>"

definition Validate :: "Policy \<Rightarrow> PGOLimits \<Rightarrow> Violation list" where
  "Validate p lim =
     (let every = sch_Every (pol_Schedule p); jitter = sch_Jitter (pol_Schedule p);
          d = smp_Duration (pol_Sampling p); rounds = smp_Rounds (pol_Sampling p);
          ri = smp_RoundInterval (pol_Sampling p); rep = smp_Replicas (pol_Sampling p);
          mp = smp_MaxParallel (pol_Sampling p); r = pol_Retention p
      in
      (if every > lim_MaxEvery lim
         then [viol ''schedule.every'' AboveMaximum ''pgo.limits.maxEvery'' (MoreThan every (lim_MaxEvery lim))]
       else if every < lim_MinEvery lim
         then [viol ''schedule.every'' BelowMinimum ''pgo.limits.minEvery'' (LessThan every (lim_MinEvery lim))]
       else []) @
      (if jitter < 0 \<or> jitter > tdiv every 2
         then [viol ''schedule.jitter'' OutOfRange ''schedule.every/2'' (MoreThanHalf jitter every)]
       else []) @
      (if d > lim_MaxDuration lim
         then [viol ''sampling.duration'' AboveMaximum ''pgo.limits.maxDuration'' (MoreThan d (lim_MaxDuration lim))]
       else if d < minSamplingDuration
         then [viol ''sampling.duration'' BelowMinimum ''1s'' (LessThan d minSamplingDuration)]
       else []) @
      (if rounds > lim_MaxRounds lim
         then [viol ''sampling.rounds'' AboveMaximum ''pgo.limits.maxRounds'' (MoreThan rounds (lim_MaxRounds lim))]
       else if rounds < 1
         then [viol ''sampling.rounds'' BelowMinimum ''1'' (LessThan rounds 1)]
       else []) @
      (if ri < 0 \<or> ri > PGOMaxRoundInterval
         then [viol ''sampling.roundInterval'' OutOfRange ''10m'' (Outside ri PGOMaxRoundInterval)]
       else []) @
      (if \<not> repl_all rep then
         (if Count rep > lim_MaxTargetsPerRound lim
            then [viol ''sampling.replicas'' AboveMaximum ''pgo.limits.maxTargetsPerRound'' (MoreThan (Count rep) (lim_MaxTargetsPerRound lim))]
          else if Count rep < 1
            then [viol ''sampling.replicas'' BelowMinimum ''1'' (LessThan (Count rep) 1)]
          else [])
       else []) @
      (if mp > lim_MaxParallel lim
         then [viol ''sampling.maxParallel'' AboveMaximum ''pgo.limits.maxParallel'' (MoreThan mp (lim_MaxParallel lim))]
       else if mp < 1
         then [viol ''sampling.maxParallel'' BelowMinimum ''1'' (LessThan mp 1)]
       else []) @
      (if r > lim_MaxRetention lim
         then [viol ''artifact.retention'' AboveMaximum ''pgo.limits.maxRetention'' (MoreThan r (lim_MaxRetention lim))]
       else if r < minRetention
         then [viol ''artifact.retention'' BelowMinimum ''1m'' (LessThan r minRetention)]
       else if r < every
         then [viol ''artifact.retention'' RetentionUnderInterval ''schedule.every'' (LessThan r every)]
       else []))"

section \<open>Lemmas\<close>

text \<open>A policy with no violation lies inside every bound: the specification \<open>Validate\<close> decides.\<close>

definition within_limits :: "Policy \<Rightarrow> PGOLimits \<Rightarrow> bool" where
  "within_limits p lim \<longleftrightarrow>
     lim_MinEvery lim \<le> sch_Every (pol_Schedule p) \<and> sch_Every (pol_Schedule p) \<le> lim_MaxEvery lim \<and>
     0 \<le> sch_Jitter (pol_Schedule p) \<and> sch_Jitter (pol_Schedule p) \<le> tdiv (sch_Every (pol_Schedule p)) 2 \<and>
     second \<le> smp_Duration (pol_Sampling p) \<and> smp_Duration (pol_Sampling p) \<le> lim_MaxDuration lim \<and>
     1 \<le> smp_Rounds (pol_Sampling p) \<and> smp_Rounds (pol_Sampling p) \<le> lim_MaxRounds lim \<and>
     0 \<le> smp_RoundInterval (pol_Sampling p) \<and> smp_RoundInterval (pol_Sampling p) \<le> 10 * minute \<and>
     (\<not> repl_all (smp_Replicas (pol_Sampling p)) \<longrightarrow>
        1 \<le> repl_count (smp_Replicas (pol_Sampling p)) \<and>
        repl_count (smp_Replicas (pol_Sampling p)) \<le> lim_MaxTargetsPerRound lim) \<and>
     1 \<le> smp_MaxParallel (pol_Sampling p) \<and> smp_MaxParallel (pol_Sampling p) \<le> lim_MaxParallel lim \<and>
     minute \<le> pol_Retention p \<and> sch_Every (pol_Schedule p) \<le> pol_Retention p \<and>
     pol_Retention p \<le> lim_MaxRetention lim"

lemma Validate_Nil_iff: "Validate p lim = [] \<longleftrightarrow> within_limits p lim"
  unfolding Validate_def within_limits_def Let_def minSamplingDuration_def minRetention_def
    PGOMaxRoundInterval_def Count_def
  by (auto simp: not_less)

lemma Resolve_bounds:
  assumes "1 \<le> maxT" and "\<not> repl_all r \<longrightarrow> 1 \<le> repl_count r"
  shows "1 \<le> Resolve r maxT \<and> Resolve r maxT \<le> maxT"
  using assms by (auto simp: Resolve_def)

lemma Effective_None [simp]: "Effective p None = p"
  by (simp add: Effective_def)

text \<open>Overrides compose: layering \<open>a\<close> and then \<open>b\<close> is layering their merge.\<close>

definition or_else :: "'a option \<Rightarrow> 'a option \<Rightarrow> 'a option" where
  "or_else b a = (case b of None \<Rightarrow> a | Some _ \<Rightarrow> b)"

definition merge_block :: "('a \<Rightarrow> 'a \<Rightarrow> 'a) \<Rightarrow> 'a option \<Rightarrow> 'a option \<Rightarrow> 'a option" where
  "merge_block f b a = (case (b, a) of (None, a) \<Rightarrow> a | (b, None) \<Rightarrow> b | (Some y, Some x) \<Rightarrow> Some (f y x))"

definition merge_schedule :: "ScheduleOverride \<Rightarrow> ScheduleOverride \<Rightarrow> ScheduleOverride" where
  "merge_schedule y x = \<lparr>so_Every = or_else (so_Every y) (so_Every x), so_Jitter = or_else (so_Jitter y) (so_Jitter x)\<rparr>"

definition merge_sampling :: "SamplingOverride \<Rightarrow> SamplingOverride \<Rightarrow> SamplingOverride" where
  "merge_sampling y x = \<lparr>
     sa_Duration = or_else (sa_Duration y) (sa_Duration x),
     sa_Rounds = or_else (sa_Rounds y) (sa_Rounds x),
     sa_RoundInterval = or_else (sa_RoundInterval y) (sa_RoundInterval x),
     sa_Replicas = or_else (sa_Replicas y) (sa_Replicas x),
     sa_MaxParallel = or_else (sa_MaxParallel y) (sa_MaxParallel x)\<rparr>"

definition merge_override :: "PolicyOverride \<Rightarrow> PolicyOverride \<Rightarrow> PolicyOverride" where
  "merge_override y x = \<lparr>
     po_Enabled = or_else (po_Enabled y) (po_Enabled x),
     po_Schedule = merge_block merge_schedule (po_Schedule y) (po_Schedule x),
     po_Sampling = merge_block merge_sampling (po_Sampling y) (po_Sampling x),
     po_Target = merge_block or_else (po_Target y) (po_Target x),
     po_Artifact = merge_block or_else (po_Artifact y) (po_Artifact x)\<rparr>"

lemma setIf_setIf [simp]: "setIf (setIf d a) b = setIf d (or_else b a)"
  by (cases b) (simp_all add: or_else_def)

lemma Effective_merge:
  "Effective (Effective p (Some a)) (Some b) = Effective p (Some (merge_override b a))"
  by (auto simp: Effective_def merge_override_def merge_block_def merge_schedule_def
      merge_sampling_def split: option.split intro!: Policy.equality)

text \<open>An override that sets nothing changes nothing.\<close>

definition empty_override :: PolicyOverride where
  "empty_override = \<lparr>po_Enabled = None, po_Schedule = None, po_Sampling = None,
     po_Target = None, po_Artifact = None\<rparr>"

lemma Effective_empty [simp]: "Effective p (Some empty_override) = p"
  by (simp add: Effective_def empty_override_def)

text \<open>The configured defaults are a valid policy once the jitter is not negative.\<close>

lemma defaults_valid_aux:
  assumes "limits_tags lim" and "defaults_tags d" and "validatePGODefaults d lim = None"
    and "0 \<le> def_Jitter d"
  shows "\<exists>p. DefaultPolicy d = Some p \<and> within_limits p lim"
  using assms
  by (auto simp: DefaultPolicy_def validatePGODefaults_def within_limits_def limits_tags_def
      defaults_tags_def AllReplicas_def ReplicaCount_def split: if_splits option.splits)

section \<open>Properties\<close>

definition policyFields :: "string list" where
  "policyFields = [''schedule.every''] @ [''schedule.jitter''] @ [''sampling.duration''] @ [''sampling.rounds''] @
     [''sampling.roundInterval''] @ [''sampling.replicas''] @ [''sampling.maxParallel''] @ [''artifact.retention'']"

lemma Validate_fields: "subseq (map v_Field (Validate p lim)) policyFields"
  unfolding Validate_def policyFields_def Let_def map_append
  by (intro list_emb_append_mono) (simp_all add: viol_def)

text \<open>
  \<open>Validate\<close> finds nothing to report exactly on the policies that lie inside every bound, and
  it reports at most one violation per field.
\<close>

theorem Validate_decides:
  "(Validate p lim = [] \<longleftrightarrow> within_limits p lim) \<and> distinct (map v_Field (Validate p lim))"
  using Validate_Nil_iff [of p lim] distinct_subseq [OF Validate_fields [of p lim]] by (simp add: policyFields_def)

text \<open>
  Overrides layer field by field: applying one override and then another is applying the one
  override that takes each field from the second where it sets it and from the first otherwise.
\<close>

theorem Effective_layers:
  "Effective (Effective p (Some a)) (Some b) = Effective p (Some (merge_override b a))"
  by (rule Effective_merge)

text \<open>
  The default policy of a configuration that loads is a policy the API would accept, provided
  its jitter is not negative.
\<close>

theorem default_policy_valid:
  assumes "limits_tags (cfg_Limits cfg)" and "defaults_tags (cfg_Defaults cfg)"
    and "validatePGO natsErr cpuSeconds cfg = None" and "0 \<le> def_Jitter (cfg_Defaults cfg)"
  shows "\<exists>p. DefaultPolicy (cfg_Defaults cfg) = Some p \<and> Validate p (cfg_Limits cfg) = []"
  using defaults_valid_aux [OF assms(1,2) validatePGO_None(1) [OF assms(3)] assms(4)] Validate_Nil_iff by blast

lemma default_policy_valid_witness: "\<exists>p. DefaultPolicy shippedDefaults = Some p \<and> Validate p shippedLimits = []"
  using default_policy_valid [of shippedConfig False 60]
  by (simp add: shipped_defs limits_tags_def defaults_tags_def validatePGO_def validatePGODefaults_def
      replicasAll_def pgo_constants duration_units in_i64_def tdiv_def)

lemma Validate_negative_jitter:
  assumes "within_limits p lim" and "x < 0"
  shows "map v_Field (Validate (p\<lparr>pol_Schedule := (pol_Schedule p)\<lparr>sch_Jitter := x\<rparr>\<rparr>) lim) = [''schedule.jitter'']"
  using assms unfolding Validate_def within_limits_def Let_def minSamplingDuration_def minRetention_def PGOMaxRoundInterval_def Count_def viol_def
  by (simp add: not_less)

lemma DefaultPolicy_jitter:
  "DefaultPolicy (d\<lparr>def_Jitter := x\<rparr>) = map_option (\<lambda>p. p\<lparr>pol_Schedule := (pol_Schedule p)\<lparr>sch_Jitter := x\<rparr>\<rparr>) (DefaultPolicy d)"
  by (simp add: DefaultPolicy_def split: option.split)

text \<open>
  C40: The configuration loader does not judge a default jitter as the API does: take any
  configuration that loads and set its default jitter to any negative duration; it still loads, and
  the policy it gives is one the API refuses, with that one violation.
\<close>

theorem negative_default_jitter_loads:
  assumes "limits_tags (cfg_Limits cfg)" and "defaults_tags (cfg_Defaults cfg)" and "validatePGO natsErr cpuSeconds cfg = None" and "jitter < 0"
    and d: "d = (cfg_Defaults cfg)\<lparr>def_Jitter := jitter\<rparr>"
  shows "defaults_tags d \<and> validatePGO natsErr cpuSeconds (cfg\<lparr>cfg_Defaults := d\<rparr>) = None \<and>
    (\<exists>p. DefaultPolicy d = Some p \<and> map v_Field (Validate p (cfg_Limits cfg)) = [''schedule.jitter''])"
proof (intro conjI)
  let ?lim = "cfg_Limits cfg" and ?z = "(cfg_Defaults cfg)\<lparr>def_Jitter := 0\<rparr>"
  have loaded: "validatePGODefaults (cfg_Defaults cfg) ?lim = None" using validatePGO_None(1) [OF assms(3)] .
  have every: "0 < def_Every (cfg_Defaults cfg)"
    using loaded assms(1) by (auto simp: validatePGODefaults_def limits_tags_def duration_units split: if_splits)
  then have half: "0 \<le> tdiv (def_Every (cfg_Defaults cfg)) 2" by simp
  have same: "validatePGODefaults ((cfg_Defaults cfg)\<lparr>def_Jitter := x\<rparr>) ?lim = None" if "x \<le> 0" for x
    using loaded half that by (auto simp: validatePGODefaults_def split: if_splits)
  show "defaults_tags d" using assms(2) by (simp add: d defaults_tags_def)
  show "validatePGO natsErr cpuSeconds (cfg\<lparr>cfg_Defaults := d\<rparr>) = None"
    using assms(3,4) same [of jitter] by (auto simp: validatePGO_def d Let_def split: if_splits option.splits)
  have "\<exists>p. DefaultPolicy ?z = Some p \<and> within_limits p ?lim"
    by (rule defaults_valid_aux) (use assms(1,2) same [of 0] in \<open>simp_all add: defaults_tags_def\<close>)
  then obtain p where p: "DefaultPolicy ?z = Some p" "within_limits p ?lim" by blast
  have "?z\<lparr>def_Jitter := jitter\<rparr> = d" by (simp add: d)
  then have "DefaultPolicy d = Some (p\<lparr>pol_Schedule := (pol_Schedule p)\<lparr>sch_Jitter := jitter\<rparr>\<rparr>)"
    using DefaultPolicy_jitter [of jitter ?z] p(1) by (simp only: option.map)
  then show "\<exists>p. DefaultPolicy d = Some p \<and> map v_Field (Validate p ?lim) = [''schedule.jitter'']"
    using Validate_negative_jitter [OF p(2) assms(4)] by (intro exI conjI)
qed

lemma negative_default_jitter_loads_witness:
  "let d = shippedDefaults\<lparr>def_Jitter := - second\<rparr>
   in validatePGO False 60 (shippedConfig\<lparr>cfg_Enabled := True, cfg_Defaults := d\<rparr>) = None \<and>
      (\<exists>p. DefaultPolicy d = Some p \<and> map v_Field (Validate p shippedLimits) = [''schedule.jitter''])"
proof -
  let ?cfg = "shippedConfig\<lparr>cfg_Enabled := True\<rparr>"
  have "validatePGO False 60 ?cfg = None" "limits_tags (cfg_Limits ?cfg)" "defaults_tags (cfg_Defaults ?cfg)"
    by (simp_all add: Let_def shipped_defs limits_tags_def defaults_tags_def validatePGO_def validatePGODefaults_def validatePGOSizing_def
        replicasAll_def pgo_constants duration_units in_i64_def MaxInt64_def tdiv_def)
  then show ?thesis using negative_default_jitter_loads [of ?cfg False 60 "- second"]
    by (simp add: Let_def shippedConfig_def duration_units)
qed

end
