(* ===== verification/Collection_Record.thy ===== *)
theory Collection_Record
  imports Policy
begin

unbundle bit_operations_syntax

text \<open>
  The durable record of one Collection (\<open>internal/pgo/record.go\<close>) and its identifier
  (\<open>internal/pgo/id.go\<close>): the states and reasons, the record with its owner, lease,
  deadline, manifest and artifact, the terminal form of a record that grew too large, the
  deadline formula with its 64-bit arithmetic, and the identifier grammar.

  The encoding of a value as JSON is not modelled byte for byte: a stored value is kept
  decoded, and the length of its encoding is the parameter \<open>jsize\<close> of the definitions that
  compare it with \<open>maxRecordBytes\<close>.  The SHA-256 of a policy's encoding is the parameter
  \<open>snapHash\<close>.  The slot of a scheduled Collection is kept as the instant its RFC 3339 text
  shows.
\<close>

section \<open>States, origins and reasons\<close>

text \<open>\<open>State\<close> is a string type; a value a newer gateway writes is \<open>StateUnknown\<close>.\<close>

datatype State =
    StateInitializing | StatePending | StateRunning
  | StateCompleted | StateFailed | StateCancelled | StateExpired
  | StateUnknown string

datatype Origin = OriginSchedule | OriginAPI | OriginUnknown string

text \<open>\<open>terminal\<close>: the states a Collection never leaves, an unknown one counting as live.\<close>

fun terminal :: "State \<Rightarrow> bool" where
  "terminal StateCompleted = True"
| "terminal StateFailed = True"
| "terminal StateCancelled = True"
| "terminal StateExpired = True"
| "terminal _ = False"

definition ReasonVersionMissing :: string where "ReasonVersionMissing = ''version_missing''"
definition ReasonVersionConflict :: string where "ReasonVersionConflict = ''version_conflict''"
definition ReasonNoTargets :: string where "ReasonNoTargets = ''no_targets''"
definition ReasonNoSamples :: string where "ReasonNoSamples = ''no_samples''"
definition ReasonDeadlineExceeded :: string where "ReasonDeadlineExceeded = ''deadline_exceeded''"
definition ReasonAttemptsExhausted :: string where "ReasonAttemptsExhausted = ''attempts_exhausted''"
definition ReasonArtifactStoreFailed :: string where "ReasonArtifactStoreFailed = ''artifact_store_failed''"
definition ReasonMergedTooLarge :: string where "ReasonMergedTooLarge = ''merged_too_large''"
definition ReasonSerializeFailed :: string where "ReasonSerializeFailed = ''serialize_failed''"
definition ReasonRecordTooLarge :: string where "ReasonRecordTooLarge = ''record_too_large''"
definition ReasonNotClaimed :: string where "ReasonNotClaimed = ''not_claimed''"
definition ReasonNotPublished :: string where "ReasonNotPublished = ''not_published''"
definition ReasonLimitExceeded :: string where "ReasonLimitExceeded = ''limit_exceeded''"
definition ReasonCancelledByAPI :: string where "ReasonCancelledByAPI = ''cancelled_by_api''"

lemmas reason_defs = ReasonVersionMissing_def ReasonVersionConflict_def ReasonNoTargets_def
  ReasonNoSamples_def ReasonDeadlineExceeded_def ReasonAttemptsExhausted_def
  ReasonArtifactStoreFailed_def ReasonMergedTooLarge_def ReasonSerializeFailed_def
  ReasonRecordTooLarge_def ReasonNotClaimed_def ReasonNotPublished_def ReasonLimitExceeded_def
  ReasonCancelledByAPI_def

definition sampleResultOK :: string where "sampleResultOK = ''ok''"

section \<open>The record\<close>

record Owner =
  own_Instance :: string
  own_Pod :: string

record Progress =
  prg_Round :: int
  prg_Rounds :: int
  prg_SamplesOK :: int
  prg_SamplesFailed :: int

record ArtifactRef =
  art_Object :: string
  art_Bytes :: int

record Sample =
  sm_Round :: int
  sm_Pod :: string
  sm_PodUID :: string
  sm_Node :: string
  sm_StartedAt :: time
  sm_Result :: string
  sm_Bytes :: int

record Manifest =
  man_Collection :: string
  man_Namespace :: string
  man_Service :: string
  man_Profile :: string
  man_ConfigRevision :: nat
  man_ResolvedVersion :: string
  man_VersionLabel :: string
  man_Sampling :: Sampling
  man_Attempt :: int
  man_Truncated :: bool
  man_Gateway :: string
  man_Samples :: "Sample list"

record Record =
  rc_ID :: string
  rc_Namespace :: string
  rc_Service :: string
  rc_Origin :: Origin
  rc_Slot :: string
  rc_ConfigRevision :: nat
  rc_Policy :: Policy
  rc_State :: State
  rc_Attempt :: int
  rc_Owner :: "Owner option"
  rc_ClaimBy :: time
  rc_LeaseUntil :: "time option"
  rc_Deadline :: "time option"
  rc_Reason :: string
  rc_ResolvedVersion :: string
  rc_Progress :: Progress
  rc_Manifest :: "Manifest option"
  rc_Artifact :: "ArtifactRef option"
  rc_IdempotencyKey :: string
  rc_SnapshotHash :: string
  rc_CreatedBy :: string
  rc_CreatedAt :: time
  rc_StartedAt :: "time option"
  rc_FinishedAt :: "time option"
  rc_ExpiresAt :: "time option"

record Receipt =
  rcp_ID :: string
  rcp_SnapshotHash :: string
  rcp_CreatedAt :: time

definition zeroProgress :: Progress where
  "zeroProgress = \<lparr>prg_Round = 0, prg_Rounds = 0, prg_SamplesOK = 0, prg_SamplesFailed = 0\<rparr>"

section \<open>Serialization bound\<close>

definition maxRecordBytes :: nat where "maxRecordBytes = 524288"

datatype marshal_error = ErrRecordTooLarge

definition MarshalBounded :: "('v \<Rightarrow> nat) \<Rightarrow> 'v \<Rightarrow> marshal_error + 'v" where
  "MarshalBounded jsize v = (if jsize v > maxRecordBytes then Inl ErrRecordTooLarge else Inr v)"

lemma MarshalBounded_Inr [simp]:
  "MarshalBounded jsize v = Inr u \<longleftrightarrow> u = v \<and> jsize v \<le> maxRecordBytes"
  by (auto simp: MarshalBounded_def)

text \<open>\<open>terminalTooLarge\<close>: the samples are replaced by their counts and no artifact is named.\<close>

definition terminalTooLarge :: "Record \<Rightarrow> time \<Rightarrow> Record" where
  "terminalTooLarge r finishedAt =
     (let out = r\<lparr>rc_State := StateFailed, rc_Reason := ReasonRecordTooLarge,
                  rc_FinishedAt := Some finishedAt, rc_ExpiresAt := None, rc_Artifact := None\<rparr>
      in case rc_Manifest r of
           None \<Rightarrow> out
         | Some m \<Rightarrow>
             out\<lparr>rc_Progress := (rc_Progress out)\<lparr>
                   prg_SamplesOK := int (length (filter (\<lambda>s. sm_Result s = sampleResultOK) (man_Samples m))),
                   prg_SamplesFailed := int (length (filter (\<lambda>s. sm_Result s \<noteq> sampleResultOK) (man_Samples m)))\<rparr>,
                 rc_Manifest := Some (m\<lparr>man_Samples := []\<rparr>)\<rparr>)"

section \<open>The deadline\<close>

text \<open>
  \<open>Deadline\<close>, with every \<open>time.Duration\<close> operation in 64 bits.  A zero \<open>maxParallel\<close>
  divides by zero, which panics: the result is \<open>None\<close>.
\<close>

definition Deadline :: "time \<Rightarrow> Policy \<Rightarrow> PGOLimits \<Rightarrow> time option" where
  "Deadline startedAt p lim =
     (let s = pol_Sampling p;
          rounds = smp_Rounds s;
          targets = Resolve (smp_Replicas s) (lim_MaxTargetsPerRound lim)
      in if smp_MaxParallel s = 0 then None
         else
           let batches = tdiv (i64 (i64 (targets + smp_MaxParallel s) - 1)) (smp_MaxParallel s);
               dur = smp_Duration s;
               ri = smp_RoundInterval s;
               admissionWait = i64 (dur + ri);
               perBatch = i64 (i64 (dur + PGOSampleOverhead) + admissionWait);
               total = i64 (i64 (i64 (i64 (rounds * batches) * perBatch) + i64 (i64 (rounds - 1) * ri)) + PGODeadlineSlack)
           in Some (startedAt + total))"

text \<open>The formula over unbounded integers, with the batches rounded up.\<close>

definition deadline_span :: "Policy \<Rightarrow> PGOLimits \<Rightarrow> int" where
  "deadline_span p lim =
     (let s = pol_Sampling p;
          targets = Resolve (smp_Replicas s) (lim_MaxTargetsPerRound lim);
          batches = (targets + smp_MaxParallel s - 1) div smp_MaxParallel s
      in smp_Rounds s * batches * (2 * smp_Duration s + smp_RoundInterval s + PGOSampleOverhead)
         + (smp_Rounds s - 1) * smp_RoundInterval s + PGODeadlineSlack)"

text \<open>The largest CPU profile the configuration admits, \<open>limits.cpuSeconds\<close> at its tag's ceiling.\<close>

definition maxCPU :: duration where "maxCPU = 86400 * second"

lemma batches_bounds:
  fixes t m :: int
  assumes "1 \<le> t" and "t \<le> 256" and "1 \<le> m" and "m \<le> 64"
  shows "1 \<le> (t + m - 1) div m \<and> (t + m - 1) div m \<le> 256"
proof -
  have "m \<le> t + m - 1" using assms by simp
  then have lo: "1 \<le> (t + m - 1) div m"
    using assms zdiv_mono1 [of m "t + m - 1" m] by simp
  have "t + m - 1 \<le> t * m"
    using assms mult_nonneg_nonneg [of "t - 1" "m - 1"] by (simp add: algebra_simps)
  then have "(t + m - 1) div m \<le> t"
    using assms zdiv_mono1 [of "t + m - 1" "t * m" m] by simp
  then show ?thesis using lo assms by simp
qed

lemma Deadline_exact:
  assumes lim: "limits_tags lim" and within: "within_limits p lim"
    and cpu: "lim_MaxDuration lim \<le> maxCPU"
  shows "Deadline startedAt p lim = Some (startedAt + deadline_span p lim)
    \<and> PGODeadlineSlack < deadline_span p lim \<and> deadline_span p lim < 2 ^ 60"
proof -
  let ?s = "pol_Sampling p"
  let ?r = "smp_Rounds ?s" and ?m = "smp_MaxParallel ?s" and ?d = "smp_Duration ?s" and ?i = "smp_RoundInterval ?s"
  define t where "t = Resolve (smp_Replicas ?s) (lim_MaxTargetsPerRound lim)"
  define b where "b = (t + ?m - 1) div ?m"
  have r: "1 \<le> ?r" "?r \<le> 20" and m: "1 \<le> ?m" "?m \<le> 64"
    and d: "second \<le> ?d" "?d \<le> maxCPU" and i: "0 \<le> ?i" "?i \<le> 10 * minute"
    using lim within cpu by (auto simp: limits_tags_def within_limits_def)
  have t: "1 \<le> t" "t \<le> 256"
    using lim within Resolve_bounds [of "lim_MaxTargetsPerRound lim" "smp_Replicas ?s"]
    by (auto simp: t_def limits_tags_def within_limits_def)
  have b: "1 \<le> b" "b \<le> 256" using batches_bounds [OF t m] by (simp_all add: b_def)
  define q where "q = ?r * b"
  have q: "1 \<le> q" "q \<le> 20 * 256"
    unfolding q_def using r b mult_mono [of ?r 20 b 256] mult_mono [of 1 ?r 1 b] by auto
  define e where "e = 2 * ?d + ?i + PGOSampleOverhead"
  have e: "1 \<le> e" "e \<le> 173430 * second"
    using d i by (auto simp: e_def pgo_constants duration_units maxCPU_def)
  define x where "x = q * e"
  have x: "1 \<le> x" "x \<le> 20 * 256 * (173430 * second)"
    unfolding x_def using q e mult_mono [of 1 q 1 e] mult_mono [of q "20 * 256" e "173430 * second"] by auto
  define y where "y = (?r - 1) * ?i"
  have y: "0 \<le> y" "y \<le> 19 * (10 * minute)"
    unfolding y_def using r i mult_mono [of "?r - 1" 19 ?i "10 * minute"] by auto
  have span: "deadline_span p lim = x + y + PGODeadlineSlack"
    by (simp add: deadline_span_def Let_def x_def q_def e_def y_def b_def t_def)
  have "tdiv (i64 (i64 (t + ?m) - 1)) ?m = b"
    using t m by (simp add: b_def in_i64_def)
  moreover have "i64 (i64 (?d + PGOSampleOverhead) + i64 (?d + ?i)) = e"
    using d i by (simp add: e_def in_i64_def pgo_constants duration_units maxCPU_def)
  moreover have "i64 q = q" "i64 x = x" "i64 (?r - 1) = ?r - 1" "i64 y = y"
    "i64 (x + y) = x + y" "i64 (x + y + PGODeadlineSlack) = x + y + PGODeadlineSlack"
    using q x y r by (simp_all add: in_i64_def pgo_constants duration_units)
  ultimately have "Deadline startedAt p lim = Some (startedAt + (x + y + PGODeadlineSlack))"
    using m by (simp add: Deadline_def Let_def t_def [symmetric] q_def [symmetric] x_def [symmetric] y_def [symmetric])
  then show ?thesis using span x y by (simp add: pgo_constants duration_units)
qed

section \<open>Identifiers\<close>

definition idAlphabet :: string where
  "idAlphabet = ''0123456789abcdefghjkmnpqrstvwxyz''"

definition idLength :: nat where "idLength = 20"

text \<open>\<open>newID\<close> over the \<open>idLength\<close> bytes \<open>crypto/rand\<close> filled the buffer with.\<close>

definition newID :: "8 word list \<Rightarrow> string" where
  "newID buf = map (\<lambda>b. idAlphabet ! unat (b AND 0x1f)) buf"

definition isIDChar :: "char \<Rightarrow> bool" where
  "isIDChar c \<longleftrightarrow> list_ex (\<lambda>a. a = c) idAlphabet"

definition ValidID :: "string \<Rightarrow> bool" where
  "ValidID s \<longleftrightarrow> length s = idLength \<and> list_all isIDChar s"

lemma isIDChar_iff: "isIDChar c \<longleftrightarrow> c \<in> set idAlphabet"
  by (auto simp: isIDChar_def list_ex_iff)

lemma low5_less: "unat (b AND 0x1f :: 8 word) < 32"
proof -
  have "unat (b AND 0x1f) \<le> unat (0x1f :: 8 word)"
    by (rule word_and_le1 [THEN word_le_nat_alt [THEN iffD1]])
  then show ?thesis by simp
qed

lemma idAlphabet_length [simp]: "length idAlphabet = 32"
  by (simp add: idAlphabet_def)

lemma newID_valid_aux: "length buf = idLength \<Longrightarrow> ValidID (newID buf)"
  using low5_less by (auto simp: ValidID_def newID_def list_all_iff isIDChar_iff intro!: nth_mem)

lemma idAlphabet_separators:
  "CHR ''.'' \<notin> set idAlphabet" "CHR ''-'' \<notin> set idAlphabet" "CHR ''/'' \<notin> set idAlphabet"
  by (simp_all add: idAlphabet_def)

lemma ValidID_separators:
  "ValidID s \<Longrightarrow> CHR ''.'' \<notin> set s \<and> CHR ''-'' \<notin> set s \<and> CHR ''/'' \<notin> set s"
  using idAlphabet_separators by (auto simp: ValidID_def list_all_iff isIDChar_iff)

section \<open>Properties\<close>

text \<open>
  For every configuration that loads with the feature enabled and every policy inside its
  ceilings, the deadline is the formula over unbounded integers: no duration wraps, the division
  does not fail, and the span is positive.
\<close>

theorem Deadline_formula:
  assumes "limits_tags (cfg_Limits cfg)" and "cfg_Enabled cfg" and "validatePGO natsErr cpuSeconds cfg = None"
    and "1 \<le> cpuSeconds" and "cpuSeconds \<le> 86400" and "Validate p (cfg_Limits cfg) = []"
  shows "Deadline startedAt p (cfg_Limits cfg) = Some (startedAt + deadline_span p (cfg_Limits cfg)) \<and>
    PGODeadlineSlack < deadline_span p (cfg_Limits cfg)"
proof -
  have "i64 (cpuSeconds * second) = cpuSeconds * second" using assms(4,5) by (simp add: in_i64_def second_def)
  then have "lim_MaxDuration (cfg_Limits cfg) \<le> maxCPU"
    using validatePGO_None(4) [OF assms(3,2)] assms(5) by (simp add: maxCPU_def second_def)
  then show ?thesis using Deadline_exact [OF assms(1)] assms(6) Validate_Nil_iff by blast
qed

definition shippedPolicy :: Policy where
  "shippedPolicy = \<lparr>pol_Enabled = False, pol_Schedule = \<lparr>sch_Every = 6 * hour, sch_Jitter = 10 * minute\<rparr>,
     pol_Sampling = \<lparr>smp_Duration = 30 * second, smp_Rounds = 2, smp_RoundInterval = 30 * second, smp_Replicas = AllReplicas,
       smp_MaxParallel = 4\<rparr>, pol_Version = [], pol_Retention = 24 * hour\<rparr>"

lemma shippedPolicy_ok: "DefaultPolicy shippedDefaults = Some shippedPolicy" "within_limits shippedPolicy shippedLimits"
  by (simp_all add: DefaultPolicy_def shipped_defs shippedPolicy_def replicasAll_def within_limits_def AllReplicas_def
      duration_units tdiv_def)

lemma Deadline_formula_witness: "Deadline 0 shippedPolicy shippedLimits = Some (2 * 8 * 120 * second + 30 * second + 60 * second)"
  using Deadline_formula [of "shippedConfig\<lparr>cfg_Enabled := True\<rparr>" False 60 shippedPolicy 0] shippedPolicy_ok(2)
  by (simp add: Validate_Nil_iff deadline_span_def shippedPolicy_def Resolve_def AllReplicas_def shipped_defs limits_tags_def
      validatePGO_def validatePGODefaults_def validatePGOSizing_def replicasAll_def pgo_constants duration_units in_i64_def
      MaxInt64_def tdiv_def)

lemma idAlphabet_distinct: "distinct idAlphabet"
  by (simp add: idAlphabet_def)

text \<open>
  An identifier drawn from \<open>crypto/rand\<close> is always a valid one, and two draws give one
  identifier only when they agree in the low five bits of all twenty bytes.
\<close>

theorem newID_spec:
  assumes "length a = idLength" and "length b = idLength"
  shows "ValidID (newID a) \<and> (newID a = newID b \<longleftrightarrow> map (\<lambda>x. x AND 0x1f) a = map (\<lambda>x. x AND 0x1f) b)"
proof -
  have "idAlphabet ! unat (x AND 0x1f) = idAlphabet ! unat (y AND 0x1f) \<longleftrightarrow> x AND 0x1f = y AND 0x1f" for x y :: "8 word"
    using nth_eq_iff_index_eq [OF idAlphabet_distinct, of "unat (x AND 0x1f)" "unat (y AND 0x1f)"] low5_less [of x] low5_less [of y]
    by (simp add: word_unat_eq_iff)
  then show ?thesis using newID_valid_aux [OF assms(1)] assms by (auto simp: newID_def list_eq_iff_nth_eq)
qed

lemma newID_spec_witness: "ValidID (newID (replicate 20 33))"
  using newID_spec [of "replicate 20 33" "replicate 20 33"] by (simp add: idLength_def)

text \<open>
  The form a record takes when it has grown too large is terminal, names no artifact, keeps no
  sample, and its progress counts the samples that were dropped.
\<close>

theorem terminalTooLarge_counts:
  assumes "rc_Manifest r = Some m"
  shows "let t = terminalTooLarge r now in
    terminal (rc_State t) \<and> rc_Artifact t = None \<and> map_option man_Samples (rc_Manifest t) = Some [] \<and>
    prg_SamplesOK (rc_Progress t) + prg_SamplesFailed (rc_Progress t) = int (length (man_Samples m)) \<and>
    rc_ID t = rc_ID r \<and> rc_Attempt t = rc_Attempt r \<and> rc_Policy t = rc_Policy r"
  using assms sum_length_filter_compl [of "\<lambda>s. sm_Result s = sampleResultOK" "man_Samples m"]
  by (simp add: terminalTooLarge_def Let_def flip: of_nat_add)


definition demo_record :: Record where
  "demo_record = \<lparr>rc_ID = replicate 20 CHR ''a'', rc_Namespace = ''ns'', rc_Service = ''svc'', rc_Origin = OriginAPI, rc_Slot = [],
     rc_ConfigRevision = 0, rc_Policy = shippedPolicy, rc_State = StateRunning, rc_Attempt = 1, rc_Owner = None, rc_ClaimBy = 0,
     rc_LeaseUntil = Some 0, rc_Deadline = Some 0, rc_Reason = [], rc_ResolvedVersion = [], rc_Progress = zeroProgress,
     rc_Manifest = Some \<lparr>man_Collection = replicate 20 CHR ''a'', man_Namespace = ''ns'', man_Service = ''svc'', man_Profile = ''cpu'',
       man_ConfigRevision = 0, man_ResolvedVersion = ''v1'', man_VersionLabel = ''version'', man_Sampling = pol_Sampling shippedPolicy,
       man_Attempt = 1, man_Truncated = False, man_Gateway = ''g'', man_Samples = []\<rparr>,
     rc_Artifact = None, rc_IdempotencyKey = [], rc_SnapshotHash = [], rc_CreatedBy = ''alice'', rc_CreatedAt = 0,
     rc_StartedAt = Some 0, rc_FinishedAt = None, rc_ExpiresAt = None\<rparr>"

lemma terminalTooLarge_counts_witness: "terminal (rc_State (terminalTooLarge demo_record 5))"
  using terminalTooLarge_counts [of demo_record _ 5] by (simp add: demo_record_def Let_def)

end
