(* ===== verification/Keys.thy ===== *)
theory Keys
  imports Collection_Record
begin

unbundle bit_operations_syntax

text \<open>
  The names the gateway gives to what it stores: the bucket keys of
  \<open>internal/pgo/caches.go\<close>, the artifact name \<open><id>-<attempt>.pprof\<close> that
  \<open>rounds.go\<close> writes and \<open>sweeper.go\<close> reads back, and the slot arithmetic of
  \<open>scheduler.go\<close> with its FNV-1a jitter.  The lemmas show that every name determines what
  it names.
\<close>

section \<open>Services\<close>

datatype serviceRef = ServiceRef (ref_Namespace: string) (ref_Service: string)

text \<open>\<open>sortedRefs\<close> orders Services by namespace, then by name.\<close>

instantiation serviceRef :: linorder
begin

definition less_eq_serviceRef :: "serviceRef \<Rightarrow> serviceRef \<Rightarrow> bool" where
  "less_eq_serviceRef a b \<longleftrightarrow> (ref_Namespace a, ref_Service a) \<le> (ref_Namespace b, ref_Service b)"

definition less_serviceRef :: "serviceRef \<Rightarrow> serviceRef \<Rightarrow> bool" where
  "less_serviceRef a b \<longleftrightarrow> (ref_Namespace a, ref_Service a) < (ref_Namespace b, ref_Service b)"

instance
  by standard (auto simp: less_eq_serviceRef_def less_serviceRef_def intro: serviceRef.expand)

end

section \<open>Bucket keys\<close>

definition overridePrefix :: string where "overridePrefix = ''service.''"
definition jobPrefix :: string where "jobPrefix = ''job.''"
definition activePrefix :: string where "activePrefix = ''active.''"
definition slotPrefix :: string where "slotPrefix = ''schedule.''"
definition receiptPrefix :: string where "receiptPrefix = ''idem.''"
definition probeKeyPrefix :: string where "probeKeyPrefix = ''probe.''"

lemmas prefix_defs = overridePrefix_def jobPrefix_def activePrefix_def slotPrefix_def
  receiptPrefix_def probeKeyPrefix_def

definition overrideKey :: "string \<Rightarrow> string \<Rightarrow> string" where
  "overrideKey ns svc = overridePrefix @ ns @ ''.'' @ svc"

definition jobKey :: "string \<Rightarrow> string" where
  "jobKey id' = jobPrefix @ id'"

definition activeKey :: "string \<Rightarrow> string \<Rightarrow> string" where
  "activeKey ns svc = activePrefix @ ns @ ''.'' @ svc"

text \<open>\<open>Time.Unix\<close>: whole seconds since the epoch, rounded down.\<close>

definition unixSec :: "time \<Rightarrow> int" where "unixSec t = t div second"

definition slotKey :: "string \<Rightarrow> string \<Rightarrow> time \<Rightarrow> string" where
  "slotKey ns svc slot = slotPrefix @ ns @ ''.'' @ svc @ ''.'' @ showInt (unixSec slot)"

text \<open>
  \<open>ReceiptKey\<close>: the scope writes each field as its byte length, a colon and its bytes.
  \<open>sha\<close> is the SHA-256 of a string as lowercase hexadecimal text.
\<close>

definition receiptField :: "string \<Rightarrow> string" where
  "receiptField f = showNat (length f) @ '':'' @ f"

definition receiptScope :: "string \<Rightarrow> string \<Rightarrow> string \<Rightarrow> string \<Rightarrow> string" where
  "receiptScope prin ns svc key = concat (map receiptField [prin, ns, svc, key])"

definition ReceiptKey :: "(string \<Rightarrow> string) \<Rightarrow> string \<Rightarrow> string \<Rightarrow> string \<Rightarrow> string \<Rightarrow> string" where
  "ReceiptKey sha prin ns svc key = receiptPrefix @ take 32 (sha (receiptScope prin ns svc key))"

definition splitServiceKey :: "string \<Rightarrow> string \<Rightarrow> (string \<times> string) option" where
  "splitServiceKey pre key =
     (case cutPrefix pre key of
        None \<Rightarrow> None
      | Some rest \<Rightarrow>
          (case cutChar CHR ''.'' rest of
             None \<Rightarrow> None
           | Some (ns, svc) \<Rightarrow>
               if ns = [] \<or> svc = [] \<or> CHR ''.'' \<in> set svc then None else Some (ns, svc)))"

section \<open>Artifact names\<close>

definition artifactSuffix :: string where "artifactSuffix = ''.pprof''"
definition probeObjectPrefix :: string where "probeObjectPrefix = ''probe-''"

text \<open>\<open>fmt.Sprintf("%s-%d.pprof", id, attempt)\<close> of \<open>Rounds.finish\<close>.\<close>

definition artifactName :: "string \<Rightarrow> int \<Rightarrow> string" where
  "artifactName id' attempt = id' @ ''-'' @ showInt attempt @ artifactSuffix"

definition collectionOf :: "string \<Rightarrow> string option" where
  "collectionOf object =
     (case cutSuffix artifactSuffix object of
        None \<Rightarrow> None
      | Some base \<Rightarrow>
          (case cutChar CHR ''-'' base of
             None \<Rightarrow> None
           | Some (id', attempt) \<Rightarrow>
               if attempt = [] \<or> \<not> ValidID id' then None
               else if list_all isDigit attempt then Some id' else None))"

section \<open>Slots and jitter\<close>

definition slotFor :: "time \<Rightarrow> duration \<Rightarrow> time" where
  "slotFor now every =
     (if every \<le> 0 then now
      else let rem = tmod now every;
               rem' = (if rem < 0 then rem + every else rem)
           in now - rem')"

definition hashInput :: "string \<Rightarrow> string \<Rightarrow> time \<Rightarrow> string" where
  "hashInput ns svc slot = ns @ ''/'' @ svc @ ''/'' @ showInt (unixSec slot)"

text \<open>\<open>hash/fnv\<close>'s 64-bit FNV-1a: xor the byte in, then multiply by the prime.\<close>

definition fnv64a :: "string \<Rightarrow> 64 word" where
  "fnv64a s = foldl (\<lambda>h c. (h XOR of_char c) * 1099511628211) 14695981039346656037 s"

definition offset :: "string \<Rightarrow> string \<Rightarrow> time \<Rightarrow> duration \<Rightarrow> duration" where
  "offset ns svc slot jitter =
     (if jitter \<le> 0 then 0 else uint (fnv64a (hashInput ns svc slot) mod word_of_int jitter))"

section \<open>Lemmas\<close>

subsection \<open>Keys of different kinds never meet\<close>

lemma jobKey_inj [simp]: "jobKey a = jobKey b \<longleftrightarrow> a = b"
  by (simp add: jobKey_def)

lemma jobKey_activeKey [simp]: "jobKey a \<noteq> activeKey ns svc" "activeKey ns svc \<noteq> jobKey a"
  by (simp_all add: jobKey_def activeKey_def prefix_defs)

lemma jobKey_slotKey [simp]: "jobKey a \<noteq> slotKey ns svc t" "slotKey ns svc t \<noteq> jobKey a"
  by (simp_all add: jobKey_def slotKey_def prefix_defs)

lemma activeKey_slotKey [simp]: "activeKey n s \<noteq> slotKey ns svc t" "slotKey ns svc t \<noteq> activeKey n s"
  by (simp_all add: activeKey_def slotKey_def prefix_defs)

lemma ReceiptKey_kinds [simp]:
  "ReceiptKey sha p n s k \<noteq> jobKey a" "jobKey a \<noteq> ReceiptKey sha p n s k"
  "ReceiptKey sha p n s k \<noteq> activeKey ns svc" "activeKey ns svc \<noteq> ReceiptKey sha p n s k"
  "ReceiptKey sha p n s k \<noteq> slotKey ns svc t" "slotKey ns svc t \<noteq> ReceiptKey sha p n s k"
  by (simp_all add: ReceiptKey_def jobKey_def activeKey_def slotKey_def prefix_defs)

text \<open>A name in the DNS-1123 label grammar has no dot and is not empty.\<close>

definition label :: "string \<Rightarrow> bool" where
  "label s \<longleftrightarrow> s \<noteq> [] \<and> CHR ''.'' \<notin> set s"

lemma dot_append_inj:
  "CHR ''.'' \<notin> set a \<Longrightarrow> CHR ''.'' \<notin> set b \<Longrightarrow> a @ CHR ''.'' # x = b @ CHR ''.'' # y \<longleftrightarrow> a = b \<and> x = y"
  by (metis cutChar_append option.inject prod.inject)

lemma activeKey_inj:
  "label ns \<Longrightarrow> label ns' \<Longrightarrow> activeKey ns svc = activeKey ns' svc' \<longleftrightarrow> ns = ns' \<and> svc = svc'"
  by (auto simp: activeKey_def label_def dot_append_inj)

lemma splitServiceKey_join:
  "label ns \<Longrightarrow> label svc \<Longrightarrow> splitServiceKey p (p @ ns @ ''.'' @ svc) = Some (ns, svc)"
  by (simp add: splitServiceKey_def label_def)

lemma splitServiceKey_Some:
  "splitServiceKey p key = Some (ns, svc) \<longleftrightarrow> key = p @ ns @ ''.'' @ svc \<and> label ns \<and> label svc"
  (is "?l \<longleftrightarrow> ?r")
proof
  assume ?l
  then obtain rest where "cutPrefix p key = Some rest" "cutChar CHR ''.'' rest = Some (ns, svc)"
    "ns \<noteq> []" "svc \<noteq> []" "CHR ''.'' \<notin> set svc"
    by (auto simp: splitServiceKey_def split: option.splits prod.splits if_splits)
  then show ?r by (simp add: cutPrefix_Some cutChar_Some label_def)
next
  assume ?r
  then show ?l using splitServiceKey_join by blast
qed

lemma slotKey_inj:
  assumes "label ns" "label ns'" "label svc" "label svc'"
  shows "slotKey ns svc t = slotKey ns' svc' t' \<longleftrightarrow> ns = ns' \<and> svc = svc' \<and> unixSec t = unixSec t'"
  using assms by (auto simp: slotKey_def label_def dot_append_inj)

subsection \<open>The receipt scope\<close>

lemma receiptField_append_inj:
  "receiptField a @ x = receiptField b @ y \<longleftrightarrow> a = b \<and> x = y"
proof
  assume eq: "receiptField a @ x = receiptField b @ y"
  have nc: "CHR '':'' \<notin> set (showNat n)" for n using showNat_digits [of n] isDigit_colon by blast
  from eq have "cutChar CHR '':'' (showNat (length a) @ CHR '':'' # (a @ x))
      = cutChar CHR '':'' (showNat (length b) @ CHR '':'' # (b @ y))"
    by (simp add: receiptField_def)
  then have "showNat (length a) = showNat (length b)" and ab: "a @ x = b @ y"
    by (simp_all add: nc)
  then have "length a = length b" by simp
  with ab show "a = b \<and> x = y" by simp
qed simp

lemma receiptScope_inj_aux:
  "receiptScope p n s k = receiptScope p' n' s' k' \<longleftrightarrow> p = p' \<and> n = n' \<and> s = s' \<and> k = k'"
  using receiptField_append_inj [of k "[]" k' "[]"]
  by (auto simp: receiptScope_def receiptField_append_inj)

subsection \<open>Artifact names\<close>

lemma showInt_digits: "0 \<le> n \<Longrightarrow> list_all isDigit (showInt n)"
  using showNat_digits by (simp add: showInt_def list_all_iff)

lemma collectionOf_artifactName:
  assumes "ValidID id'" and "0 \<le> n"
  shows "collectionOf (artifactName id' n) = Some id'"
proof -
  have "cutSuffix artifactSuffix (artifactName id' n) = Some (id' @ CHR ''-'' # showInt n)"
    by (simp add: artifactName_def cutSuffix_Some)
  moreover have "CHR ''-'' \<notin> set id'" using assms(1) ValidID_separators by blast
  moreover have "showInt n \<noteq> []" by (simp add: showInt_def)
  ultimately show ?thesis using assms showInt_digits by (simp add: collectionOf_def)
qed

lemma artifactName_inj_aux:
  assumes "ValidID a" "ValidID b"
  shows "artifactName a m = artifactName b n \<longleftrightarrow> a = b \<and> m = n"
proof
  assume "artifactName a m = artifactName b n"
  then have "cutChar CHR ''-'' (a @ CHR ''-'' # showInt m) = cutChar CHR ''-'' (b @ CHR ''-'' # showInt n)"
    by (simp add: artifactName_def)
  then show "a = b \<and> m = n"
    using assms ValidID_separators [of a] ValidID_separators [of b] by simp
qed simp

subsection \<open>Slots\<close>

lemma slotFor_floor: "0 < every \<Longrightarrow> slotFor now every = now - now mod every"
  using tmod_floor [of every now] by (simp add: slotFor_def Let_def)

lemma slotFor_bounds:
  assumes "0 < every"
  shows "slotFor now every \<le> now \<and> now < slotFor now every + every \<and> every dvd slotFor now every"
proof -
  have "0 \<le> now mod every" "now mod every < every" using assms by simp_all
  then show ?thesis unfolding slotFor_floor [OF assms]
    using dvd_minus_mod [of every now] by linarith
qed

lemma dvd_close_eq:
  fixes a b e :: int
  assumes "e dvd a" "e dvd b" "a < b + e" "b < a + e" "0 < e"
  shows "a = b"
proof -
  obtain m n where "a = e * m" "b = e * n" using assms(1,2) by (auto elim!: dvdE)
  moreover have "e * m < e * (n + 1)" "e * n < e * (m + 1)"
    using assms(3,4) calculation by (simp_all add: distrib_left)
  ultimately show ?thesis using assms(5) by simp
qed

lemma slot_seconds_inj:
  assumes "second \<le> every" "every dvd a" "every dvd b" "unixSec a = unixSec b"
  shows "a = b"
proof -
  have "a < b + second" "b < a + second"
    using assms(4) by (auto simp: unixSec_def second_def)
  then show ?thesis using assms by (intro dvd_close_eq [of every]) (auto simp: second_def)
qed

lemma uint_mod_less: "0 < j \<Longrightarrow> j < 2 ^ 63 \<Longrightarrow> uint (h mod (word_of_int j :: 64 word)) < j"
  by (simp add: uint_mod uint_word_of_int)

lemma offset_bounds:
  assumes "in_i64 jitter"
  shows "0 \<le> offset ns svc slot jitter \<and> (0 < jitter \<longrightarrow> offset ns svc slot jitter < jitter)"
  using assms uint_mod_less [of jitter] by (auto simp: offset_def in_i64_def)

section \<open>Properties\<close>

text \<open>
  An artifact's name determines the Collection and the attempt it belongs to, and the sweeper
  reads the Collection back from it.
\<close>

theorem artifact_name_roundtrip:
  assumes "ValidID a" and "ValidID b" and "0 \<le> m"
  shows "collectionOf (artifactName a m) = Some a \<and> (artifactName a m = artifactName b n \<longleftrightarrow> a = b \<and> m = n)"
  using collectionOf_artifactName [OF assms(1,3)] artifactName_inj_aux [OF assms(1,2)] by simp

lemma artifact_name_roundtrip_witness: "collectionOf (artifactName (replicate 20 CHR ''a'') 3) = Some (replicate 20 CHR ''a'')"
  using artifact_name_roundtrip [of "replicate 20 CHR ''a''" "replicate 20 CHR ''b''" 3 3]
  by (simp add: ValidID_def idLength_def isIDChar_def idAlphabet_def list_all_iff)

text \<open>
  A key of a Service splits back into exactly the namespace and the name it was built from, and
  a key that splits was built that way.
\<close>

theorem serviceKey_roundtrip:
  "splitServiceKey activePrefix key = Some (ns, svc) \<longleftrightarrow> key = activeKey ns svc \<and> label ns \<and> label svc"
  by (simp add: splitServiceKey_Some activeKey_def)

text \<open>
  The scope a receipt's key hashes is injective: no choice of principal, namespace, Service and
  idempotency key collides with another before the hash.
\<close>

theorem receiptScope_injective:
  "receiptScope p n s k = receiptScope p' n' s' k' \<longleftrightarrow> p = p' \<and> n = n' \<and> s = s' \<and> k = k'"
  by (rule receiptScope_inj_aux)

text \<open>
  The slot of an instant is the last multiple of the interval not after it, the jitter offset
  falls inside the jitter, and two slots of one Service never share a key.
\<close>

theorem slot_spec:
  assumes "second \<le> every" and "0 < jitter" and "in_i64 jitter" and "label ns" and "label svc"
  shows "slotFor now every \<le> now \<and> now < slotFor now every + every \<and> every dvd slotFor now every \<and>
    0 \<le> offset ns svc (slotFor now every) jitter \<and> offset ns svc (slotFor now every) jitter < jitter \<and>
    (slotKey ns svc (slotFor now every) = slotKey ns svc (slotFor now' every) \<longleftrightarrow> slotFor now every = slotFor now' every)"
proof -
  have e: "0 < every" using assms(1) by (simp add: second_def)
  have "slotKey ns svc (slotFor now every) = slotKey ns svc (slotFor now' every) \<longleftrightarrow> slotFor now every = slotFor now' every"
    using slotKey_inj [OF assms(4,4,5,5)] slot_seconds_inj [OF assms(1)] slotFor_bounds [OF e] by metis
  then show ?thesis using slotFor_bounds [OF e, of now] offset_bounds [OF assms(3)] assms(2) by simp
qed

lemma slot_spec_witness: "slotFor 1000000000000 (15 * minute) = 900000000000 \<and>
    offset ''ns'' ''svc'' (slotFor 1000000000000 (15 * minute)) minute < minute"
  using slot_spec [of "15 * minute" minute "''ns''" "''svc''" 1000000000000]
  by (simp add: duration_units in_i64_def label_def slotFor_floor)

end
