(* ===== verification/Store.thy ===== *)
theory Store
  imports Keys
begin

text \<open>
  The NATS seam (\<open>internal/natskv\<close>): two key-value buckets with per-key revisions and one
  object bucket, the calls the gateway makes on them, and programs as trees of such calls.

  A bucket follows the contract of the interface \<open>KV\<close> in \<open>natskv.go\<close>: \<open>Create\<close> stores
  only under an absent key, \<open>Update\<close> and \<open>Delete\<close> only at the key's current revision, and
  every write takes a revision above all earlier ones.  The values of a bucket are kept
  decoded; \<open>VRaw\<close> stands for bytes that do not decode.  \<open>b_seen\<close> remembers the keys a
  bucket ever held: no call reads it, and the theorems are stated with it.

  A call may fail without a definite answer, and the server may or may not have applied it:
  \<open>Unavailable applied\<close> answers \<open>ErrUnavailable\<close>, which is also what a view answers when the
  store generation moved while the call was in flight, and \<open>Failed applied\<close> answers an error
  the seam does not name.  The named errors are definite: they are given only by \<open>perform\<close>.

  A gateway function that talks to the stores is a program: \<open>Call\<close> is one store call or one
  reading of the clock, whose answer decides the rest; \<open>Loc\<close> is one critical section of the
  replica's own memory.  \<open>run\<close> executes a program alone against a list of faults.
\<close>

section \<open>Stored values\<close>

record activeValue =
  av_ID :: string
  av_CreatedAt :: time

record slotValue =
  sv_RetainUntil :: time

record StoredOverride =
  st_Policy :: "PolicyOverride option"
  st_UpdatedBy :: string
  st_UpdatedAt :: time

datatype kvval =
    VJob Record | VActive activeValue | VSlot slotValue | VReceipt Receipt
  | VOverride StoredOverride | VRaw string

text \<open>\<open>json.Unmarshal\<close> into the type a key's kind holds.\<close>

fun asJob :: "kvval \<Rightarrow> Record option" where
  "asJob (VJob r) = Some r" | "asJob _ = None"

fun asActive :: "kvval \<Rightarrow> activeValue option" where
  "asActive (VActive a) = Some a" | "asActive _ = None"

fun asSlot :: "kvval \<Rightarrow> slotValue option" where
  "asSlot (VSlot s) = Some s" | "asSlot _ = None"

fun asReceipt :: "kvval \<Rightarrow> Receipt option" where
  "asReceipt (VReceipt r) = Some r" | "asReceipt _ = None"

fun asOverride :: "kvval \<Rightarrow> StoredOverride option" where
  "asOverride (VOverride s) = Some s" | "asOverride _ = None"

lemma as_Some [simp]:
  "asJob v = Some r \<longleftrightarrow> v = VJob r" "asActive v = Some a \<longleftrightarrow> v = VActive a"
  "asReceipt v = Some x \<longleftrightarrow> v = VReceipt x" "asOverride v = Some s \<longleftrightarrow> v = VOverride s"
  "asSlot v = Some y \<longleftrightarrow> v = VSlot y"
  by (cases v; auto)+

section \<open>Buckets\<close>

datatype kv_err = ErrKeyNotFound | ErrKeyExists | ErrRevisionMismatch | ErrObjectNotFound
  | ErrUnavailable | ErrOther

record stored =
  s_val :: kvval
  s_rev :: nat
  s_created :: time

record bucket =
  b_ents :: "(string \<times> stored) list"
  b_last :: nat
  b_seen :: "string set"

definition lookup :: "bucket \<Rightarrow> string \<Rightarrow> stored option" where
  "lookup b k = map_of (b_ents b) k"

definition put :: "string \<Rightarrow> kvval \<Rightarrow> time \<Rightarrow> bucket \<Rightarrow> bucket" where
  "put k v now b = b\<lparr>
     b_ents := map_put k \<lparr>s_val = v, s_rev = Suc (b_last b), s_created = now\<rparr> (b_ents b),
     b_last := Suc (b_last b),
     b_seen := insert k (b_seen b)\<rparr>"

definition remove :: "string \<Rightarrow> bucket \<Rightarrow> bucket" where
  "remove k b = b\<lparr>b_ents := map_del k (b_ents b), b_last := Suc (b_last b)\<rparr>"

definition kv_get :: "bucket \<Rightarrow> string \<Rightarrow> kv_err + stored" where
  "kv_get b k = (case lookup b k of None \<Rightarrow> Inl ErrKeyNotFound | Some e \<Rightarrow> Inr e)"

definition kv_create :: "time \<Rightarrow> string \<Rightarrow> kvval \<Rightarrow> bucket \<Rightarrow> (kv_err + nat) \<times> bucket" where
  "kv_create now k v b =
     (case lookup b k of
        None \<Rightarrow> (Inr (Suc (b_last b)), put k v now b)
      | Some _ \<Rightarrow> (Inl ErrKeyExists, b))"

definition kv_update :: "time \<Rightarrow> string \<Rightarrow> kvval \<Rightarrow> nat \<Rightarrow> bucket \<Rightarrow> (kv_err + nat) \<times> bucket" where
  "kv_update now k v expected b =
     (case lookup b k of
        Some e \<Rightarrow> if s_rev e = expected then (Inr (Suc (b_last b)), put k v now b)
                  else (Inl ErrRevisionMismatch, b)
      | None \<Rightarrow> (Inl ErrRevisionMismatch, b))"

definition kv_delete :: "string \<Rightarrow> nat \<Rightarrow> bucket \<Rightarrow> kv_err option \<times> bucket" where
  "kv_delete k expected b =
     (case lookup b k of
        Some e \<Rightarrow> if s_rev e = expected then (None, remove k b) else (Some ErrRevisionMismatch, b)
      | None \<Rightarrow> (Some ErrRevisionMismatch, b))"

definition kv_keys :: "bucket \<Rightarrow> string \<Rightarrow> string list" where
  "kv_keys b pre = filter (hasPrefix pre) (map fst (b_ents b))"

section \<open>The world and its calls\<close>

record ObjectInfo =
  oi_Name :: string
  oi_Size :: nat
  oi_ModTime :: time

record world =
  w_config :: bucket
  w_jobs :: bucket
  w_objs :: "(string \<times> ObjectInfo) list"
  w_clock :: time

datatype bname = CONFIG | JOBS

datatype op =
    OGet bname string | OCreate bname string kvval | OUpdate bname string kvval nat
  | ODelete bname string nat | OKeys bname string
  | OPut string nat | OOpen string | ODrop string | OList
  | ONow

datatype resp = RErr kv_err | REntry stored | RRev nat | ROk | RKeys "string list"
  | RObjs "ObjectInfo list" | RTime time

fun bucket_of :: "bname \<Rightarrow> world \<Rightarrow> bucket" where
  "bucket_of CONFIG w = w_config w"
| "bucket_of JOBS w = w_jobs w"

fun set_bucket :: "bname \<Rightarrow> bucket \<Rightarrow> world \<Rightarrow> world" where
  "set_bucket CONFIG b w = w\<lparr>w_config := b\<rparr>"
| "set_bucket JOBS b w = w\<lparr>w_jobs := b\<rparr>"

text \<open>One call the server applies and answers.\<close>

fun perform :: "op \<Rightarrow> world \<Rightarrow> resp \<times> world" where
  "perform (OGet n k) w =
     (case kv_get (bucket_of n w) k of Inl e \<Rightarrow> RErr e | Inr s \<Rightarrow> REntry s, w)"
| "perform (OCreate n k v) w =
     (case kv_create (w_clock w) k v (bucket_of n w) of
        (Inl e, _) \<Rightarrow> (RErr e, w) | (Inr r, b) \<Rightarrow> (RRev r, set_bucket n b w))"
| "perform (OUpdate n k v x) w =
     (case kv_update (w_clock w) k v x (bucket_of n w) of
        (Inl e, _) \<Rightarrow> (RErr e, w) | (Inr r, b) \<Rightarrow> (RRev r, set_bucket n b w))"
| "perform (ODelete n k x) w =
     (case kv_delete k x (bucket_of n w) of
        (Some e, _) \<Rightarrow> (RErr e, w) | (None, b) \<Rightarrow> (ROk, set_bucket n b w))"
| "perform (OKeys n pre) w = (RKeys (kv_keys (bucket_of n w) pre), w)"
| "perform (OPut name sz) w =
     (ROk, w\<lparr>w_objs := map_put name \<lparr>oi_Name = name, oi_Size = sz, oi_ModTime = w_clock w\<rparr> (w_objs w)\<rparr>)"
| "perform (OOpen name) w =
     (if map_of (w_objs w) name = None then RErr ErrObjectNotFound else ROk, w)"
| "perform (ODrop name) w = (ROk, w\<lparr>w_objs := map_del name (w_objs w)\<rparr>)"
| "perform OList w = (RObjs (map snd (w_objs w)), w)"
| "perform ONow w = (RTime (w_clock w), w)"

datatype fault = NoFault | Unavailable bool | Failed bool

text \<open>The clock never fails; any other call may answer an error, applied or not.\<close>

fun exec :: "fault \<Rightarrow> op \<Rightarrow> world \<Rightarrow> resp \<times> world" where
  "exec NoFault op w = perform op w"
| "exec (Unavailable applied) op w =
     (if op = ONow then perform op w
      else (RErr ErrUnavailable, if applied then snd (perform op w) else w))"
| "exec (Failed applied) op w =
     (if op = ONow then perform op w
      else (RErr ErrOther, if applied then snd (perform op w) else w))"

section \<open>Programs\<close>

datatype ('l, 'a) prog =
    Ret 'a
  | Call op "resp \<Rightarrow> ('l, 'a) prog"
  | Loc "'l \<Rightarrow> 'l \<times> ('l, 'a) prog"

primrec bind :: "('l, 'a) prog \<Rightarrow> ('a \<Rightarrow> ('l, 'b) prog) \<Rightarrow> ('l, 'b) prog" where
  "bind (Ret a) f = f a"
| "bind (Call op k) f = Call op (\<lambda>r. bind (k r) f)"
| "bind (Loc g) f = Loc (\<lambda>l. map_prod id (\<lambda>p. bind p f) (g l))"

text \<open>The typed calls: an answer of another shape cannot occur and reads as an error.\<close>

fun as_entry :: "resp \<Rightarrow> kv_err + stored" where
  "as_entry (REntry s) = Inr s" | "as_entry (RErr e) = Inl e" | "as_entry _ = Inl ErrOther"

fun as_rev :: "resp \<Rightarrow> kv_err + nat" where
  "as_rev (RRev n) = Inr n" | "as_rev (RErr e) = Inl e" | "as_rev _ = Inl ErrOther"

fun as_ok :: "resp \<Rightarrow> kv_err option" where
  "as_ok ROk = None" | "as_ok (RErr e) = Some e" | "as_ok _ = Some ErrOther"

fun as_keys :: "resp \<Rightarrow> kv_err + string list" where
  "as_keys (RKeys ks) = Inr ks" | "as_keys (RErr e) = Inl e" | "as_keys _ = Inl ErrOther"

fun as_objs :: "resp \<Rightarrow> kv_err + ObjectInfo list" where
  "as_objs (RObjs os) = Inr os" | "as_objs (RErr e) = Inl e" | "as_objs _ = Inl ErrOther"

fun as_time :: "resp \<Rightarrow> time" where
  "as_time (RTime t) = t" | "as_time _ = 0"

abbreviation Get where "Get n k c \<equiv> Call (OGet n k) (\<lambda>r. c (as_entry r))"
abbreviation Create where "Create n k v c \<equiv> Call (OCreate n k v) (\<lambda>r. c (as_rev r))"
abbreviation Update where "Update n k v x c \<equiv> Call (OUpdate n k v x) (\<lambda>r. c (as_rev r))"
abbreviation Delete where "Delete n k x c \<equiv> Call (ODelete n k x) (\<lambda>r. c (as_ok r))"
abbreviation Keys where "Keys n p c \<equiv> Call (OKeys n p) (\<lambda>r. c (as_keys r))"
abbreviation Put where "Put name sz c \<equiv> Call (OPut name sz) (\<lambda>r. c (as_ok r))"
abbreviation Open where "Open name c \<equiv> Call (OOpen name) (\<lambda>r. c (as_ok r))"
abbreviation Drop where "Drop name c \<equiv> Call (ODrop name) (\<lambda>r. c (as_ok r))"
abbreviation Listing where "Listing c \<equiv> Call OList (\<lambda>r. c (as_objs r))"
abbreviation Now where "Now c \<equiv> Call ONow (\<lambda>r. c (as_time r))"

text \<open>Change the replica's memory and go on.\<close>

definition modify :: "('l \<Rightarrow> 'l) \<Rightarrow> ('l, 'a) prog \<Rightarrow> ('l, 'a) prog" where
  "modify g p = Loc (\<lambda>l. (g l, p))"

definition inspect :: "('l \<Rightarrow> ('l, 'a) prog) \<Rightarrow> ('l, 'a) prog" where
  "inspect c = Loc (\<lambda>l. (l, c l))"

text \<open>Run a body for every element of a list, in order: a \<open>for\<close> loop with no early exit.\<close>

fun forEach :: "('x \<Rightarrow> ('l, unit) prog) \<Rightarrow> 'x list \<Rightarrow> ('l, unit) prog" where
  "forEach body [] = Ret ()"
| "forEach body (x # xs) = bind (body x) (\<lambda>_. forEach body xs)"

text \<open>
  A program alone: the faults are taken from the list in order, and there are none once it
  is used up.  The result is the program's value, the world and the replica's memory.
\<close>

primrec run :: "('l, 'a) prog \<Rightarrow> fault list \<Rightarrow> world \<Rightarrow> 'l \<Rightarrow> 'a \<times> world \<times> 'l \<times> fault list" where
  "run (Ret a) fs w l = (a, w, l, fs)"
| "run (Call op k) fs w l =
     (let f = (case fs of [] \<Rightarrow> NoFault | f # _ \<Rightarrow> f); (r, w') = exec f op w
      in run (k r) (tl fs) w' l)"
| "run (Loc g) fs w l =
     (let (l', p') = map_prod id run (g l) in p' fs w l')"

text \<open>
  What a program does to the replica's memory whatever the stores answer: \<open>Q\<close> holds of its value
  and the memory it leaves.
\<close>

primrec lsafe :: "('a \<Rightarrow> 'l \<Rightarrow> bool) \<Rightarrow> ('l, 'a) prog \<Rightarrow> 'l \<Rightarrow> bool" where
  "lsafe Q (Ret a) l = Q a l"
| "lsafe Q (Call op k) l = (\<forall>r. lsafe Q (k r) l)"
| "lsafe Q (Loc g) l = (let (l', p') = map_prod id (lsafe Q) (g l) in p' l')"

text \<open>Stores that hold nothing yet.\<close>

definition emptyBucket :: bucket where
  "emptyBucket = \<lparr>b_ents = [], b_last = 0, b_seen = {}\<rparr>"

definition emptyWorld :: world where
  "emptyWorld = \<lparr>w_config = emptyBucket, w_jobs = emptyBucket, w_objs = [], w_clock = 0\<rparr>"

section \<open>Lemmas\<close>

lemmas kv_ops = kv_get_def kv_create_def kv_update_def kv_delete_def

lemma lookup_empty [simp]: "lookup emptyBucket k = None"
  by (simp add: lookup_def emptyBucket_def)

lemma last_empty [simp]: "b_last emptyBucket = 0"
  by (simp add: emptyBucket_def)

lemma emptyWorld_simps [simp]:
  "w_jobs emptyWorld = emptyBucket" "w_config emptyWorld = emptyBucket" "w_objs emptyWorld = []" "w_clock emptyWorld = 0"
  by (simp_all add: emptyWorld_def)

lemma lookup_put [simp]:
  "lookup (put k v now b) k' =
     (if k' = k then Some \<lparr>s_val = v, s_rev = Suc (b_last b), s_created = now\<rparr> else lookup b k')"
  by (simp add: lookup_def put_def)

lemma lookup_remove [simp]: "lookup (remove k b) k' = (if k' = k then None else lookup b k')"
  by (simp add: lookup_def remove_def)

lemma last_put [simp]: "b_last (put k v now b) = Suc (b_last b)"
  by (simp add: put_def)

lemma last_remove [simp]: "b_last (remove k b) = Suc (b_last b)"
  by (simp add: remove_def)

lemma seen_put [simp]: "b_seen (put k v now b) = insert k (b_seen b)"
  by (simp add: put_def)

lemma seen_remove [simp]: "b_seen (remove k b) = b_seen b"
  by (simp add: remove_def)

lemma prog_induct [case_names Ret Call Loc]:
  assumes "\<And>a. P (Ret a)"
    and "\<And>op k. (\<And>r. P (k r)) \<Longrightarrow> P (Call op k)"
    and "\<And>g. (\<And>l. P (snd (g l))) \<Longrightarrow> P (Loc g)"
  shows "P p"
proof (induction p)
  case (Loc g)
  have "P (snd (g l))" for l
    by (rule Loc.IH [of "g l"]) (auto simp: prod_set_defs)
  then show ?case by (rule assms(3))
qed (auto intro: assms)

lemma bind_Ret [simp]: "bind p Ret = p"
proof (induction p rule: prog_induct)
  case (Loc g)
  then show ?case by (auto simp: fun_eq_iff prod_eq_iff)
qed auto

lemma bind_assoc: "bind (bind p f) g = bind p (\<lambda>x. bind (f x) g)"
proof (induction p rule: prog_induct)
  case (Loc h)
  then show ?case by (auto simp: fun_eq_iff prod_eq_iff)
qed auto

lemma run_bind:
  "run (bind p f) fs w l = (case run p fs w l of (a, w', l', fs') \<Rightarrow> run (f a) fs' w' l')"
proof (induction p arbitrary: fs w l rule: prog_induct)
  case (Call op k)
  then show ?case by (simp add: Let_def split: prod.split)
next
  case (Loc g)
  then show ?case by (simp add: Let_def split_def)
qed simp

lemma bind_modify [simp]: "bind (modify g p) f = modify g (bind p f)"
  by (simp add: modify_def)

lemma bind_inspect [simp]: "bind (inspect c) f = inspect (\<lambda>l. bind (c l) f)"
  by (simp add: inspect_def)

lemma run_modify [simp]: "run (modify g p) fs w l = run p fs w (g l)"
  by (simp add: modify_def)

lemma run_inspect [simp]: "run (inspect c) fs w l = run (c l) fs w l"
  by (simp add: inspect_def)

lemma lsafe_run: "lsafe Q p l \<Longrightarrow> run p fs w l = (a, w', l', fs') \<Longrightarrow> Q a l'"
proof (induction p arbitrary: fs w l rule: prog_induct)
  case (Call op k)
  obtain r w1 where "exec (case fs of [] \<Rightarrow> NoFault | f # _ \<Rightarrow> f) op w = (r, w1)" by fastforce
  then show ?case using Call.IH [of r l] Call.prems by (simp add: Let_def)
next
  case (Loc g)
  then show ?case by (auto simp: Let_def split_def)
qed simp

lemma lsafe_mono: "lsafe Q p l \<Longrightarrow> (\<And>a l. Q a l \<Longrightarrow> Q' a l) \<Longrightarrow> lsafe Q' p l"
proof (induction p arbitrary: l rule: prog_induct)
  case (Loc g)
  then show ?case by (auto simp: Let_def split_def)
qed auto

lemma lsafe_bind: "lsafe (\<lambda>a. lsafe Q (f a)) p l \<Longrightarrow> lsafe Q (bind p f) l"
proof (induction p arbitrary: l rule: prog_induct)
  case (Loc g)
  then show ?case by (auto simp: Let_def split_def)
qed simp_all

lemma lsafe_local [simp]:
  "lsafe Q (modify g p) l = lsafe Q p (g l)" "lsafe Q (inspect c) l = lsafe Q (c l) l"
  by (simp_all add: modify_def inspect_def)

text \<open>A failed call answers an error and leaves either the world or the world the call makes.\<close>

lemma exec_cases:
  obtains (performed) "exec f op w = perform op w"
    | (lost) err where "op \<noteq> ONow" "err \<in> {ErrUnavailable, ErrOther}" "exec f op w = (RErr err, w)"
    | (unanswered) err where "op \<noteq> ONow" "err \<in> {ErrUnavailable, ErrOther}"
        "exec f op w = (RErr err, snd (perform op w))"
  by (cases f; cases "op = ONow") (simp_all, metis+)

section \<open>The laws of a revisioned bucket\<close>

text \<open>
  What the clients of a bucket rely on, as an interface: \<open>lk\<close> is the key's value and
  revision, \<open>lst\<close> the highest revision given out.  \<open>fresh_revisions\<close> says that a revision
  read once identifies the value read.
\<close>

locale revisioned =
  fixes lk :: "'b \<Rightarrow> 'k \<Rightarrow> ('v \<times> nat) option"
    and lst :: "'b \<Rightarrow> nat"
    and crt :: "'k \<Rightarrow> 'v \<Rightarrow> 'b \<Rightarrow> nat option \<times> 'b"
    and upd :: "'k \<Rightarrow> 'v \<Rightarrow> nat \<Rightarrow> 'b \<Rightarrow> nat option \<times> 'b"
    and del :: "'k \<Rightarrow> nat \<Rightarrow> 'b \<Rightarrow> bool \<times> 'b"
  assumes crt_ok: "crt k v b = (Some r, b') \<Longrightarrow>
      lk b k = None \<and> r = Suc (lst b) \<and> lst b' = r \<and> lk b' = (lk b)(k \<mapsto> (v, r))"
    and crt_lost: "crt k v b = (None, b') \<Longrightarrow> lk b k \<noteq> None \<and> b' = b"
    and upd_ok: "upd k v x b = (Some r, b') \<Longrightarrow>
      (\<exists>u. lk b k = Some (u, x)) \<and> r = Suc (lst b) \<and> lst b' = r \<and> lk b' = (lk b)(k \<mapsto> (v, r))"
    and upd_lost: "upd k v x b = (None, b') \<Longrightarrow> (\<nexists>u. lk b k = Some (u, x)) \<and> b' = b"
    and del_ok: "del k x b = (True, b') \<Longrightarrow>
      (\<exists>u. lk b k = Some (u, x)) \<and> lst b < lst b' \<and> lk b' = (lk b)(k := None)"
    and del_lost: "del k x b = (False, b') \<Longrightarrow> b' = b"
begin

text \<open>Two conditional writes at one revision: the second loses, whatever they write.\<close>

lemma second_writer_loses:
  assumes "\<forall>k u y. lk b k = Some (u, y) \<longrightarrow> y \<le> lst b"
    and "upd k v x b = (Some r, b')"
  shows "fst (upd k v' x b') = None"
proof (rule ccontr)
  assume "fst (upd k v' x b') \<noteq> None"
  then obtain r' b'' where "upd k v' x b' = (Some r', b'')" by (cases "upd k v' x b'") auto
  from upd_ok [OF this] obtain u where "lk b' k = Some (u, x)" by blast
  moreover from upd_ok [OF assms(2)] have "lk b' k = Some (v, Suc (lst b))" "\<exists>u. lk b k = Some (u, x)"
    by auto
  ultimately show False using assms(1) not_less_eq_eq [of "lst b" "lst b"] by fastforce
qed

lemma update_after_delete_loses:
  assumes "del k x b = (True, b')"
  shows "fst (upd k v y b') = None"
proof (rule ccontr)
  assume "fst (upd k v y b') \<noteq> None"
  then obtain r' b'' where "upd k v y b' = (Some r', b'')" by (cases "upd k v y b'") auto
  from upd_ok [OF this] del_ok [OF assms] show False by auto
qed

text \<open>Of two creates of one key with nothing between them, one wins.\<close>

lemma second_create_loses:
  assumes "crt k v b = (Some r, b')"
  shows "fst (crt k v' b') = None"
proof (rule ccontr)
  assume "fst (crt k v' b') \<noteq> None"
  then obtain r' b'' where "crt k v' b' = (Some r', b'')" by (cases "crt k v' b'") auto
  from crt_ok [OF this] crt_ok [OF assms] show False by auto
qed

end

definition kv_view :: "bucket \<Rightarrow> string \<Rightarrow> (kvval \<times> nat) option" where
  "kv_view b k = map_option (\<lambda>e. (s_val e, s_rev e)) (lookup b k)"

definition ok_part :: "('e + 'r) \<times> 'b \<Rightarrow> 'r option \<times> 'b" where
  "ok_part p = (case p of (Inl _, b) \<Rightarrow> (None, b) | (Inr r, b) \<Rightarrow> (Some r, b))"

interpretation kv: revisioned kv_view b_last
  "\<lambda>k v b. ok_part (kv_create now k v b)"
  "\<lambda>k v x b. ok_part (kv_update now k v x b)"
  "\<lambda>k x b. map_prod (\<lambda>e. e = None) id (kv_delete k x b)" for now
proof unfold_locales
qed (auto simp: kv_view_def ok_part_def kv_create_def kv_update_def kv_delete_def fun_eq_iff
      split: option.splits if_splits)

end
