(* ===== verification/Rely_Guarantee.thy ===== *)
theory Rely_Guarantee
  imports Store
begin

text \<open>
  Reasoning about programs that share the stores.  \<open>safe R G I L Q p w\<close> says of a program
  \<open>p\<close>, last known to stand at world \<open>w\<close>: whatever the others do within the rely \<open>R\<close>, every
  call \<open>p\<close> makes keeps the invariant \<open>I\<close> and the guarantee \<open>G\<close>, every critical section keeps the
  invariant \<open>L\<close> of the replica's memory, and a value \<open>p\<close> returns satisfies \<open>Q\<close>.

  The locale \<open>rely_guarantee\<close> states what the relations must satisfy and derives the rules:
  one per store call, and the rules for sequencing and loops.
\<close>

primrec safe :: "(world \<Rightarrow> world \<Rightarrow> bool) \<Rightarrow> (world \<Rightarrow> world \<Rightarrow> bool) \<Rightarrow> (world \<Rightarrow> bool)
    \<Rightarrow> ('l \<Rightarrow> world \<Rightarrow> bool) \<Rightarrow> ('a \<Rightarrow> world \<Rightarrow> bool) \<Rightarrow> ('l, 'a) prog \<Rightarrow> world \<Rightarrow> bool" where
  "safe R G I L Q (Ret a) = (\<lambda>w. \<forall>w'. R w w' \<and> I w' \<longrightarrow> Q a w')"
| "safe R G I L Q (Call op k) = (\<lambda>w. \<forall>w' f. R w w' \<and> I w' \<longrightarrow>
     (case exec f op w' of (r, w'') \<Rightarrow> G w' w'' \<and> I w'' \<and> safe R G I L Q (k r) w''))"
| "safe R G I L Q (Loc g) = (\<lambda>w. \<forall>w' l. R w w' \<and> I w' \<and> L l w' \<longrightarrow>
     (case map_prod id (safe R G I L Q) (g l) of (l', s) \<Rightarrow> L l' w' \<and> s w'))"

lemma safe_Call_iff:
  "safe R G I L Q (Call op k) w \<longleftrightarrow>
     (\<forall>w' f r w''. R w w' \<longrightarrow> I w' \<longrightarrow> exec f op w' = (r, w'') \<longrightarrow> G w' w'' \<and> I w'' \<and> safe R G I L Q (k r) w'')"
  by (simp only: safe.simps split: prod.split) blast

lemma safe_Loc_iff:
  "safe R G I L Q (Loc g) w \<longleftrightarrow>
     (\<forall>w' l. R w w' \<longrightarrow> I w' \<longrightarrow> L l w' \<longrightarrow> L (fst (g l)) w' \<and> safe R G I L Q (snd (g l)) w')"
  by (simp add: split_def) blast

lemma safe_Ret_iff: "safe R G I L Q (Ret a) w \<longleftrightarrow> (\<forall>w'. R w w' \<longrightarrow> I w' \<longrightarrow> Q a w')"
  by auto

declare safe.simps [simp del]

text \<open>
  A program that is safe under a weaker rely and a stronger guarantee is safe, and every step it
  and the others take stays within any preorder \<open>T\<close> that contains both.
\<close>

lemma safe_frame_aux:
  assumes RR: "\<And>v w. R' v w \<Longrightarrow> R v w" and GG: "\<And>v w. G v w \<Longrightarrow> G' v w"
    and RT: "\<And>v w. R' v w \<Longrightarrow> T v w" and GT: "\<And>v w. G v w \<Longrightarrow> T v w"
    and T: "\<And>u v w. T u v \<Longrightarrow> T v w \<Longrightarrow> T u w"
  shows "safe R G I L Q p w \<Longrightarrow> T w0 w \<Longrightarrow> safe R' G' I L (\<lambda>a w'. Q a w' \<and> T w0 w') p w"
proof (induction p arbitrary: w rule: prog_induct)
  case (Ret a)
  then show ?case using RR RT T unfolding safe_Ret_iff by meson
next
  case (Call op k)
  have "G' w' w'' \<and> I w'' \<and> safe R' G' I L (\<lambda>a w'. Q a w' \<and> T w0 w') (k r) w''"
    if w: "R' w w'" "I w'" "exec f op w' = (r, w'')" for w' f r w''
  proof -
    have st: "G w' w''" "I w''" "safe R G I L Q (k r) w''" using Call.prems(1) RR w unfolding safe_Call_iff by meson+
    have "T w0 w''" using Call.prems(2) RT [OF w(1)] GT [OF st(1)] T by meson
    then show ?thesis using st GG Call.IH by blast
  qed
  then show ?case unfolding safe_Call_iff by blast
next
  case (Loc g)
  have "L (fst (g l)) w' \<and> safe R' G' I L (\<lambda>a w'. Q a w' \<and> T w0 w') (snd (g l)) w'"
    if w: "R' w w'" "I w'" "L l w'" for w' l
  proof -
    have "L (fst (g l)) w'" "safe R G I L Q (snd (g l)) w'" using Loc.prems(1) RR w unfolding safe_Loc_iff by meson+
    moreover have "T w0 w'" using Loc.prems(2) RT [OF w(1)] T by meson
    ultimately show ?thesis using Loc.IH by blast
  qed
  then show ?case unfolding safe_Loc_iff by blast
qed

locale rely_guarantee =
  fixes R :: "world \<Rightarrow> world \<Rightarrow> bool"
    and G :: "world \<Rightarrow> world \<Rightarrow> bool"
    and E :: "world \<Rightarrow> world \<Rightarrow> bool"
    and I :: "world \<Rightarrow> bool"
    and L :: "'l \<Rightarrow> world \<Rightarrow> bool"
  assumes R_refl: "R w w"
    and R_trans: "R u v \<Longrightarrow> R v w \<Longrightarrow> R u w"
    and R_E: "R v w \<Longrightarrow> E v w"
    and G_refl: "G w w"
    and G_E: "G v w \<Longrightarrow> E v w"
    and E_trans: "E u v \<Longrightarrow> E v w \<Longrightarrow> E u w"
begin

lemma E_refl: "E w w"
  by (rule R_E, rule R_refl)

lemma safe_mono:
  assumes "safe R G I L Q p w" and "R w w'"
  shows "safe R G I L Q p w'"
proof -
  have tr: "R w' v \<Longrightarrow> R w v" for v by (rule R_trans [OF assms(2)])
  show ?thesis
  proof (cases p)
    case (Ret a)
    then show ?thesis using assms(1) tr by (simp add: safe_Ret_iff)
  next
    case (Call op k)
    then show ?thesis using assms(1) tr unfolding Call safe_Call_iff by metis
  next
    case (Loc g)
    then show ?thesis using assms(1) tr unfolding Loc safe_Loc_iff by metis
  qed
qed

lemma safe_Ret: "(\<And>w'. R w w' \<Longrightarrow> I w' \<Longrightarrow> Q a w') \<Longrightarrow> safe R G I L Q (Ret a) w"
  by (simp add: safe_Ret_iff)

lemma safe_done [simp]: "safe R G I L (\<lambda>_ _. True) (Ret a) w"
  by (simp add: safe_Ret_iff)

lemma safe_post:
  assumes "safe R G I L Q p w" and "\<And>a w'. Q a w' \<Longrightarrow> E w w' \<Longrightarrow> Q' a w'"
  shows "safe R G I L Q' p w"
  using assms
proof (induction p arbitrary: w rule: prog_induct)
  case (Ret a)
  then show ?case using R_E by (simp add: safe_Ret_iff)
next
  case (Call op k)
  have "safe R G I L Q' (k r) w''" if "R w w'" "I w'" "exec f op w' = (r, w'')" for w' f r w''
  proof (rule Call.IH)
    have st: "G w' w'' \<and> I w'' \<and> safe R G I L Q (k r) w''" using Call.prems(1) that unfolding safe_Call_iff by blast
    then show "safe R G I L Q (k r) w''" by simp
    fix a v assume "Q a v" "E w'' v"
    then show "Q' a v" using Call.prems(2) st that R_E G_E E_trans by meson
  qed
  then show ?case using Call.prems(1) unfolding safe_Call_iff bind.simps by blast
next
  case (Loc g)
  have "safe R G I L Q' (snd (g l)) w'" if "R w w'" "I w'" "L l w'" for w' l
  proof (rule Loc.IH)
    show "safe R G I L Q (snd (g l)) w'" using Loc.prems(1) that by (simp add: safe_Loc_iff)
    fix a v assume "Q a v" "E w' v"
    then show "Q' a v" using Loc.prems(2) that R_E E_trans by meson
  qed
  then show ?case using Loc.prems(1) by (simp add: safe_Loc_iff)
qed

text \<open>Sequencing: the second part starts where the first ended, in a world that evolved.\<close>

lemma safe_bind:
  assumes "safe R G I L Q p w"
    and "\<And>a w'. E w w' \<Longrightarrow> I w' \<Longrightarrow> Q a w' \<Longrightarrow> safe R G I L Q' (f a) w'"
    and "I w"
  shows "safe R G I L Q' (bind p f) w"
  using assms
proof (induction p arbitrary: w rule: prog_induct)
  case (Ret a)
  then have "safe R G I L Q' (f a) w" using R_refl E_refl by (simp add: safe_Ret_iff)
  then show ?case by simp
next
  case (Call op k)
  have "safe R G I L Q' (bind (k r) f) w''" if "R w w'" "I w'" "exec fl op w' = (r, w'')" for w' fl r w''
  proof (rule Call.IH)
    have st: "G w' w'' \<and> I w'' \<and> safe R G I L Q (k r) w''" using Call.prems(1) that unfolding safe_Call_iff by blast
    then show "safe R G I L Q (k r) w''" "I w''" by simp_all
    fix a v assume "E w'' v" "I v" "Q a v"
    then show "safe R G I L Q' (f a) v" using Call.prems(2) st that R_E G_E E_trans by meson
  qed
  then show ?case using Call.prems(1) unfolding safe_Call_iff bind.simps by blast
next
  case (Loc g)
  have "safe R G I L Q' (bind (snd (g l)) f) w'" if "R w w'" "I w'" "L l w'" for w' l
  proof (rule Loc.IH)
    show "safe R G I L Q (snd (g l)) w'" using Loc.prems(1) that by (simp add: safe_Loc_iff)
    fix a v assume "E w' v" "I v" "Q a v"
    then show "safe R G I L Q' (f a) v" using Loc.prems(2) that R_E E_trans by meson
  qed (use that in simp)
  then show ?case using Loc.prems(1) by (simp add: safe_Loc_iff)
qed

lemma safe_forEach:
  assumes "\<And>x w'. x \<in> set xs \<Longrightarrow> E w w' \<Longrightarrow> I w' \<Longrightarrow> safe R G I L (\<lambda>_ _. True) (body x) w'" and "I w"
  shows "safe R G I L (\<lambda>_ _. True) (forEach body xs) w"
  using assms
proof (induction xs arbitrary: w)
  case (Cons x xs)
  have "safe R G I L (\<lambda>_ _. True) (forEach body xs) w'" if "E w w'" "I w'" for w'
    using that Cons.prems(1) E_trans by (intro Cons.IH) (meson list.set_intros(2), blast)
  then show ?case using Cons.prems E_refl by (auto intro!: safe_bind)
qed simp

text \<open>Critical sections.\<close>

lemma safe_inspect:
  assumes "\<And>w' l. R w w' \<Longrightarrow> I w' \<Longrightarrow> L l w' \<Longrightarrow> safe R G I L Q (c l) w'"
  shows "safe R G I L Q (inspect c) w"
  using assms by (simp add: inspect_def safe_Loc_iff)

lemma safe_Loc:
  assumes "\<And>w' l. R w w' \<Longrightarrow> I w' \<Longrightarrow> L l w' \<Longrightarrow> L (fst (g l)) w' \<and> safe R G I L Q (snd (g l)) w'"
  shows "safe R G I L Q (Loc g) w"
  using assms by (simp add: safe_Loc_iff)

lemma safe_modify:
  assumes "\<And>w' l. I w' \<Longrightarrow> L l w' \<Longrightarrow> L (g l) w'" and "safe R G I L Q p w"
  shows "safe R G I L Q (modify g p) w"
  using assms safe_mono by (simp add: modify_def safe_Loc_iff) blast

lemma safe_modify_at:
  assumes "\<And>w' l. R w w' \<Longrightarrow> I w' \<Longrightarrow> L l w' \<Longrightarrow> L (g l) w'" and "safe R G I L Q p w"
  shows "safe R G I L Q (modify g p) w"
  unfolding modify_def by (rule safe_Loc) (use assms safe_mono in auto)

text \<open>Calls that write nothing.\<close>

lemma safe_read:
  assumes "\<And>w' r. R w w' \<Longrightarrow> I w' \<Longrightarrow> r = fst (perform op w') \<or> (op \<noteq> ONow \<and> r \<in> {RErr ErrUnavailable, RErr ErrOther})
      \<Longrightarrow> safe R G I L Q (k r) w'"
    and "\<And>w. snd (perform op w) = w"
  shows "safe R G I L Q (Call op k) w"
proof -
  have "G w' w'' \<and> I w'' \<and> safe R G I L Q (k r) w''" if "R w w'" "I w'" "exec f op w' = (r, w'')" for w' f r w''
  proof -
    have "w'' = w' \<and> (r = fst (perform op w') \<or> (op \<noteq> ONow \<and> r \<in> {RErr ErrUnavailable, RErr ErrOther}))"
      using that(3) assms(2) [of w'] by (cases rule: exec_cases [of f op w']) (auto simp: prod_eq_iff)
    then show ?thesis using assms(1) that G_refl by blast
  qed
  then show ?thesis unfolding safe_Call_iff by blast
qed

lemma safe_Now:
  assumes "\<And>t. safe R G I L Q (c t) w"
  shows "safe R G I L Q (Now c) w"
proof (rule safe_read)
  fix w' r assume "R w w'"
  then show "safe R G I L Q (c (as_time r)) w'" by (rule safe_mono [OF assms])
qed simp

lemma safe_Get:
  assumes "\<And>w' e. R w w' \<Longrightarrow> I w' \<Longrightarrow> e \<noteq> ErrKeyNotFound \<Longrightarrow> safe R G I L Q (c (Inl e)) w'"
    and "\<And>w'. R w w' \<Longrightarrow> I w' \<Longrightarrow> lookup (bucket_of n w') k = None \<Longrightarrow> safe R G I L Q (c (Inl ErrKeyNotFound)) w'"
    and "\<And>w' s. R w w' \<Longrightarrow> I w' \<Longrightarrow> lookup (bucket_of n w') k = Some s \<Longrightarrow> safe R G I L Q (c (Inr s)) w'"
  shows "safe R G I L Q (Get n k c) w"
proof (rule safe_read)
  fix w' r assume "R w w'" "I w'"
    "r = fst (perform (OGet n k) w') \<or> (OGet n k \<noteq> ONow \<and> r \<in> {RErr ErrUnavailable, RErr ErrOther})"
  then show "safe R G I L Q (c (as_entry r)) w'"
    using assms by (auto simp: kv_get_def split: option.splits)
qed simp

lemma safe_Keys:
  assumes "\<And>r. safe R G I L Q (c r) w"
  shows "safe R G I L Q (Keys n p c) w"
  using safe_mono [OF assms] by (intro safe_read) auto

lemma safe_Open:
  assumes "\<And>r. safe R G I L Q (c r) w"
  shows "safe R G I L Q (Open n c) w"
  using safe_mono [OF assms] by (intro safe_read) auto

lemma safe_Listing:
  assumes "\<And>r. safe R G I L Q (c r) w"
  shows "safe R G I L Q (Listing c) w"
  using safe_mono [OF assms] by (intro safe_read) auto

text \<open>
  Calls that write.  \<open>w''\<close> is the world with the write applied; an answer without a definite
  result leaves the program in either world.
\<close>

lemma safe_write:
  assumes "\<And>w' r. R w w' \<Longrightarrow> I w' \<Longrightarrow> r \<in> {RErr ErrUnavailable, RErr ErrOther} \<Longrightarrow> safe R G I L Q (k r) w'"
    and "\<And>w' w''. R w w' \<Longrightarrow> I w' \<Longrightarrow> w'' = snd (perform op w') \<Longrightarrow>
       G w' w'' \<and> I w'' \<and> safe R G I L Q (k (fst (perform op w'))) w'' \<and>
       (w'' \<noteq> w' \<longrightarrow> (\<forall>r \<in> {RErr ErrUnavailable, RErr ErrOther}. safe R G I L Q (k r) w''))"
  shows "safe R G I L Q (Call op k) w"
proof -
  have "G w' w'' \<and> I w'' \<and> safe R G I L Q (k r) w''" if "R w w'" "I w'" "exec f op w' = (r, w'')" for w' f r w''
    using that(3)
  proof (cases rule: exec_cases [of f op w'])
    case performed
    then show ?thesis using that assms(2) [of w' w''] by (metis fst_conv snd_conv)
  next
    case (lost err)
    then show ?thesis using that assms(1) [of w' r] G_refl by auto
  next
    case (unanswered err)
    then show ?thesis using that assms(1) [of w' r] assms(2) [of w' w''] by (cases "w'' = w'") auto
  qed
  then show ?thesis unfolding safe_Call_iff by blast
qed

lemma safe_Create:
  assumes "\<And>w' e. R w w' \<Longrightarrow> I w' \<Longrightarrow> e \<in> {ErrUnavailable, ErrOther} \<Longrightarrow> safe R G I L Q (c (Inl e)) w'"
    and "\<And>w' s. R w w' \<Longrightarrow> I w' \<Longrightarrow> lookup (bucket_of n w') k = Some s \<Longrightarrow> safe R G I L Q (c (Inl ErrKeyExists)) w'"
    and "\<And>w' w''. R w w' \<Longrightarrow> I w' \<Longrightarrow> lookup (bucket_of n w') k = None \<Longrightarrow>
       w'' = set_bucket n (put k v (w_clock w') (bucket_of n w')) w' \<Longrightarrow>
       G w' w'' \<and> I w'' \<and> safe R G I L Q (c (Inr (Suc (b_last (bucket_of n w'))))) w'' \<and>
       (\<forall>e \<in> {ErrUnavailable, ErrOther}. safe R G I L Q (c (Inl e)) w'')"
  shows "safe R G I L Q (Create n k v c) w"
proof (rule safe_write)
  fix w' r assume "R w w'" "I w'" "r \<in> {RErr ErrUnavailable, RErr ErrOther}"
  then show "safe R G I L Q (c (as_rev r)) w'" using assms(1) by auto
next
  fix w' w'' assume w: "R w w'" "I w'" "w'' = snd (perform (OCreate n k v) w')"
  show "G w' w'' \<and> I w'' \<and> safe R G I L Q (c (as_rev (fst (perform (OCreate n k v) w')))) w'' \<and>
    (w'' \<noteq> w' \<longrightarrow> (\<forall>r \<in> {RErr ErrUnavailable, RErr ErrOther}. safe R G I L Q (c (as_rev r)) w''))"
  proof (cases "lookup (bucket_of n w') k")
    case None
    then show ?thesis using assms(3) [OF w(1,2) None refl] w(3) by (auto simp: kv_create_def)
  next
    case (Some s)
    then show ?thesis using assms(2) [OF w(1,2) Some] w G_refl by (auto simp: kv_create_def)
  qed
qed

lemma safe_Update:
  assumes "\<And>w' e. R w w' \<Longrightarrow> I w' \<Longrightarrow> safe R G I L Q (c (Inl e)) w'"
    and "\<And>w' w'' s. R w w' \<Longrightarrow> I w' \<Longrightarrow> lookup (bucket_of n w') k = Some s \<Longrightarrow> s_rev s = x \<Longrightarrow>
       w'' = set_bucket n (put k v (w_clock w') (bucket_of n w')) w' \<Longrightarrow>
       G w' w'' \<and> I w'' \<and> safe R G I L Q (c (Inr (Suc (b_last (bucket_of n w'))))) w'' \<and>
       (\<forall>e \<in> {ErrUnavailable, ErrOther}. safe R G I L Q (c (Inl e)) w'')"
  shows "safe R G I L Q (Update n k v x c) w"
proof (rule safe_write)
  fix w' r assume "R w w'" "I w'" "r \<in> {RErr ErrUnavailable, RErr ErrOther}"
  then show "safe R G I L Q (c (as_rev r)) w'" using assms(1) by auto
next
  fix w' w'' assume w: "R w w'" "I w'" "w'' = snd (perform (OUpdate n k v x) w')"
  show "G w' w'' \<and> I w'' \<and> safe R G I L Q (c (as_rev (fst (perform (OUpdate n k v x) w')))) w'' \<and>
    (w'' \<noteq> w' \<longrightarrow> (\<forall>r \<in> {RErr ErrUnavailable, RErr ErrOther}. safe R G I L Q (c (as_rev r)) w''))"
  proof (cases "\<exists>s. lookup (bucket_of n w') k = Some s \<and> s_rev s = x")
    case True
    then obtain s where s: "lookup (bucket_of n w') k = Some s" "s_rev s = x" by blast
    then show ?thesis using assms(2) [OF w(1,2) s refl] w(3) by (auto simp: kv_update_def)
  next
    case False
    then have "kv_update (w_clock w') k v x (bucket_of n w') = (Inl ErrRevisionMismatch, bucket_of n w')"
      by (auto simp: kv_update_def split: option.split)
    then show ?thesis using assms(1) w G_refl by auto
  qed
qed

lemma safe_Delete:
  assumes "\<And>w' e. R w w' \<Longrightarrow> I w' \<Longrightarrow> safe R G I L Q (c (Some e)) w'"
    and "\<And>w' w'' s. R w w' \<Longrightarrow> I w' \<Longrightarrow> lookup (bucket_of n w') k = Some s \<Longrightarrow> s_rev s = x \<Longrightarrow>
       w'' = set_bucket n (remove k (bucket_of n w')) w' \<Longrightarrow>
       G w' w'' \<and> I w'' \<and> safe R G I L Q (c None) w'' \<and>
       (\<forall>e \<in> {ErrUnavailable, ErrOther}. safe R G I L Q (c (Some e)) w'')"
  shows "safe R G I L Q (Delete n k x c) w"
proof (rule safe_write)
  fix w' r assume "R w w'" "I w'" "r \<in> {RErr ErrUnavailable, RErr ErrOther}"
  then show "safe R G I L Q (c (as_ok r)) w'" using assms(1) by auto
next
  fix w' w'' assume w: "R w w'" "I w'" "w'' = snd (perform (ODelete n k x) w')"
  show "G w' w'' \<and> I w'' \<and> safe R G I L Q (c (as_ok (fst (perform (ODelete n k x) w')))) w'' \<and>
    (w'' \<noteq> w' \<longrightarrow> (\<forall>r \<in> {RErr ErrUnavailable, RErr ErrOther}. safe R G I L Q (c (as_ok r)) w''))"
  proof (cases "\<exists>s. lookup (bucket_of n w') k = Some s \<and> s_rev s = x")
    case True
    then obtain s where s: "lookup (bucket_of n w') k = Some s" "s_rev s = x" by blast
    then show ?thesis using assms(2) [OF w(1,2) s refl] w(3) by (auto simp: kv_delete_def)
  next
    case False
    then have "kv_delete k x (bucket_of n w') = (Some ErrRevisionMismatch, bucket_of n w')"
      by (auto simp: kv_delete_def split: option.split)
    then show ?thesis using assms(1) w G_refl by auto
  qed
qed

text \<open>Calls on the object bucket, for relations that do not look at it.\<close>

lemma safe_Put:
  assumes "\<And>w' o'. I w' \<Longrightarrow> G w' (w'\<lparr>w_objs := o'\<rparr>) \<and> R w' (w'\<lparr>w_objs := o'\<rparr>) \<and> I (w'\<lparr>w_objs := o'\<rparr>)"
    and "\<And>r. safe R G I L Q (c r) w"
  shows "safe R G I L Q (Put name sz c) w"
proof (rule safe_write)
  fix w' r assume "R w w'"
  then show "safe R G I L Q (c (as_ok r)) w'" by (rule safe_mono [OF assms(2)])
next
  fix w' w'' assume "R w w'" "I w'" "w'' = snd (perform (OPut name sz) w')"
  moreover from this have "G w' w'' \<and> R w' w'' \<and> I w''" using assms(1) [of w'] by simp
  ultimately show "G w' w'' \<and> I w'' \<and> safe R G I L Q (c (as_ok (fst (perform (OPut name sz) w')))) w'' \<and>
    (w'' \<noteq> w' \<longrightarrow> (\<forall>r \<in> {RErr ErrUnavailable, RErr ErrOther}. safe R G I L Q (c (as_ok r)) w''))"
    using safe_mono [OF assms(2)] R_trans by blast
qed

lemma safe_Drop:
  assumes "\<And>w' o'. I w' \<Longrightarrow> G w' (w'\<lparr>w_objs := o'\<rparr>) \<and> R w' (w'\<lparr>w_objs := o'\<rparr>) \<and> I (w'\<lparr>w_objs := o'\<rparr>)"
    and "\<And>r. safe R G I L Q (c r) w"
  shows "safe R G I L Q (Drop name c) w"
proof (rule safe_write)
  fix w' r assume "R w w'"
  then show "safe R G I L Q (c (as_ok r)) w'" by (rule safe_mono [OF assms(2)])
next
  fix w' w'' assume "R w w'" "I w'" "w'' = snd (perform (ODrop name) w')"
  moreover from this have "G w' w'' \<and> R w' w'' \<and> I w''" using assms(1) [of w'] by simp
  ultimately show "G w' w'' \<and> I w'' \<and> safe R G I L Q (c (as_ok (fst (perform (ODrop name) w')))) w'' \<and>
    (w'' \<noteq> w' \<longrightarrow> (\<forall>r \<in> {RErr ErrUnavailable, RErr ErrOther}. safe R G I L Q (c (as_ok r)) w''))"
    using safe_mono [OF assms(2)] R_trans by blast
qed

end

end
