(* ===== verification/Caches.thy ===== *)
theory Caches
  imports Store
begin

text \<open>
  The watched caches of one replica (\<open>internal/pgo/caches.go\<close>): what each keeps of a
  delivered entry, how \<open>apply\<close> folds an entry in and resets a cache whose generation moved,
  the replay barrier, the per-Service index, and the reads the runtime decides from.

  A Go map is an association list and a Go set of keys a list without repetitions.  The
  subscriber channels of one Collection are numbered; a channel is its one-slot buffer.  The
  connection the caches were opened on is known by whether an attempt started
  (\<open>c_client\<close>); its current generation is an argument \<open>cur\<close> of the guarded reads, because
  the connection moves it at any time.
\<close>

section \<open>Data\<close>

record Entry =
  e_Key :: string
  e_Value :: "kvval option"
  e_Revision :: nat
  e_Created :: time
  e_Generation :: nat
  e_Synced :: bool

record cachedOverride =
  cov_Revision :: nat
  cov_Stored :: StoredOverride

record cachedJob =
  cj_Namespace :: string
  cj_Service :: string
  cj_State :: State
  cj_Revision :: nat
  cj_Origin :: Origin
  cj_Attempt :: int
  cj_ResolvedVersion :: string
  cj_CreatedAt :: time
  cj_Artifact :: string
  cj_FinishedAt :: "time option"
  cj_ExpiresAt :: "time option"
  cj_ClaimBy :: time
  cj_LeaseUntil :: "time option"
  cj_Deadline :: "time option"

record cachedActive =
  ca_ID :: string
  ca_Revision :: nat
  ca_Created :: time

record cachedSlot =
  csl_RetainUntil :: time
  csl_Revision :: nat

datatype cacheKind = cacheOverrides | cacheJobs | cacheActive | cacheSlots

record Caches =
  c_overrides :: "(string \<times> cachedOverride) list"
  c_jobs :: "(string \<times> cachedJob) list"
  c_active :: "(serviceRef \<times> cachedActive) list"
  c_byService :: "(serviceRef \<times> string list) list"
  c_slots :: "(string \<times> cachedSlot) list"
  c_gen :: "cacheKind \<Rightarrow> nat"
  c_synced :: "cacheKind \<Rightarrow> bool"
  c_client :: bool
  c_jobPulse :: bool
  c_subscribers :: "(string \<times> (nat \<times> bool) list) list"
  c_nextChan :: nat

definition NewCaches :: Caches where
  "NewCaches = \<lparr>c_overrides = [], c_jobs = [], c_active = [], c_byService = [], c_slots = [],
     c_gen = (\<lambda>_. 0), c_synced = (\<lambda>_. False), c_client = False, c_jobPulse = False,
     c_subscribers = [], c_nextChan = 0\<rparr>"

section \<open>Subscribers\<close>

text \<open>\<open>Subscribe\<close> returns the channel; \<open>Unsubscribe\<close> is the function it returns beside it.\<close>

definition Subscribe :: "string \<Rightarrow> Caches \<Rightarrow> nat \<times> Caches" where
  "Subscribe i c =
     (let ch = c_nextChan c;
          byID = (case map_of (c_subscribers c) i of None \<Rightarrow> [] | Some m \<Rightarrow> m)
      in (ch, c\<lparr>c_subscribers := map_put i (map_put ch False byID) (c_subscribers c),
               c_nextChan := Suc ch\<rparr>))"

definition Unsubscribe :: "string \<Rightarrow> nat \<Rightarrow> Caches \<Rightarrow> Caches" where
  "Unsubscribe i ch c =
     (case map_of (c_subscribers c) i of
        None \<Rightarrow> c
      | Some byID \<Rightarrow>
          let byID' = map_del ch byID in
          c\<lparr>c_subscribers := (if byID' = [] then map_del i (c_subscribers c)
                              else map_put i byID' (c_subscribers c))\<rparr>)"

definition pulseSubscribers :: "string \<Rightarrow> Caches \<Rightarrow> Caches" where
  "pulseSubscribers key c =
     (case cutPrefix jobPrefix key of
        None \<Rightarrow> c
      | Some i \<Rightarrow>
          (case map_of (c_subscribers c) i of
             None \<Rightarrow> c
           | Some byID \<Rightarrow> c\<lparr>c_subscribers := map_put i (map (\<lambda>(ch, _). (ch, True)) byID) (c_subscribers c)\<rparr>))"

section \<open>Folding an entry in\<close>

definition startAttempt :: "Caches \<Rightarrow> Caches" where
  "startAttempt c = c\<lparr>c_client := True, c_synced := (\<lambda>_. False)\<rparr>"

fun reset :: "cacheKind \<Rightarrow> Caches \<Rightarrow> Caches" where
  "reset cacheOverrides c = c\<lparr>c_overrides := []\<rparr>"
| "reset cacheJobs c = c\<lparr>c_jobs := [], c_byService := []\<rparr>"
| "reset cacheActive c = c\<lparr>c_active := []\<rparr>"
| "reset cacheSlots c = c\<lparr>c_slots := []\<rparr>"

definition applyOverride :: "Entry \<Rightarrow> Caches \<Rightarrow> Caches" where
  "applyOverride e c =
     (case splitServiceKey overridePrefix (e_Key e) of
        None \<Rightarrow> c
      | Some _ \<Rightarrow>
          (case e_Value e of
             None \<Rightarrow> c\<lparr>c_overrides := map_del (e_Key e) (c_overrides c)\<rparr>
           | Some v \<Rightarrow>
               (case asOverride v of
                  None \<Rightarrow> c\<lparr>c_overrides := map_del (e_Key e) (c_overrides c)\<rparr>
                | Some s \<Rightarrow> c\<lparr>c_overrides := map_put (e_Key e)
                      \<lparr>cov_Revision = e_Revision e, cov_Stored = s\<rparr> (c_overrides c)\<rparr>)))"

definition job_ref :: "cachedJob \<Rightarrow> serviceRef" where
  "job_ref j = ServiceRef (cj_Namespace j) (cj_Service j)"

definition deleteJob :: "string \<Rightarrow> Caches \<Rightarrow> Caches" where
  "deleteJob key c =
     (case map_of (c_jobs c) key of
        None \<Rightarrow> c
      | Some job \<Rightarrow>
          let ref = job_ref job;
              keys = removeAll key (case map_of (c_byService c) ref of None \<Rightarrow> [] | Some ks \<Rightarrow> ks)
          in c\<lparr>c_jobs := map_del key (c_jobs c),
               c_byService := (if keys = [] then map_del ref (c_byService c)
                               else map_put ref keys (c_byService c))\<rparr>)"

text \<open>The part of a record the caches keep.\<close>

definition cachedOf :: "Record \<Rightarrow> nat \<Rightarrow> cachedJob" where
  "cachedOf rec rv = \<lparr>
     cj_Namespace = rc_Namespace rec, cj_Service = rc_Service rec, cj_State = rc_State rec,
     cj_Revision = rv, cj_Origin = rc_Origin rec, cj_Attempt = rc_Attempt rec,
     cj_ResolvedVersion = rc_ResolvedVersion rec, cj_CreatedAt = rc_CreatedAt rec,
     cj_Artifact = (case rc_Artifact rec of None \<Rightarrow> [] | Some a \<Rightarrow> art_Object a),
     cj_FinishedAt = rc_FinishedAt rec, cj_ExpiresAt = rc_ExpiresAt rec,
     cj_ClaimBy = rc_ClaimBy rec, cj_LeaseUntil = rc_LeaseUntil rec, cj_Deadline = rc_Deadline rec\<rparr>"

definition insertJob :: "string \<Rightarrow> cachedJob \<Rightarrow> Caches \<Rightarrow> Caches" where
  "insertJob key job c =
     (let ref = job_ref job;
          keys = (case map_of (c_byService c) ref of None \<Rightarrow> [] | Some ks \<Rightarrow> ks)
      in c\<lparr>c_jobs := map_put key job (c_jobs c),
           c_byService := map_put ref (List.insert key keys) (c_byService c)\<rparr>)"

definition applyJob :: "Entry \<Rightarrow> Caches \<Rightarrow> Caches" where
  "applyJob e c =
     (case cutPrefix jobPrefix (e_Key e) of
        None \<Rightarrow> c
      | Some i \<Rightarrow>
          if \<not> ValidID i then c
          else (case e_Value e of
             None \<Rightarrow> deleteJob (e_Key e) c
           | Some v \<Rightarrow>
               (case asJob v of
                  None \<Rightarrow> deleteJob (e_Key e) c
                | Some rec \<Rightarrow>
                    let job = cachedOf rec (e_Revision e);
                        c' = (case map_of (c_jobs c) (e_Key e) of
                                None \<Rightarrow> c
                              | Some prev \<Rightarrow> if job_ref prev \<noteq> job_ref job then deleteJob (e_Key e) c else c)
                    in insertJob (e_Key e) job c')))"

definition applyActive :: "Entry \<Rightarrow> Caches \<Rightarrow> Caches" where
  "applyActive e c =
     (case splitServiceKey activePrefix (e_Key e) of
        None \<Rightarrow> c
      | Some (ns, svc) \<Rightarrow>
          let ref = ServiceRef ns svc in
          (case e_Value e of
             None \<Rightarrow> c\<lparr>c_active := map_del ref (c_active c)\<rparr>
           | Some v \<Rightarrow>
               (case asActive v of
                  None \<Rightarrow> c\<lparr>c_active := map_del ref (c_active c)\<rparr>
                | Some a \<Rightarrow> c\<lparr>c_active := map_put ref
                      \<lparr>ca_ID = av_ID a, ca_Revision = e_Revision e, ca_Created = e_Created e\<rparr> (c_active c)\<rparr>)))"

definition applySlot :: "Entry \<Rightarrow> Caches \<Rightarrow> Caches" where
  "applySlot e c =
     (if \<not> hasPrefix slotPrefix (e_Key e) then c
      else (case e_Value e of
         None \<Rightarrow> c\<lparr>c_slots := map_del (e_Key e) (c_slots c)\<rparr>
       | Some v \<Rightarrow>
           (case asSlot v of
              None \<Rightarrow> c\<lparr>c_slots := map_del (e_Key e) (c_slots c)\<rparr>
            | Some s \<Rightarrow> c\<lparr>c_slots := map_put (e_Key e)
                  \<lparr>csl_RetainUntil = sv_RetainUntil s, csl_Revision = e_Revision e\<rparr> (c_slots c)\<rparr>)))"

definition apply_entry :: "cacheKind \<Rightarrow> Entry \<Rightarrow> Caches \<Rightarrow> Caches" where
  "apply_entry kind e c =
     (let c1 = (if e_Generation e \<noteq> c_gen c kind
                then reset kind (c\<lparr>c_gen := (c_gen c)(kind := e_Generation e),
                                   c_synced := (c_synced c)(kind := False)\<rparr>)
                else c)
      in if e_Synced e then c1\<lparr>c_synced := (c_synced c1)(kind := True)\<rparr>
         else case kind of
           cacheOverrides \<Rightarrow> applyOverride e c1
         | cacheJobs \<Rightarrow> (pulseSubscribers (e_Key e) (applyJob e c1))\<lparr>c_jobPulse := True\<rparr>
         | cacheActive \<Rightarrow> applyActive e c1
         | cacheSlots \<Rightarrow> applySlot e c1)"

text \<open>\<open>consume\<close>: one watch's entries in the order its channel delivers them.\<close>

definition consume :: "cacheKind \<Rightarrow> Entry list \<Rightarrow> Caches \<Rightarrow> Caches" where
  "consume kind es c = fold (apply_entry kind) es c"

section \<open>Reads\<close>

definition cache_kinds :: "cacheKind list" where
  "cache_kinds = [cacheOverrides, cacheJobs, cacheActive, cacheSlots]"

definition Synced :: "nat \<Rightarrow> Caches \<Rightarrow> bool" where
  "Synced gen c \<longleftrightarrow> list_all (\<lambda>kind. c_synced c kind \<and> c_gen c kind = gen) cache_kinds"

definition syncedLocked :: "nat \<Rightarrow> nat \<Rightarrow> cacheKind list \<Rightarrow> Caches \<Rightarrow> bool" where
  "syncedLocked cur gen kinds c \<longleftrightarrow>
     (if \<not> c_client c \<or> cur \<noteq> gen then False
      else list_all (\<lambda>kind. c_synced c kind \<and> c_gen c kind = gen) kinds)"

definition overrideSnapshot :: "Caches \<Rightarrow> (serviceRef \<times> cachedOverride) list" where
  "overrideSnapshot c =
     fold (\<lambda>(key, o') out. case splitServiceKey overridePrefix key of
             None \<Rightarrow> out | Some (ns, svc) \<Rightarrow> map_put (ServiceRef ns svc) o' out) (c_overrides c) []"

definition liveLocked :: "serviceRef \<Rightarrow> Caches \<Rightarrow> bool" where
  "liveLocked ref c \<longleftrightarrow>
     map_of (c_active c) ref \<noteq> None \<or>
     list_ex (\<lambda>(_, j). cj_Namespace j = ref_Namespace ref \<and> cj_Service j = ref_Service ref
                       \<and> \<not> terminal (cj_State j)) (c_jobs c)"

definition Live :: "nat \<Rightarrow> nat \<Rightarrow> string \<Rightarrow> string \<Rightarrow> Caches \<Rightarrow> bool \<times> bool" where
  "Live cur gen ns svc c =
     (if \<not> syncedLocked cur gen [cacheActive, cacheJobs] c then (False, False)
      else (liveLocked (ServiceRef ns svc) c, True))"

definition liveRefs :: "Caches \<Rightarrow> serviceRef list" where
  "liveRefs c =
     fold (\<lambda>(_, j) live. if \<not> terminal (cj_State j) then List.insert (job_ref j) live else live)
       (c_jobs c) (fold (\<lambda>(ref, _) live. List.insert ref live) (c_active c) [])"

definition cachedLive :: "nat \<Rightarrow> nat \<Rightarrow> Caches \<Rightarrow> int \<times> bool" where
  "cachedLive cur gen c =
     (if \<not> syncedLocked cur gen [cacheActive, cacheJobs] c then (0, False)
      else (int (length (liveRefs c)), True))"

definition nonterminalJobs :: "Caches \<Rightarrow> (string \<times> cachedJob) list" where
  "nonterminalJobs c =
     sortFunc (\<lambda>a b. compare3 (fst a) (fst b))
       (List.map_filter (\<lambda>(key, j). if terminal (cj_State j) then None
           else map_option (\<lambda>i. (i, j)) (cutPrefix jobPrefix key)) (c_jobs c))"

definition hasJob :: "string \<Rightarrow> Caches \<Rightarrow> bool" where
  "hasJob i c \<longleftrightarrow> map_of (c_jobs c) (jobKey i) \<noteq> None"

text \<open>\<open>Override\<close>: the stored policy and its revision, and whether the cache could answer.\<close>

definition Override :: "nat \<Rightarrow> nat \<Rightarrow> string \<Rightarrow> string \<Rightarrow> Caches \<Rightarrow> PolicyOverride option \<times> nat \<times> bool" where
  "Override cur gen ns svc c =
     (if \<not> syncedLocked cur gen [cacheOverrides] c then (None, 0, False)
      else case map_of (c_overrides c) (overrideKey ns svc) of
        None \<Rightarrow> (None, 0, True)
      | Some o' \<Rightarrow> (st_Policy (cov_Stored o'), cov_Revision o', True))"

definition activeID :: "string \<Rightarrow> string \<Rightarrow> Caches \<Rightarrow> string option" where
  "activeID ns svc c = map_option ca_ID (map_of (c_active c) (ServiceRef ns svc))"

abbreviation (input) jobEntries :: "Caches \<Rightarrow> (string \<times> cachedJob) list" where
  "jobEntries c \<equiv> c_jobs c"

abbreviation (input) activeEntries :: "Caches \<Rightarrow> (serviceRef \<times> cachedActive) list" where
  "activeEntries c \<equiv> c_active c"

abbreviation (input) slotEntries :: "Caches \<Rightarrow> (string \<times> cachedSlot) list" where
  "slotEntries c \<equiv> c_slots c"

section \<open>The Collection listing\<close>

record CollectionView =
  cv_ID :: string
  cv_Origin :: Origin
  cv_State :: State
  cv_Attempt :: int
  cv_ResolvedVersion :: string
  cv_CreatedAt :: time
  cv_FinishedAt :: "time option"
  cv_ExpiresAt :: "time option"

record CollectionPosition =
  pos_CreatedAt :: time
  pos_ID :: string

record CollectionQuery =
  q_States :: "State list"
  q_Since :: time
  q_Origin :: "Origin option"
  q_After :: CollectionPosition
  q_Limit :: int

definition MaxListCollections :: int where "MaxListCollections = 100"

definition admits :: "CollectionQuery \<Rightarrow> cachedJob \<Rightarrow> bool" where
  "admits q j \<longleftrightarrow>
     (if q_States q \<noteq> [] \<and> \<not> List.member (q_States q) (cj_State j) then False
      else if q_Since q \<noteq> zeroTime \<and> cj_CreatedAt j < q_Since q then False
      else if q_Origin q \<noteq> None \<and> q_Origin q \<noteq> Some (cj_Origin j) then False
      else True)"

definition compareListing :: "CollectionPosition \<Rightarrow> CollectionPosition \<Rightarrow> int" where
  "compareListing a b =
     (let cmp = compare3 (pos_CreatedAt b) (pos_CreatedAt a) in
      if cmp \<noteq> 0 then cmp else compare3 (pos_ID b) (pos_ID a))"

definition position :: "CollectionView \<Rightarrow> CollectionPosition" where
  "position v = \<lparr>pos_CreatedAt = cv_CreatedAt v, pos_ID = cv_ID v\<rparr>"

definition viewOf :: "string \<Rightarrow> cachedJob \<Rightarrow> CollectionView" where
  "viewOf i j = \<lparr>cv_ID = i, cv_Origin = cj_Origin j, cv_State = cj_State j, cv_Attempt = cj_Attempt j,
     cv_ResolvedVersion = cj_ResolvedVersion j, cv_CreatedAt = cj_CreatedAt j,
     cv_FinishedAt = cj_FinishedAt j, cv_ExpiresAt = cj_ExpiresAt j\<rparr>"

text \<open>One iteration of the loop over the Service's keys: the view it appends, if any.\<close>

definition listed :: "Caches \<Rightarrow> CollectionQuery \<Rightarrow> string \<Rightarrow> CollectionView option" where
  "listed c q key =
     (case map_of (c_jobs c) key of
        None \<Rightarrow> None
      | Some j \<Rightarrow>
          (case cutPrefix jobPrefix key of
             None \<Rightarrow> None
           | Some i \<Rightarrow>
               if \<not> admits q j then None
               else if pos_ID (q_After q) \<noteq> [] \<and>
                       compareListing \<lparr>pos_CreatedAt = cj_CreatedAt j, pos_ID = i\<rparr> (q_After q) \<le> 0 then None
               else Some (viewOf i j)))"

text \<open>The whole listing behind a page: everything the query keeps, in listing order.\<close>

definition listing :: "string \<Rightarrow> string \<Rightarrow> CollectionQuery \<Rightarrow> Caches \<Rightarrow> CollectionView list" where
  "listing ns svc q c =
     sortFunc (\<lambda>a b. compareListing (position a) (position b))
       (List.map_filter (listed c q)
          (case map_of (c_byService c) (ServiceRef ns svc) of None \<Rightarrow> [] | Some ks \<Rightarrow> ks))"

definition Collections :: "nat \<Rightarrow> nat \<Rightarrow> string \<Rightarrow> string \<Rightarrow> CollectionQuery \<Rightarrow> Caches
    \<Rightarrow> CollectionView list \<times> bool \<times> bool" where
  "Collections cur gen ns svc q c =
     (let limit = (if q_Limit q \<le> 0 \<or> q_Limit q > MaxListCollections then MaxListCollections else q_Limit q)
      in if \<not> syncedLocked cur gen [cacheJobs] c then ([], False, False)
         else let out = listing ns svc q c in
           if int (length out) > limit then (take (nat limit) out, True, True)
           else (out, False, True))"

section \<open>The index invariant\<close>

definition keysOf :: "Caches \<Rightarrow> serviceRef \<Rightarrow> string list" where
  "keysOf c ref = (case map_of (c_byService c) ref of None \<Rightarrow> [] | Some ks \<Rightarrow> ks)"

text \<open>
  \<open>byService\<close> follows \<open>jobs\<close>: it holds exactly the keys of a Service's cached records, no
  empty set, and the cached records sit under keys of valid identifiers.
\<close>

definition index_ok :: "Caches \<Rightarrow> bool" where
  "index_ok c \<longleftrightarrow>
     wf_map (c_jobs c) \<and> wf_map (c_byService c) \<and>
     (\<forall>ref. map_of (c_byService c) ref \<noteq> Some []) \<and>
     (\<forall>ref. distinct (keysOf c ref) \<and>
        set (keysOf c ref) = {k. \<exists>j. map_of (c_jobs c) k = Some j \<and> job_ref j = ref}) \<and>
     (\<forall>k j. map_of (c_jobs c) k = Some j \<longrightarrow> (\<exists>i. k = jobKey i \<and> ValidID i))"

lemma index_okD:
  assumes "index_ok c"
  shows "wf_map (c_jobs c)" "wf_map (c_byService c)" "map_of (c_byService c) ref \<noteq> Some []"
    "distinct (keysOf c ref)" "set (keysOf c ref) = {k. \<exists>j. map_of (c_jobs c) k = Some j \<and> job_ref j = ref}"
    "map_of (c_jobs c) k = Some j \<Longrightarrow> \<exists>i. k = jobKey i \<and> ValidID i"
  using assms unfolding index_ok_def by blast+

text \<open>The invariant depends on two fields only.\<close>

lemma index_ok_cong:
  "c_jobs c' = c_jobs c \<Longrightarrow> c_byService c' = c_byService c \<Longrightarrow> index_ok c' = index_ok c"
  by (simp add: index_ok_def keysOf_def)

lemma keysOf_deleteJob:
  "map_of (c_jobs c) key = Some job \<Longrightarrow>
   keysOf (deleteJob key c) ref = (if ref = job_ref job then removeAll key (keysOf c ref) else keysOf c ref)"
  by (simp add: keysOf_def deleteJob_def Let_def)

lemma jobs_deleteJob [simp]: "map_of (c_jobs (deleteJob key c)) = (map_of (c_jobs c))(key := None)"
  by (auto simp: deleteJob_def Let_def fun_eq_iff split: option.split)

lemma index_ok_deleteJob:
  assumes "index_ok c"
  shows "index_ok (deleteJob key c)"
proof (cases "map_of (c_jobs c) key")
  case None
  then show ?thesis using assms by (simp add: deleteJob_def)
next
  case (Some job)
  note i = index_okD [OF assms]
  have "wf_map (c_jobs (deleteJob key c))" "wf_map (c_byService (deleteJob key c))"
    using Some i(1,2) by (simp_all add: deleteJob_def Let_def)
  moreover have "map_of (c_byService (deleteJob key c)) ref \<noteq> Some []" for ref
    using Some i(3) [of ref] by (auto simp: deleteJob_def Let_def)
  moreover have "distinct (keysOf (deleteJob key c) ref)" for ref
    using i(4) [of ref] by (auto simp: keysOf_deleteJob [OF Some] distinct_removeAll)
  moreover have "set (keysOf (deleteJob key c) ref)
      = {k. \<exists>j. map_of (c_jobs (deleteJob key c)) k = Some j \<and> job_ref j = ref}" for ref
    using i(5) [of ref] Some by (auto simp: keysOf_deleteJob [OF Some] split: if_splits)
  moreover have "\<exists>i. k = jobKey i \<and> ValidID i" if "map_of (c_jobs (deleteJob key c)) k = Some j" for k j
    using that i(6) [of k j] by (auto split: if_splits)
  ultimately show ?thesis unfolding index_ok_def by blast
qed

lemma keysOf_insertJob:
  "keysOf (insertJob key job c) ref =
     (if ref = job_ref job then List.insert key (keysOf c ref) else keysOf c ref)"
  by (simp add: keysOf_def insertJob_def Let_def)

lemma jobs_insertJob [simp]: "map_of (c_jobs (insertJob key job c)) = (map_of (c_jobs c))(key \<mapsto> job)"
  by (simp add: insertJob_def Let_def)

lemma index_ok_insertJob:
  assumes "index_ok c" and "ValidID i" and "key = jobKey i"
    and "\<forall>prev. map_of (c_jobs c) key = Some prev \<longrightarrow> job_ref prev = job_ref job"
  shows "index_ok (insertJob key job c)"
proof -
  note i = index_okD [OF assms(1)]
  have "wf_map (c_jobs (insertJob key job c))" "wf_map (c_byService (insertJob key job c))"
    using i(1,2) by (simp_all add: insertJob_def Let_def)
  moreover have "map_of (c_byService (insertJob key job c)) ref \<noteq> Some []" for ref
    using i(3) [of ref] by (auto simp: insertJob_def Let_def List.insert_def split: option.split)
  moreover have "distinct (keysOf (insertJob key job c) ref)" for ref
    using i(4) [of ref] by (auto simp: keysOf_insertJob)
  moreover have "set (keysOf (insertJob key job c) ref)
      = {k. \<exists>j. map_of (c_jobs (insertJob key job c)) k = Some j \<and> job_ref j = ref}" for ref
    using i(5) [of ref] assms(4) by (auto simp: keysOf_insertJob)
  moreover have "\<exists>i. k = jobKey i \<and> ValidID i" if "map_of (c_jobs (insertJob key job c)) k = Some j" for k j
    using that i(6) [of k j] assms(2,3) by (auto split: if_splits)
  ultimately show ?thesis unfolding index_ok_def by blast
qed

lemma index_ok_applyJob:
  assumes "index_ok c"
  shows "index_ok (applyJob e c)"
proof -
  have "index_ok (insertJob (e_Key e) job (case map_of (c_jobs c) (e_Key e) of None \<Rightarrow> c
      | Some prev \<Rightarrow> if job_ref prev \<noteq> job_ref job then deleteJob (e_Key e) c else c))"
    if "e_Key e = jobKey i" "ValidID i" for job i
    using that assms index_ok_deleteJob [OF assms]
    by (intro index_ok_insertJob) (auto split: option.split)
  then show ?thesis using assms index_ok_deleteJob [OF assms]
    by (auto simp: applyJob_def Let_def cutPrefix_Some jobKey_def split: option.split)
qed

lemma index_fields [simp]:
  "c_jobs (applyOverride e c) = c_jobs c" "c_byService (applyOverride e c) = c_byService c"
  "c_jobs (applyActive e c) = c_jobs c" "c_byService (applyActive e c) = c_byService c"
  "c_jobs (applySlot e c) = c_jobs c" "c_byService (applySlot e c) = c_byService c"
  "c_jobs (pulseSubscribers k c) = c_jobs c" "c_byService (pulseSubscribers k c) = c_byService c"
  by (simp_all add: applyOverride_def applyActive_def applySlot_def pulseSubscribers_def Let_def
      split: option.split prod.split)

lemma index_ok_empty [simp]: "index_ok (c\<lparr>c_jobs := [], c_byService := []\<rparr>)"
  by (simp add: index_ok_def keysOf_def)

lemma index_ok_fields [simp]:
  "index_ok (c\<lparr>c_gen := g\<rparr>) = index_ok c" "index_ok (c\<lparr>c_client := cl\<rparr>) = index_ok c" "index_ok (c\<lparr>c_synced := s\<rparr>) = index_ok c"
  "index_ok (c\<lparr>c_jobPulse := b\<rparr>) = index_ok c" "index_ok (c\<lparr>c_overrides := ov\<rparr>) = index_ok c"
  "index_ok (c\<lparr>c_active := ac\<rparr>) = index_ok c" "index_ok (c\<lparr>c_slots := sl\<rparr>) = index_ok c"
  "index_ok (applyOverride e c) = index_ok c" "index_ok (applyActive e c) = index_ok c"
  "index_ok (applySlot e c) = index_ok c" "index_ok (pulseSubscribers k c) = index_ok c"
  by (rule index_ok_cong; simp)+

lemma index_ok_apply: "index_ok c \<Longrightarrow> index_ok (apply_entry kind e c)"
  by (cases kind) (simp_all add: apply_entry_def Let_def index_ok_applyJob)

lemma index_ok_deliveries: "index_ok c \<Longrightarrow> index_ok (fold (\<lambda>(kind, e). apply_entry kind e) ds c)"
  by (induction ds arbitrary: c) (auto simp: index_ok_apply)

section \<open>Replay\<close>

text \<open>What one delivered entry makes of a cached record.\<close>

definition decoded :: "Entry \<Rightarrow> cachedJob option" where
  "decoded e = (case e_Value e of Some (VJob r) \<Rightarrow> Some (cachedOf r (e_Revision e)) | _ \<Rightarrow> None)"

definition delivered :: "string \<Rightarrow> Entry list \<Rightarrow> cachedJob option \<Rightarrow> cachedJob option" where
  "delivered key es = fold (\<lambda>e m. if e_Synced e \<or> e_Key e \<noteq> key then m else decoded e) es"

lemma jobs_applyJob:
  assumes "ValidID i"
  shows "map_of (c_jobs (applyJob e c)) (jobKey i) =
    (if e_Key e = jobKey i then decoded e else map_of (c_jobs c) (jobKey i))"
  using assms
  by (auto simp: applyJob_def decoded_def Let_def jobKey_def cutPrefix_Some cutPrefix_None
      split: option.split kvval.split)

lemma jobs_apply:
  assumes "ValidID i"
  shows "map_of (c_jobs (apply_entry cacheJobs e c)) (jobKey i) =
    (let m = (if e_Generation e = c_gen c cacheJobs then map_of (c_jobs c) (jobKey i) else None)
     in if e_Synced e \<or> e_Key e \<noteq> jobKey i then m else decoded e)"
  using jobs_applyJob [OF assms] by (simp add: apply_entry_def Let_def)

lemma gen_fields [simp]:
  "c_gen (applyOverride e c) = c_gen c" "c_gen (applyJob e c) = c_gen c" "c_gen (applyActive e c) = c_gen c"
  "c_gen (applySlot e c) = c_gen c" "c_gen (pulseSubscribers k c) = c_gen c" "c_gen (reset kind c) = c_gen c"
  "c_synced (applyOverride e c) = c_synced c" "c_synced (applyJob e c) = c_synced c"
  "c_synced (applyActive e c) = c_synced c" "c_synced (applySlot e c) = c_synced c"
  "c_synced (pulseSubscribers k c) = c_synced c" "c_synced (reset kind c) = c_synced c"
  by (simp_all add: applyOverride_def applyJob_def applyActive_def applySlot_def pulseSubscribers_def
      deleteJob_def insertJob_def Let_def split: option.split prod.split)
     (cases kind; simp)+

lemma gen_apply: "c_gen (apply_entry kind e c) = (c_gen c)(kind := e_Generation e)"
  by (cases kind) (auto simp: apply_entry_def Let_def)

lemma synced_apply:
  "c_synced (apply_entry kind e c) kind' =
     (if kind' = kind then e_Synced e \<or> (c_synced c kind \<and> e_Generation e = c_gen c kind) else c_synced c kind')"
  by (cases kind) (auto simp: apply_entry_def Let_def)

lemma consume_jobs:
  assumes "ValidID i" and "\<forall>e \<in> set es. e_Generation e = g" and "c_gen c cacheJobs = g"
  shows "map_of (c_jobs (consume cacheJobs es c)) (jobKey i) = delivered (jobKey i) es (map_of (c_jobs c) (jobKey i))"
  using assms(2,3)
proof (induction es arbitrary: c)
  case (Cons e es)
  then show ?case
    using jobs_apply [OF assms(1), of e c] gen_apply [of cacheJobs e c]
    by (simp add: consume_def delivered_def Let_def)
qed (simp add: consume_def delivered_def)

lemma replay_aux:
  assumes "ValidID i" and "es \<noteq> []" and "\<forall>e \<in> set es. e_Generation e = g" and "c_gen c cacheJobs \<noteq> g"
  shows "map_of (c_jobs (consume cacheJobs es c)) (jobKey i) = delivered (jobKey i) es None"
proof (cases es)
  case (Cons e es')
  have "c_gen (apply_entry cacheJobs e c) cacheJobs = g" using assms(3) Cons by (simp add: gen_apply)
  then have "map_of (c_jobs (consume cacheJobs es' (apply_entry cacheJobs e c))) (jobKey i)
      = delivered (jobKey i) es' (map_of (c_jobs (apply_entry cacheJobs e c)) (jobKey i))"
    using consume_jobs [OF assms(1), of es' g "apply_entry cacheJobs e c"] assms(3) Cons by simp
  moreover have "map_of (c_jobs (apply_entry cacheJobs e c)) (jobKey i) = delivered (jobKey i) [e] None"
    using jobs_apply [OF assms(1), of e c] assms(3,4) Cons by (auto simp: delivered_def Let_def)
  ultimately show ?thesis using Cons by (simp add: consume_def delivered_def)
qed (use assms(2) in simp)

text \<open>
  a cache delivered under a new generation is a rebuild and not a patch.  After any
  nonempty stretch of job entries of one generation the cache had not seen, the cached record
  of every identifier is what the last entry for its key decodes to, and nothing of the older
  generation remains.\<close>

theorem replay_rebuilds_jobs:
  assumes "ValidID i" and "es \<noteq> []" and "\<forall>e \<in> set es. e_Generation e = g" and "c_gen c cacheJobs \<noteq> g"
  shows "map_of (c_jobs (consume cacheJobs es c)) (jobKey i) =
    fold (\<lambda>e m. if e_Synced e \<or> e_Key e \<noteq> jobKey i then m else decoded e) es None"
  using replay_aux [OF assms] by (simp add: delivered_def)

definition sample_entry :: Entry where
  "sample_entry = \<lparr>e_Key = jobKey ''0123456789abcdefghjk'', e_Value = None, e_Revision = 7, e_Created = 0,
     e_Generation = 2, e_Synced = False\<rparr>"

theorem replay_rebuilds_jobs_witness:
  "map_of (c_jobs (consume cacheJobs [sample_entry] NewCaches)) (jobKey ''0123456789abcdefghjk'') = None"
proof -
  have "ValidID ''0123456789abcdefghjk''" by code_simp
  moreover have "c_gen NewCaches cacheJobs \<noteq> 2" by (simp add: NewCaches_def)
  ultimately show ?thesis
    using replay_rebuilds_jobs [of "''0123456789abcdefghjk''" "[sample_entry]" 2 NewCaches]
    by (simp add: sample_entry_def decoded_def)
qed

text \<open>
  the per-Service index follows the job cache through every delivery.  From empty
  caches and any interleaving of entries of the four watches, each Service's key set is
  exactly the keys of its cached records, without repetition, and no empty set is left.\<close>

theorem index_follows_jobs:
  "index_ok (fold (\<lambda>(kind, e). apply_entry kind e) ds NewCaches)"
proof (rule index_ok_deliveries)
  show "index_ok NewCaches" by (simp add: index_ok_def NewCaches_def keysOf_def)
qed

section \<open>The replay barrier\<close>

definition deliver :: "(cacheKind \<times> Entry) list \<Rightarrow> Caches \<Rightarrow> Caches" where
  "deliver ds c = fold (\<lambda>(kind, e). apply_entry kind e) ds c"

text \<open>One delivery at a time: the flag is up only if a marker of the flag's generation arrived.\<close>

lemma synced_deliver:
  assumes "c_synced (deliver ds c) kind" and "\<not> c_synced c kind"
  shows "\<exists>e. (kind, e) \<in> set ds \<and> e_Synced e \<and> e_Generation e = c_gen (deliver ds c) kind"
  using assms(1)
proof (induction ds rule: rev_induct)
  case (snoc d ds)
  obtain k e where d: "d = (k, e)" by fastforce
  have step: "deliver (ds @ [d]) c = apply_entry k e (deliver ds c)" by (simp add: deliver_def d)
  show ?case
  proof (cases "k = kind \<and> e_Synced e")
    case True
    then show ?thesis using step by (auto simp: d gen_apply)
  next
    case False
    then have "c_synced (deliver ds c) kind" "c_gen (deliver (ds @ [d]) c) kind = c_gen (deliver ds c) kind"
      using snoc.prems by (auto simp: step synced_apply gen_apply split: if_splits)
    then show ?thesis using snoc.IH by auto
  qed
qed (use assms(2) in \<open>simp add: deliver_def\<close>)

text \<open>
  the barrier opens only behind four replays.  Once an attempt has started, the caches
  report \<open>Synced gen\<close> only after each of the four watches has delivered its replay marker
  under \<open>gen\<close>, and none of them has moved to another generation since.\<close>

theorem barrier_needs_every_marker:
  assumes "Synced gen (deliver ds (startAttempt c))"
  shows "\<exists>e. (kind, e) \<in> set ds \<and> e_Synced e \<and> e_Generation e = gen"
proof -
  have "c_synced (deliver ds (startAttempt c)) kind" "c_gen (deliver ds (startAttempt c)) kind = gen"
    using assms by (cases kind; simp add: Synced_def cache_kinds_def)+
  then show ?thesis using synced_deliver [of ds "startAttempt c" kind] by (simp add: startAttempt_def)
qed

definition marker :: "nat \<Rightarrow> Entry" where
  "marker g = \<lparr>e_Key = [], e_Value = None, e_Revision = 0, e_Created = 0, e_Generation = g, e_Synced = True\<rparr>"

theorem barrier_needs_every_marker_witness:
  "\<exists>e. (cacheSlots, e) \<in> set (map (\<lambda>k. (k, marker 3)) cache_kinds) \<and> e_Synced e \<and> e_Generation e = 3"
proof (rule barrier_needs_every_marker)
  show "Synced 3 (deliver (map (\<lambda>k. (k, marker 3)) cache_kinds) (startAttempt NewCaches))"
    by (simp add: Synced_def deliver_def cache_kinds_def synced_apply gen_apply marker_def)
qed

section \<open>The listing\<close>

definition listing_key :: "CollectionPosition \<Rightarrow> time \<times> string" where
  "listing_key p = (pos_CreatedAt p, pos_ID p)"

lemma compareListing_le: "compareListing a b \<le> 0 \<longleftrightarrow> listing_key b \<le> listing_key a"
  and compareListing_less: "compareListing a b < 0 \<longleftrightarrow> listing_key b < listing_key a"
  by (auto simp: compareListing_def compare3_def listing_key_def Let_def)

lemma compareListing_comparison: "comparison (\<lambda>a b. compareListing (f a) (f b))"
  by (auto simp: comparison_def compareListing_le)

lemma filter_sorted_cut:
  assumes "sorted_wrt (\<lambda>a b. (k b :: 'k::linorder) < k a) xs" and "n < length xs"
  shows "filter (\<lambda>u. k u < k (xs ! n)) xs = drop (Suc n) xs"
proof -
  let ?v = "xs ! n"
  have split: "xs = take n xs @ ?v # drop (Suc n) xs" using assms(2) by (rule id_take_nth_drop)
  have "sorted_wrt (\<lambda>a b. k b < k a) (take n xs @ ?v # drop (Suc n) xs)" using assms(1) split by simp
  then have "\<forall>u \<in> set (take n xs). k ?v < k u" "\<forall>u \<in> set (drop (Suc n) xs). k u < k ?v"
    by (auto simp: sorted_wrt_append)
  then have "filter (\<lambda>u. k u < k ?v) (take n xs) = []" "filter (\<lambda>u. k u < k ?v) (drop (Suc n) xs) = drop (Suc n) xs"
    by (auto simp: filter_empty_conv dest: order.asym)
  then show ?thesis using arg_cong [OF split, of "filter (\<lambda>u. k u < k ?v)"] by simp
qed

lemma set_listing:
  assumes "index_ok c"
  shows "set (listing ns svc q c) =
    {viewOf i j |i j. map_of (c_jobs c) (jobKey i) = Some j \<and> job_ref j = ServiceRef ns svc \<and> admits q j \<and>
       (pos_ID (q_After q) \<noteq> [] \<longrightarrow> 0 < compareListing (position (viewOf i j)) (q_After q))}"
  (is "_ = ?R")
proof -
  have "listed c q k = Some v \<and> k \<in> set (keysOf c (ServiceRef ns svc)) \<longleftrightarrow>
      (\<exists>i j. k = jobKey i \<and> v = viewOf i j \<and> map_of (c_jobs c) k = Some j \<and> job_ref j = ServiceRef ns svc \<and>
        admits q j \<and> (pos_ID (q_After q) \<noteq> [] \<longrightarrow> 0 < compareListing (position (viewOf i j)) (q_After q)))" for k v
    using index_okD(5,6) [OF assms]
    by (auto simp: listed_def jobKey_def cutPrefix_Some position_def viewOf_def split: option.split if_splits)
  note iff = this
  have "set (listing ns svc q c) = {v. \<exists>k. listed c q k = Some v \<and> k \<in> set (keysOf c (ServiceRef ns svc))}"
    by (auto simp: listing_def keysOf_def [symmetric] set_map_filter)
  also have "\<dots> = ?R" unfolding iff by blast
  finally show ?thesis .
qed

lemma viewOf_id [simp]: "cv_ID (viewOf i j) = i"
  by (simp add: viewOf_def)

lemma listed_id: "listed c q k = Some v \<Longrightarrow> k = jobKey (cv_ID v)"
  by (auto simp: listed_def jobKey_def cutPrefix_Some split: option.splits if_splits)

lemma distinct_views:
  assumes "distinct ks"
  shows "distinct (map cv_ID (List.map_filter (listed c q) ks))"
  using assms
proof (induction ks)
  case (Cons k ks)
  have "cv_ID v \<notin> cv_ID ` set (List.map_filter (listed c q) ks)" if "listed c q k = Some v" for v
  proof
    assume "cv_ID v \<in> cv_ID ` set (List.map_filter (listed c q) ks)"
    then obtain k' u where "k' \<in> set ks" "listed c q k' = Some u" "cv_ID u = cv_ID v"
      by (auto simp: set_map_filter)
    then have "k' = k" using listed_id that by metis
    then show False using Cons.prems \<open>k' \<in> set ks\<close> by simp
  qed
  then show ?case using Cons by (auto simp: map_filter_simps split: option.split)
qed (simp add: map_filter_simps)

lemma listing_sorted:
  assumes "index_ok c"
  shows "sorted_wrt (\<lambda>a b. listing_key (position b) < listing_key (position a)) (listing ns svc q c)"
proof -
  let ?xs = "List.map_filter (listed c q) (keysOf c (ServiceRef ns svc))"
  have l: "listing ns svc q c = sortFunc (\<lambda>a b. compareListing (position a) (position b)) ?xs"
    by (simp add: listing_def keysOf_def)
  have "sorted_wrt (\<lambda>a b. compareListing (position a) (position b) \<le> 0) (listing ns svc q c)"
    unfolding l by (rule sorted_sortFunc) (rule compareListing_comparison)
  moreover have "sorted_wrt (\<lambda>a b. cv_ID a \<noteq> cv_ID b) (listing ns svc q c)"
    using distinct_views [OF index_okD(4) [OF assms]]
    unfolding l distinct_map_sorted_wrt [symmetric] by (simp add: distinct_map_sortFunc)
  ultimately show ?thesis
    by (rule sorted_wrt_mono_rel [rotated, OF sorted_wrt_conj])
      (auto simp: compareListing_le listing_key_def position_def)
qed

text \<open>Sorting and filtering commute, so a filtered query lists a filtered listing.\<close>

lemma filter_insertFunc:
  assumes "comparison cmp" and "sorted_wrt (\<lambda>a b. cmp a b \<le> 0) ys"
  shows "filter P (insertFunc cmp x ys) = (if P x then insertFunc cmp x (filter P ys) else filter P ys)"
  using assms(2)
proof (induction ys)
  case (Cons y ys)
  have "insertFunc cmp x (filter P (y # ys)) = x # filter P (y # ys)" if le: "cmp x y \<le> 0"
  proof (cases "filter P (y # ys)")
    case (Cons z zs)
    then have "z \<in> set (y # ys)" by (metis filter_is_subset list.set_intros(1) subsetD)
    then have "cmp x z \<le> 0"
      using le Cons.prems assms(1) \<open>sorted_wrt _ (y # ys)\<close> unfolding comparison_def by auto
    then show ?thesis unfolding Cons by simp
  qed simp
  then show ?case using Cons by auto
qed simp

lemma filter_sortFunc: "comparison cmp \<Longrightarrow> filter P (sortFunc cmp xs) = sortFunc cmp (filter P xs)"
  by (induction xs) (simp_all add: filter_insertFunc sorted_sortFunc)

lemma listing_after:
  assumes "cv_ID v \<noteq> []" and "pos_ID (q_After q) \<noteq> [] \<longrightarrow> 0 < compareListing (position v) (q_After q)"
  shows "listing ns svc (q\<lparr>q_After := position v\<rparr>) c =
    filter (\<lambda>u. listing_key (position u) < listing_key (position v)) (listing ns svc q c)"
proof -
  let ?P = "\<lambda>u. listing_key (position u) < listing_key (position v)"
  have one: "listed c (q\<lparr>q_After := position v\<rparr>) k =
      (case listed c q k of None \<Rightarrow> None | Some u \<Rightarrow> if ?P u then Some u else None)" for k
  proof (cases "map_of (c_jobs c) k")
    case (Some j)
    have "admits (q\<lparr>q_After := position v\<rparr>) j = admits q j" by (simp add: admits_def)
    moreover have "pos_ID (position v) \<noteq> []" using assms(1) by (simp add: position_def)
    moreover have "pos_ID (q_After q) \<noteq> [] \<longrightarrow> listing_key (position v) < listing_key (q_After q)"
      using assms(2) compareListing_le [of "position v" "q_After q"] by (auto simp: not_le)
    moreover have "position (viewOf i j) = \<lparr>pos_CreatedAt = cj_CreatedAt j, pos_ID = i\<rparr>" for i
      by (simp add: position_def viewOf_def)
    ultimately show ?thesis using Some
      by (cases "cutPrefix jobPrefix k") (auto simp: listed_def compareListing_le not_le)
  qed (simp add: listed_def)
  have "List.map_filter (listed c (q\<lparr>q_After := position v\<rparr>)) ks = filter ?P (List.map_filter (listed c q) ks)" for ks
    by (induction ks) (auto simp: map_filter_simps one split: option.split)
  then show ?thesis by (simp add: listing_def filter_sortFunc compareListing_comparison)
qed

lemma viewOf_in_listing:
  assumes "index_ok c" and "v \<in> set (listing ns svc q c)"
  shows "cv_ID v \<noteq> []" "pos_ID (q_After q) \<noteq> [] \<longrightarrow> 0 < compareListing (position v) (q_After q)"
proof -
  obtain i j where v: "v = viewOf i j" "map_of (c_jobs c) (jobKey i) = Some j"
    and a: "pos_ID (q_After q) \<noteq> [] \<longrightarrow> 0 < compareListing (position (viewOf i j)) (q_After q)"
    using assms(2) by (auto simp: set_listing [OF assms(1)])
  then have "ValidID i" using index_okD(6) [OF assms(1)] by fastforce
  then show "cv_ID v \<noteq> []" using v by (auto simp: ValidID_def idLength_def)
  show "pos_ID (q_After q) \<noteq> [] \<longrightarrow> 0 < compareListing (position v) (q_After q)" using a v by simp
qed

text \<open>
  C38: the Collection listing is newest first: each entry was created later than the one after
  it, or at the same instant with the greater ID.  It shows exactly the Service's cached records in
  one of the states asked for, created no earlier than \<open>since\<close>, of the origin asked for, each where
  one was, and older than the cursor's position.  A page is a prefix of it of at most the limit, or
  of 100 when the limit is not from 1 to 100, with the flag telling whether anything is left.\<close>

theorem Collections_page:
  assumes "index_ok c" and "syncedLocked cur gen [cacheJobs] c"
    and "limit = (if 1 \<le> q_Limit q \<and> q_Limit q \<le> 100 then q_Limit q else 100)"
  shows "Collections cur gen ns svc q c =
      (take (nat limit) (listing ns svc q c), int (length (listing ns svc q c)) > limit, True)
    \<and> sorted_wrt (\<lambda>a b. cv_CreatedAt b < cv_CreatedAt a \<or> cv_CreatedAt b = cv_CreatedAt a \<and> cv_ID b < cv_ID a) (listing ns svc q c)
    \<and> set (listing ns svc q c) =
        {viewOf i j |i j. map_of (c_jobs c) (jobKey i) = Some j \<and> job_ref j = ServiceRef ns svc \<and>
           (q_States q = [] \<or> cj_State j \<in> set (q_States q)) \<and>
           (q_Since q = zeroTime \<or> q_Since q \<le> cj_CreatedAt j) \<and>
           (q_Origin q = None \<or> q_Origin q = Some (cj_Origin j)) \<and>
           (pos_ID (q_After q) = [] \<or> cj_CreatedAt j < pos_CreatedAt (q_After q) \<or>
             cj_CreatedAt j = pos_CreatedAt (q_After q) \<and> i < pos_ID (q_After q))}"
proof (intro conjI)
  show "Collections cur gen ns svc q c =
      (take (nat limit) (listing ns svc q c), int (length (listing ns svc q c)) > limit, True)"
    using assms(2,3) by (auto simp: Collections_def MaxListCollections_def Let_def)
  show "sorted_wrt (\<lambda>a b. cv_CreatedAt b < cv_CreatedAt a \<or> cv_CreatedAt b = cv_CreatedAt a \<and> cv_ID b < cv_ID a) (listing ns svc q c)"
    by (rule sorted_wrt_mono_rel [OF _ listing_sorted [OF assms(1)]]) (auto simp: listing_key_def position_def)
  have "admits q j \<longleftrightarrow> (q_States q = [] \<or> cj_State j \<in> set (q_States q)) \<and> (q_Since q = zeroTime \<or> q_Since q \<le> cj_CreatedAt j) \<and>
      (q_Origin q = None \<or> q_Origin q = Some (cj_Origin j))" for j
    by (auto simp: admits_def List.member_iff not_less)
  moreover have "0 < compareListing (position (viewOf i j)) (q_After q) \<longleftrightarrow> cj_CreatedAt j < pos_CreatedAt (q_After q) \<or>
      cj_CreatedAt j = pos_CreatedAt (q_After q) \<and> i < pos_ID (q_After q)" for i j
    using compareListing_le [of "position (viewOf i j)" "q_After q"] by (auto simp: not_le [symmetric] listing_key_def position_def viewOf_def)
  ultimately show "set (listing ns svc q c) =
        {viewOf i j |i j. map_of (c_jobs c) (jobKey i) = Some j \<and> job_ref j = ServiceRef ns svc \<and>
           (q_States q = [] \<or> cj_State j \<in> set (q_States q)) \<and>
           (q_Since q = zeroTime \<or> q_Since q \<le> cj_CreatedAt j) \<and>
           (q_Origin q = None \<or> q_Origin q = Some (cj_Origin j)) \<and>
           (pos_ID (q_After q) = [] \<or> cj_CreatedAt j < pos_CreatedAt (q_After q) \<or>
             cj_CreatedAt j = pos_CreatedAt (q_After q) \<and> i < pos_ID (q_After q))}"
    unfolding set_listing [OF assms(1)] by (auto simp: imp_conv_disj)
qed

text \<open>
  a cursor neither skips nor repeats.  The query that continues after the last entry
  of a page lists exactly what the page left: the page followed by that listing is the whole
  listing.\<close>

theorem cursor_continues:
  assumes "index_ok c" and "page = take n (listing ns svc q c)" and "page \<noteq> []"
  shows "listing ns svc q c = page @ listing ns svc (q\<lparr>q_After := position (last page)\<rparr>) c"
proof -
  let ?l = "listing ns svc q c"
  let ?m = "length page - 1"
  have m: "?m < length ?l" "last page = ?l ! ?m" "Suc ?m = length page" "take (length page) ?l = page"
    using assms(2,3) by (auto simp: last_conv_nth min_def)
  then have in_l: "last page \<in> set ?l" by (metis nth_mem)
  have "listing ns svc (q\<lparr>q_After := position (last page)\<rparr>) c = drop (Suc ?m) ?l"
    using listing_after [OF viewOf_in_listing [OF assms(1) in_l]] m
      filter_sorted_cut [OF listing_sorted [OF assms(1)] m(1)] by simp
  then show ?thesis using m append_take_drop_id [of "length page" ?l] by simp
qed

text \<open>A cache of one Service with three Collections, for the witnesses.\<close>

definition sample_job :: "time \<Rightarrow> cachedJob" where
  "sample_job t = \<lparr>cj_Namespace = ''ns'', cj_Service = ''svc'', cj_State = StateCompleted, cj_Revision = 1,
     cj_Origin = OriginAPI, cj_Attempt = 1, cj_ResolvedVersion = [], cj_CreatedAt = t, cj_Artifact = [],
     cj_FinishedAt = None, cj_ExpiresAt = None, cj_ClaimBy = 0, cj_LeaseUntil = None, cj_Deadline = None\<rparr>"

definition sample_caches :: Caches where
  "sample_caches = (insertJob (jobKey ''00000000000000000002'') (sample_job 20)
     (insertJob (jobKey ''00000000000000000001'') (sample_job 10) NewCaches))
       \<lparr>c_client := True, c_synced := (\<lambda>_. True), c_gen := (\<lambda>_. 5)\<rparr>"

definition sample_query :: CollectionQuery where
  "sample_query = \<lparr>q_States = [], q_Since = zeroTime, q_Origin = None,
     q_After = \<lparr>pos_CreatedAt = zeroTime, pos_ID = []\<rparr>, q_Limit = 1\<rparr>"

lemma sample_caches_ok: "index_ok sample_caches"
proof -
  have v: "ValidID ''00000000000000000001''" "ValidID ''00000000000000000002''" by code_simp+
  have "index_ok NewCaches" by (simp add: index_ok_def NewCaches_def keysOf_def)
  then have "index_ok (insertJob (jobKey ''00000000000000000001'') (sample_job 10) NewCaches)"
    using v(1) by (rule index_ok_insertJob) (simp_all add: NewCaches_def)
  then have "index_ok (insertJob (jobKey ''00000000000000000002'') (sample_job 20)
      (insertJob (jobKey ''00000000000000000001'') (sample_job 10) NewCaches))"
    using v(2) by (rule index_ok_insertJob) (simp_all add: NewCaches_def)
  then show ?thesis by (simp add: sample_caches_def)
qed

theorem Collections_page_witness:
  "fst (Collections 5 5 ''ns'' ''svc'' sample_query sample_caches) = [viewOf ''00000000000000000002'' (sample_job 20)]"
proof -
  have "syncedLocked 5 5 [cacheJobs] sample_caches" by (simp add: syncedLocked_def sample_caches_def)
  moreover have "listing ''ns'' ''svc'' sample_query sample_caches =
      [viewOf ''00000000000000000002'' (sample_job 20), viewOf ''00000000000000000001'' (sample_job 10)]"
    by code_simp
  ultimately show ?thesis
    using Collections_page [OF sample_caches_ok, of 5 5 1 sample_query "''ns''" "''svc''"]
    by (simp add: sample_query_def)
qed

theorem cursor_continues_witness:
  "listing ''ns'' ''svc'' sample_query sample_caches =
     take 1 (listing ''ns'' ''svc'' sample_query sample_caches) @
     listing ''ns'' ''svc''
       (sample_query\<lparr>q_After := position (last (take 1 (listing ''ns'' ''svc'' sample_query sample_caches)))\<rparr>) sample_caches"
proof (rule cursor_continues [OF sample_caches_ok refl])
  show "take 1 (listing ''ns'' ''svc'' sample_query sample_caches) \<noteq> []" by code_simp
qed

end
