(* ===== verification/Replica.thy ===== *)
theory Replica
  imports Caches
begin

text \<open>
  One gateway replica: its fixed configuration (\<open>env\<close>: what \<open>NewWorker\<close>,
  \<open>NewPublisher\<close>, \<open>NewSweeper\<close> and \<open>NewScheduler\<close> are given, with the functions of
  the libraries they call) and its own memory (\<open>replica\<close>: the caches, the publisher's
  reservations, the worker's counters and in-flight owners, the sweeper's pass count, the
  scheduler's reported violations, and what was logged and counted).  Every critical section of
  the Go code is one function on this record.

  Reservations and in-flight owners are heap objects the code compares by pointer; the model
  numbers them and keeps the objects in a table.  \<open>rp_started\<close> holds the owner goroutines the
  worker has started: the in-flight entry, the claimed record and the revision it was claimed at.
  A \<open>Panic\<close> event stands for a run-time panic of the Go code.
\<close>

section \<open>Configuration\<close>

text \<open>
  \<open>e_jsize\<close> is the length of a value's JSON encoding, \<open>e_snapHash\<close> the hexadecimal SHA-256
  of a policy's encoding (\<open>SnapshotHash\<close>), and \<open>e_sha\<close> the hexadecimal SHA-256 of a string.
\<close>

record env =
  e_limits :: PGOLimits
  e_defaults :: Policy
  e_leaseTTL :: duration
  e_maxAttempts :: int
  e_jobRetention :: duration
  e_owner :: Owner
  e_jsize :: "kvval \<Rightarrow> nat"
  e_snapHash :: "Policy \<Rightarrow> string"
  e_sha :: "string \<Rightarrow> string"

abbreviation e_maxActive :: "env \<Rightarrow> int" where
  "e_maxActive e \<equiv> lim_MaxActiveCollections (e_limits e)"

abbreviation e_maxLive :: "env \<Rightarrow> int" where
  "e_maxLive e \<equiv> lim_MaxLiveCollections (e_limits e)"

section \<open>Memory\<close>

text \<open>What the log and the metrics recorder are told, in order.\<close>

datatype event =
    Transition string State string
  | CountCollection State
  | CollectionsActive int
  | CollectionDuration duration
  | ScheduleSlot string
  | SweeperDelete string
  | StoreFailure string
  | Logged string
  | Panic string

record Reservation =
  res_ref :: serviceRef
  res_id :: string
  res_done :: bool

record inFlight =
  fl_id :: string
  fl_cutoff :: time
  fl_cancelled :: bool
  fl_done :: bool

record replica =
  rp_caches :: Caches
  rp_generation :: nat
  rp_connSynced :: bool
  rp_viewOK :: bool
  rp_reservations :: "(nat \<times> Reservation) list"
  rp_held :: "nat list"
  rp_active :: int
  rp_stopped :: bool
  rp_flights :: "(nat \<times> inFlight) list"
  rp_inFlight :: "(string \<times> nat) list"
  rp_claims :: int
  rp_started :: "(nat \<times> Record \<times> nat) list"
  rp_sweeps :: nat
  rp_loggedViolations :: "(serviceRef \<times> nat) list"
  rp_events :: "event list"

text \<open>The memory of a replica that has just started.\<close>

definition newReplica :: replica where
  "newReplica = \<lparr>rp_caches = NewCaches, rp_generation = 0, rp_connSynced = False, rp_viewOK = False, rp_reservations = [],
     rp_held = [], rp_active = 0, rp_stopped = False, rp_flights = [], rp_inFlight = [], rp_claims = 0, rp_started = [],
     rp_sweeps = 0, rp_loggedViolations = [], rp_events = []\<rparr>"

text \<open>The replica emits an event and goes on.\<close>

definition emit :: "event \<Rightarrow> (replica, 'a) prog \<Rightarrow> (replica, 'a) prog" where
  "emit ev p = modify (\<lambda>l. l\<lparr>rp_events := rp_events l @ [ev]\<rparr>) p"

text \<open>\<open>logTransition\<close>: the identifier, the state and the reason of a committed record.\<close>

definition logTransition :: "Record \<Rightarrow> (replica, 'a) prog \<Rightarrow> (replica, 'a) prog" where
  "logTransition rec p = emit (Transition (rc_ID rec) (rc_State rec) (rc_Reason rec)) p"

text \<open>
  The barrier every loop passes: the generation, the watches of the connection and the caches
  replayed under it, and a view of it.
\<close>

definition barrier :: "replica \<Rightarrow> bool" where
  "barrier l \<longleftrightarrow> rp_connSynced l \<and> Synced (rp_generation l) (rp_caches l) \<and> rp_viewOK l"

lemma bind_emit [simp]: "bind (emit ev p) f = emit ev (bind p f)"
  by (simp add: emit_def)

lemma bind_logTransition [simp]: "bind (logTransition rec p) f = logTransition rec (bind p f)"
  by (simp add: logTransition_def)

lemma run_emit [simp]: "run (emit ev p) fs w l = run p fs w (l\<lparr>rp_events := rp_events l @ [ev]\<rparr>)"
  by (simp add: emit_def)

lemma run_logTransition [simp]:
  "run (logTransition rec p) fs w l =
     run p fs w (l\<lparr>rp_events := rp_events l @ [Transition (rc_ID rec) (rc_State rec) (rc_Reason rec)]\<rparr>)"
  by (simp add: logTransition_def)

lemma lsafe_emit [simp]: "lsafe Q (emit ev p) l = lsafe Q p (l\<lparr>rp_events := rp_events l @ [ev]\<rparr>)"
  by (simp add: emit_def)

lemma lsafe_logTransition [simp]:
  "lsafe Q (logTransition rec p) l =
     lsafe Q p (l\<lparr>rp_events := rp_events l @ [Transition (rc_ID rec) (rc_State rec) (rc_Reason rec)]\<rparr>)"
  by (simp add: logTransition_def)

section \<open>Fresh reads shared by the loops\<close>

text \<open>
  \<open>readJob\<close>: \<open>Inr None\<close> is a record that is gone, \<open>Inl\<close> a read that said nothing.
\<close>

definition readJob :: "string \<Rightarrow> (kv_err + Record option \<Rightarrow> ('l, 'a) prog) \<Rightarrow> ('l, 'a) prog" where
  "readJob i c = Get JOBS (jobKey i) (\<lambda>r. case r of
       Inl ErrKeyNotFound \<Rightarrow> c (Inr None)
     | Inl e \<Rightarrow> c (Inl e)
     | Inr s \<Rightarrow> (case asJob (s_val s) of None \<Rightarrow> c (Inl ErrOther) | Some rec \<Rightarrow> c (Inr (Some rec))))"

definition readReceipt :: "string \<Rightarrow> (kv_err + (Receipt \<times> nat) option \<Rightarrow> ('l, 'a) prog) \<Rightarrow> ('l, 'a) prog" where
  "readReceipt key c = Get JOBS key (\<lambda>r. case r of
       Inl ErrKeyNotFound \<Rightarrow> c (Inr None)
     | Inl e \<Rightarrow> c (Inl e)
     | Inr s \<Rightarrow> (case asReceipt (s_val s) of None \<Rightarrow> c (Inl ErrOther) | Some x \<Rightarrow> c (Inr (Some (x, s_rev s)))))"

text \<open>\<open>releaseActive\<close>: delete the Service's active key when it names this Collection.\<close>

definition releaseActive :: "Record \<Rightarrow> ('l, unit) prog" where
  "releaseActive rec = Get JOBS (activeKey (rc_Namespace rec) (rc_Service rec)) (\<lambda>r. case r of
       Inl _ \<Rightarrow> Ret ()
     | Inr s \<Rightarrow> (case asActive (s_val s) of
         None \<Rightarrow> Ret ()
       | Some v \<Rightarrow>
           if av_ID v \<noteq> rc_ID rec then Ret ()
           else Delete JOBS (activeKey (rc_Namespace rec) (rc_Service rec)) (s_rev s) (\<lambda>_. Ret ())))"

text \<open>A replica of the shipped configuration, for the examples.\<close>

definition demo_env :: env where
  "demo_env = \<lparr>e_limits = shippedLimits, e_defaults = shippedPolicy, e_leaseTTL = 60 * second, e_maxAttempts = 3,
     e_jobRetention = 168 * hour, e_owner = \<lparr>own_Instance = ''g'', own_Pod = ''p''\<rparr>, e_jsize = (\<lambda>_. 100),
     e_snapHash = (\<lambda>_. ''h''), e_sha = (\<lambda>s. s)\<rparr>"

text \<open>Its memory once the four watches have replayed empty buckets.\<close>

definition demo_ready :: replica where
  "demo_ready = newReplica\<lparr>rp_caches := fold (\<lambda>(kind, en). apply_entry kind en) (map (\<lambda>k. (k, marker 0)) cache_kinds) (startAttempt NewCaches),
     rp_generation := 0, rp_connSynced := True, rp_viewOK := True\<rparr>"

lemma demo_ready_memory [simp]:
  "rp_generation demo_ready = 0" "rp_connSynced demo_ready" "rp_viewOK demo_ready" "rp_held demo_ready = []" "rp_reservations demo_ready = []"
  by (simp_all add: demo_ready_def newReplica_def)

lemma demo_ready_caches [simp]:
  "c_client (rp_caches demo_ready)" "c_gen (rp_caches demo_ready) kind = 0" "c_synced (rp_caches demo_ready) kind"
  "c_overrides (rp_caches demo_ready) = []" "c_jobs (rp_caches demo_ready) = []" "c_active (rp_caches demo_ready) = []"
  "c_byService (rp_caches demo_ready) = []"
  by (cases kind; simp add: demo_ready_def newReplica_def cache_kinds_def NewCaches_def startAttempt_def apply_entry_def marker_def Let_def)+

lemma demo_ready_synced [simp]: "syncedLocked 0 0 kinds (rp_caches demo_ready)"
  by (simp add: syncedLocked_def list_all_iff)

end
