(* ===== verification/Protocol.thy ===== *)
theory Protocol
  imports Rely_Guarantee Replica
begin

text \<open>
  The protocol the replicas follow on the jobs bucket, stated without any program: the
  lifecycle of a record, the invariant every state satisfies, how a state may evolve, and what
  one party may rely on and must guarantee.

  A party owns the identifiers it publishes under (\<open>ids\<close>).  Only the owner creates the record of
  an identifier and only the owner takes it out of \<open>initializing\<close> into a live state; everything
  else about the bucket any party may change within \<open>evolves\<close>.
\<close>

section \<open>The lifecycle of a record\<close>

fun st_leads :: "State \<Rightarrow> State \<Rightarrow> bool" where
  "st_leads StateInitializing t \<longleftrightarrow> (\<forall>s. t \<noteq> StateUnknown s)"
| "st_leads StatePending t \<longleftrightarrow> t \<noteq> StateInitializing \<and> (\<forall>s. t \<noteq> StateUnknown s)"
| "st_leads StateRunning t \<longleftrightarrow> t \<in> {StateRunning, StateCompleted, StateFailed, StateCancelled, StateExpired}"
| "st_leads StateCompleted t \<longleftrightarrow> t \<in> {StateCompleted, StateExpired}"
| "st_leads s t \<longleftrightarrow> t = s"

lemma st_leads_refl [simp]: "st_leads s s"
  by (cases s) simp_all

lemma st_leads_trans: "st_leads a b \<Longrightarrow> st_leads b c \<Longrightarrow> st_leads a c"
  by (cases a; cases b; cases c) auto

lemma st_leads_terminal: "st_leads a b \<Longrightarrow> terminal a \<Longrightarrow> terminal b"
  by (cases a; cases b) auto

text \<open>One write of a live protocol: the edges of the lifecycle, and the states a record may be deleted in.\<close>

fun st_step :: "State \<Rightarrow> State \<Rightarrow> bool" where
  "st_step StateInitializing t \<longleftrightarrow> t = StatePending \<or> t = StateFailed"
| "st_step StatePending t \<longleftrightarrow> t = StateRunning \<or> t = StateFailed \<or> t = StateCancelled"
| "st_step StateRunning t \<longleftrightarrow> t = StateRunning \<or> t = StateCompleted \<or> t = StateFailed \<or> t = StateCancelled"
| "st_step StateCompleted t \<longleftrightarrow> t = StateExpired"
| "st_step _ t \<longleftrightarrow> False"

fun disposable :: "State \<Rightarrow> bool" where
  "disposable StateInitializing = True"
| "disposable StateFailed = True"
| "disposable StateCancelled = True"
| "disposable StateExpired = True"
| "disposable _ = False"

lemma st_step_leads: "st_step s t \<Longrightarrow> st_leads s t"
  by (cases s) auto

text \<open>
  What no write changes of a record, and what a write may change: the fields fixed at
  publication stay, the attempt never falls, the first claim's start and deadline stay, and of
  a terminal record only the state moves.
\<close>

definition rec_leads :: "Record \<Rightarrow> Record \<Rightarrow> bool" where
  "rec_leads r r' \<longleftrightarrow>
     rc_ID r' = rc_ID r \<and> rc_Namespace r' = rc_Namespace r \<and> rc_Service r' = rc_Service r \<and>
     rc_Policy r' = rc_Policy r \<and> rc_IdempotencyKey r' = rc_IdempotencyKey r \<and>
     rc_CreatedBy r' = rc_CreatedBy r \<and> rc_SnapshotHash r' = rc_SnapshotHash r \<and>
     st_leads (rc_State r) (rc_State r') \<and> rc_Attempt r \<le> rc_Attempt r' \<and>
     (rc_StartedAt r \<noteq> None \<longrightarrow> rc_StartedAt r' = rc_StartedAt r \<and> rc_Deadline r' = rc_Deadline r) \<and>
     (terminal (rc_State r) \<longrightarrow> r' = r\<lparr>rc_State := rc_State r'\<rparr>)"

lemma rec_leads_refl [simp]: "rec_leads r r"
  by (simp add: rec_leads_def)

lemma rec_leads_trans:
  assumes "rec_leads a b" and "rec_leads b c"
  shows "rec_leads a c"
proof -
  have "c = a\<lparr>rc_State := rc_State c\<rparr>" if "terminal (rc_State a)"
  proof -
    have "terminal (rc_State b)" using assms(1) that st_leads_terminal by (auto simp: rec_leads_def)
    then have "c = b\<lparr>rc_State := rc_State c\<rparr>" "b = a\<lparr>rc_State := rc_State b\<rparr>"
      using assms that by (auto simp: rec_leads_def)
    then show ?thesis by (metis Record.surjective Record.update_convs(8))
  qed
  then show ?thesis using assms st_leads_trans by (auto simp: rec_leads_def)
qed

section \<open>The invariant\<close>

abbreviation jobs_lookup :: "world \<Rightarrow> string \<Rightarrow> stored option" where
  "jobs_lookup w k \<equiv> lookup (w_jobs w) k"

abbreviation seen :: "world \<Rightarrow> string set" where
  "seen w \<equiv> b_seen (w_jobs w)"

abbreviation last_rev :: "world \<Rightarrow> nat" where
  "last_rev w \<equiv> b_last (w_jobs w)"

definition job_at :: "world \<Rightarrow> string \<Rightarrow> Record option" where
  "job_at w i = (case jobs_lookup w (jobKey i) of None \<Rightarrow> None | Some e \<Rightarrow> asJob (s_val e))"

definition active_at :: "world \<Rightarrow> string \<Rightarrow> string \<Rightarrow> string option" where
  "active_at w ns svc = (case jobs_lookup w (activeKey ns svc) of
     None \<Rightarrow> None | Some e \<Rightarrow> map_option av_ID (asActive (s_val e)))"

definition receipt_at :: "world \<Rightarrow> string \<Rightarrow> Receipt option" where
  "receipt_at w k = (case jobs_lookup w k of None \<Rightarrow> None | Some e \<Rightarrow> asReceipt (s_val e))"

lemma run_releaseActive:
  assumes "run (releaseActive r) [] w l = (u, w', l', fs)"
  shows "w_objs w' = w_objs w" "job_at w' i = job_at w i" "active_at w' (rc_Namespace r) (rc_Service r) \<noteq> Some (rc_ID r)"
  using assms by (auto simp: releaseActive_def kv_ops active_at_def job_at_def split: option.splits if_splits)

definition live :: "State \<Rightarrow> bool" where
  "live s \<longleftrightarrow> s = StatePending \<or> s = StateRunning"

text \<open>A record the store acknowledged the publication of.\<close>

definition published :: "Record \<Rightarrow> bool" where
  "published r \<longleftrightarrow> rc_State r \<noteq> StateInitializing \<and>
     \<not> (rc_State r = StateFailed \<and> rc_Reason r = ReasonNotPublished)"

definition rec_receipt :: "(string \<Rightarrow> string) \<Rightarrow> Record \<Rightarrow> string" where
  "rec_receipt sha r = ReceiptKey sha (rc_CreatedBy r) (rc_Namespace r) (rc_Service r) (rc_IdempotencyKey r)"

text \<open>
  The shape of a stored record: a running one has its lease, start and deadline, one that has not
  ended names no artifact, and the artifact a record names is the one of its own attempt.
\<close>

definition rec_ok :: "Record \<Rightarrow> bool" where
  "rec_ok r \<longleftrightarrow> 0 \<le> rc_Attempt r \<and>
     (rc_StartedAt r \<noteq> None \<longrightarrow> rc_Deadline r \<noteq> None) \<and>
     (rc_State r = StateRunning \<longrightarrow> rc_LeaseUntil r \<noteq> None \<and> rc_StartedAt r \<noteq> None) \<and>
     (\<not> terminal (rc_State r) \<longrightarrow> rc_Artifact r = None) \<and>
     (\<forall>a. rc_Artifact r = Some a \<longrightarrow> art_Object a = [] \<or> art_Object a = artifactName (rc_ID r) (rc_Attempt r))"

definition typed_entries :: "world \<Rightarrow> bool" where
  "typed_entries w \<longleftrightarrow>
     (\<forall>k e. jobs_lookup w k = Some e \<longrightarrow> s_rev e \<le> last_rev w \<and> k \<in> seen w) \<and>
     (\<forall>i e. jobs_lookup w (jobKey i) = Some e \<longrightarrow>
        (\<exists>r. s_val e = VJob r \<and> rc_ID r = i \<and> ValidID i \<and> rec_ok r)) \<and>
     (\<forall>ns svc e. jobs_lookup w (activeKey ns svc) = Some e \<longrightarrow>
        (\<exists>a. s_val e = VActive a \<and> jobKey (av_ID a) \<in> seen w)) \<and>
     (\<forall>k e. hasPrefix receiptPrefix k \<longrightarrow> jobs_lookup w k = Some e \<longrightarrow>
        (\<exists>x. s_val e = VReceipt x \<and> jobKey (rcp_ID x) \<in> seen w))"

definition live_active :: "world \<Rightarrow> bool" where
  "live_active w \<longleftrightarrow>
     (\<forall>i r. job_at w i = Some r \<longrightarrow> live (rc_State r) \<longrightarrow> active_at w (rc_Namespace r) (rc_Service r) = Some i)"

definition keyed_bound :: "(string \<Rightarrow> string) \<Rightarrow> world \<Rightarrow> bool" where
  "keyed_bound sha w \<longleftrightarrow>
     (\<forall>i r. job_at w i = Some r \<longrightarrow> published r \<longrightarrow> rc_IdempotencyKey r \<noteq> [] \<longrightarrow>
        (\<exists>x. receipt_at w (rec_receipt sha r) = Some x \<and> rcp_ID x = i))"

definition receipts_match :: "world \<Rightarrow> bool" where
  "receipts_match w \<longleftrightarrow>
     (\<forall>k x r. hasPrefix receiptPrefix k \<longrightarrow> receipt_at w k = Some x \<longrightarrow> job_at w (rcp_ID x) = Some r \<longrightarrow>
        rcp_SnapshotHash x = rc_SnapshotHash r)"

definition inv :: "(string \<Rightarrow> string) \<Rightarrow> world \<Rightarrow> bool" where
  "inv sha w \<longleftrightarrow> typed_entries w \<and> live_active w \<and> keyed_bound sha w \<and> receipts_match w"

section \<open>Evolution, rely and guarantee\<close>

definition evolves1 :: "world \<Rightarrow> world \<Rightarrow> bool" where
  "evolves1 w w' \<longleftrightarrow>
     last_rev w \<le> last_rev w' \<and> seen w \<subseteq> seen w' \<and>
     (\<forall>k. jobs_lookup w' k = jobs_lookup w k \<or> jobs_lookup w' k = None \<or>
        (\<exists>e. jobs_lookup w' k = Some e \<and> last_rev w < s_rev e)) \<and>
     (\<forall>i. jobKey i \<in> seen w \<longrightarrow> jobs_lookup w (jobKey i) = None \<longrightarrow> jobs_lookup w' (jobKey i) = None) \<and>
     (\<forall>i r r'. job_at w i = Some r \<longrightarrow> job_at w' i = Some r' \<longrightarrow> rec_leads r r')"

definition evolves :: "(string \<Rightarrow> string) \<Rightarrow> world \<Rightarrow> world \<Rightarrow> bool" where
  "evolves sha w w' \<longleftrightarrow> (inv sha w \<longrightarrow> inv sha w' \<and> evolves1 w w')"

text \<open>The Collection an active key or a receipt names.\<close>

fun names :: "kvval \<Rightarrow> string option" where
  "names (VActive a) = Some (av_ID a)"
| "names (VReceipt x) = Some (rcp_ID x)"
| "names _ = None"

text \<open>The keys the protocol says nothing about: slot keys and probes.\<close>

definition other_key :: "string \<Rightarrow> bool" where
  "other_key k \<longleftrightarrow> \<not> hasPrefix jobPrefix k \<and> \<not> hasPrefix activePrefix k \<and> \<not> hasPrefix receiptPrefix k"

text \<open>
  What the others leave alone of the identifiers \<open>ids\<close>: they do not create the record, they
  take it out of \<open>initializing\<close> only into a terminal state, and while it is initializing they
  keep what names it.
\<close>

definition leaves :: "string set \<Rightarrow> world \<Rightarrow> world \<Rightarrow> bool" where
  "leaves ids w w' \<longleftrightarrow> (\<forall>i \<in> ids.
     (jobKey i \<notin> seen w \<longrightarrow> jobKey i \<notin> seen w') \<and>
     (\<forall>e r r'. jobs_lookup w (jobKey i) = Some e \<longrightarrow> s_val e = VJob r \<longrightarrow> rc_State r = StateInitializing \<longrightarrow>
        job_at w' i = Some r' \<longrightarrow> jobs_lookup w' (jobKey i) = Some e \<or> terminal (rc_State r')) \<and>
     (\<forall>e r k s. jobs_lookup w (jobKey i) = Some e \<longrightarrow> s_val e = VJob r \<longrightarrow> rc_State r = StateInitializing \<longrightarrow>
        jobs_lookup w' (jobKey i) = Some e \<longrightarrow> \<not> other_key k \<longrightarrow> jobs_lookup w k = Some s \<longrightarrow>
        names (s_val s) = Some i \<longrightarrow> jobs_lookup w' k = Some s))"

definition rely :: "(string \<Rightarrow> string) \<Rightarrow> string set \<Rightarrow> world \<Rightarrow> world \<Rightarrow> bool" where
  "rely sha ids w w' \<longleftrightarrow> evolves sha w w' \<and> (inv sha w \<longrightarrow> leaves ids w w')"

text \<open>What one write does to the records: it follows an edge, and it deletes no live or completed one.\<close>

definition lawful :: "world \<Rightarrow> world \<Rightarrow> bool" where
  "lawful w w' \<longleftrightarrow>
     (\<forall>i r. job_at w i = Some r \<longrightarrow>
        (case job_at w' i of None \<Rightarrow> disposable (rc_State r) | Some r' \<Rightarrow> r' = r \<or> st_step (rc_State r) (rc_State r')))"

definition guar :: "(string \<Rightarrow> string) \<Rightarrow> string set \<Rightarrow> world \<Rightarrow> world \<Rightarrow> bool" where
  "guar sha ids w w' \<longleftrightarrow> rely sha (- ids) w w' \<and> lawful w w'"

text \<open>
  The replica's caches hold what the bucket held at the revisions they carry, and the overrides
  they hold are of the Services \<open>U\<close> the cluster has.
\<close>

definition truthful_job :: "world \<Rightarrow> string \<Rightarrow> cachedJob \<Rightarrow> bool" where
  "truthful_job w k j \<longleftrightarrow> cj_Revision j \<le> last_rev w \<and>
     (\<forall>e. jobs_lookup w k = Some e \<longrightarrow> s_rev e = cj_Revision j \<longrightarrow>
        (\<exists>r. s_val e = VJob r \<and> j = cachedOf r (s_rev e)))"

definition truthful_active :: "world \<Rightarrow> serviceRef \<Rightarrow> cachedActive \<Rightarrow> bool" where
  "truthful_active w ref a \<longleftrightarrow> ca_Revision a \<le> last_rev w \<and> jobKey (ca_ID a) \<in> seen w \<and>
     (\<forall>e. jobs_lookup w (activeKey (ref_Namespace ref) (ref_Service ref)) = Some e \<longrightarrow>
        s_rev e = ca_Revision a \<longrightarrow> (\<exists>v. s_val e = VActive v \<and> av_ID v = ca_ID a))"

text \<open>What an owner goroutine starts from: the record as claimed, at the revision of the claim.\<close>

definition entry_is :: "world \<Rightarrow> Record \<Rightarrow> nat \<Rightarrow> bool" where
  "entry_is w r rv \<longleftrightarrow> rv \<le> last_rev w \<and> jobKey (rc_ID r) \<in> seen w \<and>
     (\<forall>e. jobs_lookup w (jobKey (rc_ID r)) = Some e \<longrightarrow> s_rev e = rv \<longrightarrow> s_val e = VJob r)"

definition claimed :: "Record \<Rightarrow> bool" where
  "claimed r \<longleftrightarrow> rc_State r = StateRunning \<and> rec_ok r"

definition linv :: "serviceRef set \<Rightarrow> replica \<Rightarrow> world \<Rightarrow> bool" where
  "linv U l w \<longleftrightarrow>
     (\<forall>k j. map_of (c_jobs (rp_caches l)) k = Some j \<longrightarrow> truthful_job w k j \<and> (\<exists>i. k = jobKey i \<and> ValidID i)) \<and>
     (\<forall>ref a. map_of (c_active (rp_caches l)) ref = Some a \<longrightarrow> truthful_active w ref a) \<and>
     (\<forall>(h, r, rv) \<in> set (rp_started l). entry_is w r rv \<and> claimed r) \<and>
     wf_map (c_jobs (rp_caches l)) \<and>
     (\<forall>k s. map_of (c_slots (rp_caches l)) k = Some s \<longrightarrow> hasPrefix slotPrefix k) \<and>
     (\<forall>k \<in> fst ` set (c_overrides (rp_caches l)). \<forall>ns svc.
        splitServiceKey overridePrefix k = Some (ns, svc) \<longrightarrow> ServiceRef ns svc \<in> U)"

section \<open>Reading the invariant\<close>

lemma inv_rev: "inv sha w \<Longrightarrow> jobs_lookup w k = Some e \<Longrightarrow> s_rev e \<le> last_rev w \<and> k \<in> seen w"
  by (auto simp: inv_def typed_entries_def)

lemma inv_job: "inv sha w \<Longrightarrow> jobs_lookup w (jobKey i) = Some e \<Longrightarrow>
    \<exists>r. s_val e = VJob r \<and> rc_ID r = i \<and> ValidID i \<and> rec_ok r"
  by (auto simp: inv_def typed_entries_def)

lemma inv_active: "inv sha w \<Longrightarrow> jobs_lookup w (activeKey ns svc) = Some e \<Longrightarrow>
    \<exists>a. s_val e = VActive a \<and> jobKey (av_ID a) \<in> seen w"
  by (auto simp: inv_def typed_entries_def)

lemma inv_receipt: "inv sha w \<Longrightarrow> hasPrefix receiptPrefix k \<Longrightarrow> jobs_lookup w k = Some e \<Longrightarrow>
    \<exists>x. s_val e = VReceipt x \<and> jobKey (rcp_ID x) \<in> seen w"
  by (auto simp: inv_def typed_entries_def)

lemma inv_live: "inv sha w \<Longrightarrow> job_at w i = Some r \<Longrightarrow> live (rc_State r) \<Longrightarrow>
    active_at w (rc_Namespace r) (rc_Service r) = Some i"
  by (auto simp: inv_def live_active_def)

lemma inv_bound: "inv sha w \<Longrightarrow> job_at w i = Some r \<Longrightarrow> published r \<Longrightarrow> rc_IdempotencyKey r \<noteq> [] \<Longrightarrow>
    \<exists>x. receipt_at w (rec_receipt sha r) = Some x \<and> rcp_ID x = i"
  by (auto simp: inv_def keyed_bound_def)

lemma inv_match: "inv sha w \<Longrightarrow> hasPrefix receiptPrefix k \<Longrightarrow> receipt_at w k = Some x \<Longrightarrow>
    job_at w (rcp_ID x) = Some r \<Longrightarrow> rcp_SnapshotHash x = rc_SnapshotHash r"
  by (auto simp: inv_def receipts_match_def)

lemma job_at_iff: "job_at w i = Some r \<longleftrightarrow> (\<exists>e. jobs_lookup w (jobKey i) = Some e \<and> s_val e = VJob r)"
  by (auto simp: job_at_def split: option.split)

lemma job_at_None: "inv sha w \<Longrightarrow> job_at w i = None \<longleftrightarrow> jobs_lookup w (jobKey i) = None"
  using inv_job [of sha w i] by (auto simp: job_at_def split: option.split)

lemma job_at_seen: "inv sha w \<Longrightarrow> job_at w i = Some r \<Longrightarrow> jobKey i \<in> seen w \<and> rc_ID r = i \<and> ValidID i \<and> rec_ok r"
  using inv_rev inv_job by (fastforce simp: job_at_iff)

lemma active_at_iff:
  "active_at w ns svc = Some i \<longleftrightarrow> (\<exists>e a. jobs_lookup w (activeKey ns svc) = Some e \<and> s_val e = VActive a \<and> av_ID a = i)"
  by (auto simp: active_at_def split: option.split)

lemma receipt_at_iff: "receipt_at w k = Some x \<longleftrightarrow> (\<exists>e. jobs_lookup w k = Some e \<and> s_val e = VReceipt x)"
  by (auto simp: receipt_at_def split: option.split)

lemma receiptPrefix_ReceiptKey [simp]: "hasPrefix receiptPrefix (ReceiptKey sha p n s k)"
  by (simp add: hasPrefix_iff ReceiptKey_def)

lemma receiptPrefix_rec [simp]: "hasPrefix receiptPrefix (rec_receipt sha r)"
  by (simp add: rec_receipt_def)

lemma receiptPrefix_kinds [simp]:
  "\<not> hasPrefix receiptPrefix (jobKey i)" "\<not> hasPrefix receiptPrefix (activeKey ns svc)"
  "\<not> hasPrefix receiptPrefix (slotKey ns svc t)"
  by (simp_all add: hasPrefix_def jobKey_def activeKey_def slotKey_def prefix_defs)

lemma rec_receipt_kinds [simp]:
  "rec_receipt sha r \<noteq> jobKey i" "jobKey i \<noteq> rec_receipt sha r"
  "rec_receipt sha r \<noteq> activeKey ns svc" "activeKey ns svc \<noteq> rec_receipt sha r"
  by (simp_all add: rec_receipt_def)

lemma other_keyD:
  "other_key k \<Longrightarrow> k \<noteq> jobKey i" "other_key k \<Longrightarrow> k \<noteq> activeKey ns svc" "other_key k \<Longrightarrow> k \<noteq> rec_receipt sha r"
  using receiptPrefix_rec [of sha r]
  by (auto simp: other_key_def hasPrefix_iff jobKey_def activeKey_def)

lemma other_slot: "hasPrefix slotPrefix k \<Longrightarrow> other_key k"
  by (auto simp: other_key_def hasPrefix_iff prefix_defs)

lemma other_probe: "hasPrefix probeKeyPrefix k \<Longrightarrow> other_key k"
  by (auto simp: other_key_def hasPrefix_iff prefix_defs)

section \<open>The relations are preorders\<close>

lemma evolves1_refl: "evolves1 w w"
  by (simp add: evolves1_def)

lemma evolves1D:
  assumes "evolves1 w w'"
  shows "last_rev w \<le> last_rev w'" "seen w \<subseteq> seen w'"
    "jobs_lookup w' k = jobs_lookup w k \<or> jobs_lookup w' k = None \<or> (\<exists>e. jobs_lookup w' k = Some e \<and> last_rev w < s_rev e)"
    "jobKey i \<in> seen w \<Longrightarrow> jobs_lookup w (jobKey i) = None \<Longrightarrow> jobs_lookup w' (jobKey i) = None"
    "job_at w i = Some r \<Longrightarrow> job_at w' i = Some r' \<Longrightarrow> rec_leads r r'"
  using assms unfolding evolves1_def by blast+

lemma evolves1_trans:
  assumes "evolves1 u v" and "evolves1 v w" and "inv sha u" and "inv sha v"
  shows "evolves1 u w"
proof -
  note uv = evolves1D [OF assms(1)] and vw = evolves1D [OF assms(2)]
  have last: "last_rev u \<le> last_rev w" and seen: "seen u \<subseteq> seen w" using uv(1,2) vw(1,2) by auto
  have entry: "jobs_lookup w k = jobs_lookup u k \<or> jobs_lookup w k = None \<or>
      (\<exists>e. jobs_lookup w k = Some e \<and> last_rev u < s_rev e)" for k
    using uv(1) uv(3) [of k] vw(3) [of k] by auto
  have gone: "jobs_lookup w (jobKey i) = None" if "jobKey i \<in> seen u" "jobs_lookup u (jobKey i) = None" for i
    using uv(2) uv(4) [OF that] vw(4) [of i] that(1) by auto
  have "rec_leads r r''" if "job_at u i = Some r" "job_at w i = Some r''" for i r r''
  proof -
    have "jobKey i \<in> seen v" using that(1) job_at_seen [OF assms(3)] uv(2) by auto
    moreover have "jobs_lookup w (jobKey i) \<noteq> None" using that(2) by (auto simp: job_at_iff)
    ultimately have "job_at v i \<noteq> None" using vw(4) [of i] job_at_None [OF assms(4), of i] by auto
    then obtain r' where "job_at v i = Some r'" by blast
    then show ?thesis using uv(5) vw(5) that rec_leads_trans by blast
  qed
  then show ?thesis unfolding evolves1_def using last seen entry gone by blast
qed

lemma evolves_refl: "evolves sha w w"
  by (simp add: evolves_def evolves1_refl)

lemma evolves_trans: "evolves sha u v \<Longrightarrow> evolves sha v w \<Longrightarrow> evolves sha u w"
  using evolves1_trans unfolding evolves_def by blast

lemma evolvesD:
  assumes "evolves sha w w'" and "inv sha w"
  shows "inv sha w'" "last_rev w \<le> last_rev w'" "seen w \<subseteq> seen w'"
    "jobs_lookup w' k = jobs_lookup w k \<or> jobs_lookup w' k = None \<or> (\<exists>e. jobs_lookup w' k = Some e \<and> last_rev w < s_rev e)"
    "jobKey i \<in> seen w \<Longrightarrow> jobs_lookup w (jobKey i) = None \<Longrightarrow> jobs_lookup w' (jobKey i) = None"
    "job_at w i = Some r \<Longrightarrow> job_at w' i = Some r' \<Longrightarrow> rec_leads r r'"
  using assms unfolding evolves_def evolves1_def by blast+

lemma leaves_refl: "leaves ids w w"
  by (auto simp: leaves_def)

lemma leaves_trans:
  assumes "leaves ids u v" and "leaves ids v w" and "inv sha u" and "inv sha v" and "evolves sha u v" and "evolves sha v w"
  shows "leaves ids u w"
proof -
  have "jobs_lookup w (jobKey i) = Some e \<or> terminal (rc_State r'')"
    if "i \<in> ids" "jobs_lookup u (jobKey i) = Some e" "s_val e = VJob r" "rc_State r = StateInitializing"
      "job_at w i = Some r''" for i e r r''
  proof (cases "job_at v i")
    case None
    then have "jobs_lookup v (jobKey i) = None" using job_at_None [OF assms(4)] by blast
    moreover have "jobKey i \<in> seen v" using evolvesD(3) [OF assms(5,3)] inv_rev [OF assms(3) that(2)] by blast
    ultimately have "jobs_lookup w (jobKey i) = None" using evolvesD(5) [OF assms(6,4)] by blast
    then show ?thesis using that(5) by (simp add: job_at_iff)
  next
    case (Some r')
    have "jobs_lookup v (jobKey i) = Some e \<or> terminal (rc_State r')"
      using assms(1) that Some unfolding leaves_def by blast
    then show ?thesis
    proof (elim disjE)
      assume "jobs_lookup v (jobKey i) = Some e"
      then show ?thesis using assms(2) that unfolding leaves_def by blast
    next
      assume 2: "terminal (rc_State r')"
      have "rec_leads r' r''" using evolvesD(6) [OF assms(6,4) Some that(5)] by blast
      then show ?thesis using 2 st_leads_terminal by (auto simp: rec_leads_def)
    qed
  qed
  note first = this
  have "jobs_lookup w k = Some s"
    if "i \<in> ids" "jobs_lookup u (jobKey i) = Some e" "s_val e = VJob r" "rc_State r = StateInitializing"
      "jobs_lookup w (jobKey i) = Some e" "\<not> other_key k" "jobs_lookup u k = Some s" "names (s_val s) = Some i"
    for i e r k s
  proof -
    have "s_rev e \<le> last_rev v" using inv_rev [OF assms(3) that(2)] evolvesD(2) [OF assms(5,3)] by auto
    then have mid: "jobs_lookup v (jobKey i) = Some e" using evolvesD(4) [OF assms(6,4), of "jobKey i"] that(5) by auto
    then have "jobs_lookup v k = Some s" using assms(1) that unfolding leaves_def by blast
    then show ?thesis using assms(2) that mid unfolding leaves_def by blast
  qed
  moreover have "jobKey i \<notin> seen w" if "i \<in> ids" "jobKey i \<notin> seen u" for i
    using assms(1,2) that unfolding leaves_def by blast
  ultimately show ?thesis using first unfolding leaves_def by blast
qed

lemma rely_refl: "rely sha ids w w"
  by (simp add: rely_def evolves_refl leaves_refl)

lemma rely_trans: "rely sha ids u v \<Longrightarrow> rely sha ids v w \<Longrightarrow> rely sha ids u w"
  using evolves_trans leaves_trans evolvesD(1) unfolding rely_def by blast

interpretation pr: rely_guarantee "rely sha ids" "guar sha ids" "evolves sha" "inv sha" "linv U" for sha ids U
proof unfold_locales
  show "rely sha ids w w" for w by (rule rely_refl)
  show "rely sha ids u w" if "rely sha ids u v" "rely sha ids v w" for u v w
    using that by (rule rely_trans)
  show "evolves sha v w" if "rely sha ids v w" for v w using that by (simp add: rely_def)
  show "guar sha ids w w" for w by (simp add: guar_def rely_refl lawful_def split: option.split)
  show "evolves sha v w" if "guar sha ids v w" for v w using that by (simp add: guar_def rely_def)
  show "evolves sha u w" if "evolves sha u v" "evolves sha v w" for u v w
    using that by (rule evolves_trans)
qed

text \<open>The memory of a replica stays truthful while the bucket evolves.\<close>

lemma kept_entry:
  assumes "evolves sha w w'" and "inv sha w" and "jobs_lookup w' k = Some e" and "s_rev e \<le> last_rev w"
  shows "jobs_lookup w k = Some e"
  using evolvesD(4) [OF assms(1,2), of k] assms(3,4) by auto

lemma entry_is_stable:
  assumes "entry_is w r rv" and "evolves sha w w'" and "inv sha w"
  shows "entry_is w' r rv"
  using assms(1) evolvesD(2,3) [OF assms(2,3)] evolvesD(4) [OF assms(2,3), of "jobKey (rc_ID r)"]
  unfolding entry_is_def by fastforce

lemma linv_stable:
  assumes "linv U l w" and "evolves sha w w'" and "inv sha w"
  shows "linv U l w'"
proof -
  note ev = evolvesD [OF assms(2,3)]
  have "truthful_job w' k j" if "truthful_job w k j" for k j
    using that ev(2) kept_entry [OF assms(2,3)] unfolding truthful_job_def
    by (metis le_trans)
  moreover have "truthful_active w' ref a" if "truthful_active w ref a" for ref a
    using that ev(2,3) kept_entry [OF assms(2,3)] unfolding truthful_active_def
    by (metis le_trans subset_iff)
  moreover have "entry_is w' r rv" if "entry_is w r rv" for r rv
    using that entry_is_stable [OF _ assms(2,3)] by blast
  ultimately show ?thesis using assms(1) unfolding linv_def by fast
qed

section \<open>The writes of the protocol\<close>

abbreviation wput :: "world \<Rightarrow> string \<Rightarrow> kvval \<Rightarrow> world" where
  "wput w k v \<equiv> w\<lparr>w_jobs := put k v (w_clock w) (w_jobs w)\<rparr>"

abbreviation wrem :: "world \<Rightarrow> string \<Rightarrow> world" where
  "wrem w k \<equiv> w\<lparr>w_jobs := remove k (w_jobs w)\<rparr>"

text \<open>A write keeps the protocol: the invariant holds again and the others' rely is respected.\<close>

definition step_ok :: "(string \<Rightarrow> string) \<Rightarrow> string set \<Rightarrow> world \<Rightarrow> world \<Rightarrow> bool" where
  "step_ok sha ids w w' \<longleftrightarrow> guar sha ids w w' \<and> inv sha w'"

lemma step_okI: "inv sha w' \<Longrightarrow> evolves1 w w' \<Longrightarrow> leaves (- ids) w w' \<Longrightarrow> lawful w w' \<Longrightarrow> step_ok sha ids w w'"
  by (simp add: step_ok_def guar_def rely_def evolves_def)

lemma job_at_put [simp]: "job_at (wput w k v) i = (if k = jobKey i then asJob v else job_at w i)"
  by (auto simp: job_at_def)

lemma active_at_put [simp]:
  "active_at (wput w k v) ns svc = (if k = activeKey ns svc then map_option av_ID (asActive v) else active_at w ns svc)"
  by (auto simp: active_at_def)

lemma receipt_at_put [simp]: "receipt_at (wput w k v) k' = (if k' = k then asReceipt v else receipt_at w k')"
  by (auto simp: receipt_at_def)

lemma job_at_rem [simp]: "job_at (wrem w k) i = (if k = jobKey i then None else job_at w i)"
  by (auto simp: job_at_def)

lemma active_at_rem [simp]: "active_at (wrem w k) ns svc = (if k = activeKey ns svc then None else active_at w ns svc)"
  by (auto simp: active_at_def)

lemma receipt_at_rem [simp]: "receipt_at (wrem w k) k' = (if k' = k then None else receipt_at w k')"
  by (auto simp: receipt_at_def)

definition typed_val :: "world \<Rightarrow> string \<Rightarrow> kvval \<Rightarrow> bool" where
  "typed_val w k v \<longleftrightarrow>
     (\<forall>i. k = jobKey i \<longrightarrow> (\<exists>r. v = VJob r \<and> rc_ID r = i \<and> ValidID i \<and> rec_ok r)) \<and>
     (\<forall>ns svc. k = activeKey ns svc \<longrightarrow> (\<exists>a. v = VActive a \<and> jobKey (av_ID a) \<in> seen w)) \<and>
     (hasPrefix receiptPrefix k \<longrightarrow> (\<exists>x. v = VReceipt x \<and> jobKey (rcp_ID x) \<in> seen w))"

lemma typed_put:
  assumes "typed_entries w" and "typed_val w k v"
  shows "typed_entries (wput w k v)"
proof -
  note t = assms(1) [unfolded typed_entries_def] and v = assms(2) [unfolded typed_val_def]
  have "s_rev e \<le> Suc (last_rev w)" if "jobs_lookup w k' = Some e" for k' e
    using t that by (meson le_SucI)
  moreover have "\<exists>a. s_val e = VActive a \<and> jobKey (av_ID a) \<in> insert k (seen w)"
    if "jobs_lookup (wput w k v) (activeKey ns svc) = Some e" for ns svc e
    using t v that by (fastforce split: if_splits)
  moreover have "\<exists>x. s_val e = VReceipt x \<and> jobKey (rcp_ID x) \<in> insert k (seen w)"
    if "hasPrefix receiptPrefix k'" "jobs_lookup (wput w k v) k' = Some e" for k' e
    using t v that by (fastforce split: if_splits)
  moreover have "\<exists>r. s_val e = VJob r \<and> rc_ID r = i \<and> ValidID i \<and> rec_ok r"
    if "jobs_lookup (wput w k v) (jobKey i) = Some e" for i e
    using t v that by (fastforce split: if_splits)
  ultimately show ?thesis using t unfolding typed_entries_def by auto
qed

lemma typed_rem: "typed_entries w \<Longrightarrow> typed_entries (wrem w k)"
  unfolding typed_entries_def by (auto intro: le_SucI)

lemma evolves1_put:
  assumes "inv sha w"
    and "\<And>i. k = jobKey i \<Longrightarrow> jobKey i \<notin> seen w \<or> (\<exists>r r'. job_at w i = Some r \<and> v = VJob r' \<and> rec_leads r r')"
  shows "evolves1 w (wput w k v)"
proof -
  have "jobs_lookup (wput w k v) (jobKey i) = None" if "jobKey i \<in> seen w" "jobs_lookup w (jobKey i) = None" for i
    using assms(2) [of i] that by (auto simp: job_at_iff)
  moreover have "rec_leads r r'" if "job_at w i = Some r" "job_at (wput w k v) i = Some r'" for i r r'
    using assms(2) [of i] that job_at_seen [OF assms(1) that(1)] by (auto split: if_splits)
  ultimately show ?thesis unfolding evolves1_def by auto
qed

lemma evolves1_rem: "evolves1 w (wrem w k)"
  unfolding evolves1_def by (auto split: if_splits)

lemma leaves_put:
  assumes "\<And>i. k = jobKey i \<Longrightarrow> i \<in> ids \<or>
      (jobKey i \<in> seen w \<and> (\<forall>r. job_at w i = Some r \<longrightarrow> rc_State r = StateInitializing \<longrightarrow>
         (\<forall>r'. v = VJob r' \<longrightarrow> terminal (rc_State r'))))"
    and "\<And>s. \<not> other_key k \<Longrightarrow> jobs_lookup w k = Some s \<Longrightarrow> names (s_val s) = None"
  shows "leaves (- ids) w (wput w k v)"
  unfolding leaves_def using assms by (auto simp: job_at_iff split: if_splits)

lemma leaves_rem:
  assumes "\<And>s i e r. \<not> other_key k \<Longrightarrow> jobs_lookup w k = Some s \<Longrightarrow> names (s_val s) = Some i \<Longrightarrow>
      job_at w i = Some r \<Longrightarrow> rc_State r = StateInitializing \<Longrightarrow> i \<in> ids"
  shows "leaves (- ids) w (wrem w k)"
proof -
  have "k' \<noteq> k" if "i \<notin> ids" "job_at w i = Some r" "rc_State r = StateInitializing" "\<not> other_key k'"
    "jobs_lookup w k' = Some s" "names (s_val s) = Some i" for i r k' s
    using assms that by blast
  then show ?thesis unfolding leaves_def by (auto simp: job_at_iff split: if_splits)
qed

lemma lawful_put:
  assumes "\<And>i r. k = jobKey i \<Longrightarrow> job_at w i = Some r \<Longrightarrow> \<exists>r'. v = VJob r' \<and> st_step (rc_State r) (rc_State r')"
  shows "lawful w (wput w k v)"
  using assms by (fastforce simp: lawful_def split: option.split)

lemma lawful_rem:
  assumes "\<And>i r. k = jobKey i \<Longrightarrow> job_at w i = Some r \<Longrightarrow> disposable (rc_State r)"
  shows "lawful w (wrem w k)"
  using assms by (auto simp: lawful_def split: option.split)

lemma create_job_ok:
  assumes "inv sha w" and "jobKey i \<notin> seen w" and "i \<in> ids" and "ValidID i"
    and "rc_ID r = i" and "rc_State r = StateInitializing" and "rec_ok r"
  shows "step_ok sha ids w (wput w (jobKey i) (VJob r))"
proof (rule step_okI)
  have "\<not> live (rc_State r)" "\<not> published r" using assms(6) by (simp_all add: live_def published_def)
  then show "inv sha (wput w (jobKey i) (VJob r))"
    using assms typed_put [of w "jobKey i" "VJob r"] inv_receipt [OF assms(1)]
    unfolding inv_def live_active_def keyed_bound_def typed_val_def receipts_match_def
    by (auto simp: receipt_at_iff) fastforce
  show "evolves1 w (wput w (jobKey i) (VJob r))" using assms by (intro evolves1_put) auto
  show "leaves (- ids) w (wput w (jobKey i) (VJob r))"
    using assms inv_rev [OF assms(1), of "jobKey i"] by (intro leaves_put) auto
  show "lawful w (wput w (jobKey i) (VJob r))"
    using assms(2) job_at_seen [OF assms(1)] by (intro lawful_put) auto
qed

lemma create_active_ok:
  assumes "inv sha w" and "jobs_lookup w (activeKey ns svc) = None" and "jobKey (av_ID a) \<in> seen w"
  shows "step_ok sha ids w (wput w (activeKey ns svc) (VActive a))"
proof (rule step_okI)
  have "active_at w n s \<noteq> Some i" if "activeKey n s = activeKey ns svc" for n s i
    using assms(2) that by (simp add: active_at_iff)
  then show "inv sha (wput w (activeKey ns svc) (VActive a))"
    using assms typed_put [of w "activeKey ns svc" "VActive a"]
    unfolding inv_def live_active_def keyed_bound_def typed_val_def receipts_match_def
    by auto metis+
  show "evolves1 w (wput w (activeKey ns svc) (VActive a))" using assms by (intro evolves1_put) auto
  show "leaves (- ids) w (wput w (activeKey ns svc) (VActive a))" using assms(2) by (intro leaves_put) auto
  show "lawful w (wput w (activeKey ns svc) (VActive a))" by (intro lawful_put) auto
qed

lemma create_receipt_ok:
  assumes "inv sha w" and "jobs_lookup w k = None" and "hasPrefix receiptPrefix k" and "jobKey (rcp_ID x) \<in> seen w"
    and "\<forall>r. job_at w (rcp_ID x) = Some r \<longrightarrow> rc_SnapshotHash r = rcp_SnapshotHash x"
  shows "step_ok sha ids w (wput w k (VReceipt x))"
proof (rule step_okI)
  have k: "k \<noteq> jobKey i" "k \<noteq> activeKey ns svc" for i ns svc using assms(3) by auto
  have "receipt_at w k \<noteq> Some y" for y using assms(2) by (simp add: receipt_at_iff)
  then show "inv sha (wput w k (VReceipt x))"
    using assms k typed_put [of w k "VReceipt x"]
    unfolding inv_def live_active_def keyed_bound_def typed_val_def receipts_match_def by auto metis+
  show "evolves1 w (wput w k (VReceipt x))" using assms k by (intro evolves1_put) auto
  show "leaves (- ids) w (wput w k (VReceipt x))" using assms(2) k by (intro leaves_put) auto
  show "lawful w (wput w k (VReceipt x))" using k by (intro lawful_put) auto
qed

lemma put_other_ok:
  assumes "inv sha w" and "other_key k"
  shows "step_ok sha ids w (wput w k v)"
proof (rule step_okI)
  note k = other_keyD [OF assms(2)]
  show "inv sha (wput w k v)"
    using assms k typed_put [of w k v]
    unfolding inv_def live_active_def keyed_bound_def typed_val_def receipts_match_def
    by (auto simp: other_key_def)
  show "evolves1 w (wput w k v)" using assms k by (intro evolves1_put) auto
  show "leaves (- ids) w (wput w k v)" using assms(2) k by (intro leaves_put) auto
  show "lawful w (wput w k v)" using k by (intro lawful_put) auto
qed

text \<open>
  An update of a record along the lifecycle.  Leaving \<open>initializing\<close> for anything but
  \<open>failed\<close>/\<open>not_published\<close> is the owner's, and only with the active key and the receipt there.
\<close>

lemma rec_leads_settled:
  assumes "rec_leads r r'" and "\<not> live (rc_State r)" and "rc_State r \<noteq> StateInitializing"
  shows "\<not> live (rc_State r') \<and> (published r' \<longrightarrow> published r)"
proof (cases "terminal (rc_State r)")
  case True
  then have "r' = r\<lparr>rc_State := rc_State r'\<rparr>" using assms(1) by (simp add: rec_leads_def)
  then have "rc_Reason r' = rc_Reason (r\<lparr>rc_State := rc_State r'\<rparr>)" by (rule arg_cong)
  then have "rc_Reason r' = rc_Reason r" by simp
  moreover have "st_leads (rc_State r) (rc_State r')" using assms(1) by (simp add: rec_leads_def)
  ultimately show ?thesis using True by (cases "rc_State r") (auto simp: live_def published_def)
next
  case False
  moreover have "st_leads (rc_State r) (rc_State r')" using assms(1) by (simp add: rec_leads_def)
  ultimately show ?thesis using assms(2,3) by (cases "rc_State r") (auto simp: live_def published_def)
qed

lemma update_job_ok:
  assumes "inv sha w" and "job_at w i = Some r" and "rec_leads r r'" and "rec_ok r'"
    and "rc_State r = StateInitializing \<Longrightarrow>
      (rc_State r' = StateFailed \<and> rc_Reason r' = ReasonNotPublished) \<or>
      (i \<in> ids \<and> active_at w (rc_Namespace r) (rc_Service r) = Some i \<and>
       (rc_IdempotencyKey r \<noteq> [] \<longrightarrow> (\<exists>x. receipt_at w (rec_receipt sha r) = Some x \<and> rcp_ID x = i)))"
    and "st_step (rc_State r) (rc_State r')"
  shows "step_ok sha ids w (wput w (jobKey i) (VJob r'))"
proof (rule step_okI)
  have same: "rc_ID r' = rc_ID r" "rc_Namespace r' = rc_Namespace r" "rc_Service r' = rc_Service r"
    "rec_receipt sha r' = rec_receipt sha r" "rc_IdempotencyKey r' = rc_IdempotencyKey r"
    "rc_SnapshotHash r' = rc_SnapshotHash r"
    using assms(3) by (auto simp: rec_leads_def rec_receipt_def)
  note js = job_at_seen [OF assms(1,2)]
  have act: "active_at w (rc_Namespace r') (rc_Service r') = Some i" if "live (rc_State r')"
  proof (cases "rc_State r = StateInitializing")
    case True
    then show ?thesis using assms(5) that same by (auto simp: live_def)
  next
    case False
    then show ?thesis using that rec_leads_settled [OF assms(3)] inv_live [OF assms(1,2)] same by auto
  qed
  have bnd: "\<exists>x. receipt_at w (rec_receipt sha r') = Some x \<and> rcp_ID x = i"
    if "published r'" "rc_IdempotencyKey r' \<noteq> []"
  proof (cases "rc_State r = StateInitializing")
    case True
    then show ?thesis using assms(5) that same by (auto simp: published_def)
  next
    case False
    have "published r"
      using False that rec_leads_settled [OF assms(3)] by (cases "live (rc_State r)") (auto simp: published_def live_def)
    then show ?thesis using inv_bound [OF assms(1,2)] that same by auto
  qed
  show "inv sha (wput w (jobKey i) (VJob r'))"
    using assms(1,2,4) js same act bnd typed_put [of w "jobKey i" "VJob r'"]
    unfolding inv_def live_active_def keyed_bound_def typed_val_def receipts_match_def
    by auto
  show "evolves1 w (wput w (jobKey i) (VJob r'))" using assms(1-3) by (intro evolves1_put) auto
  show "leaves (- ids) w (wput w (jobKey i) (VJob r'))"
    using assms(2,5) js by (intro leaves_put) (auto simp: job_at_iff)
  show "lawful w (wput w (jobKey i) (VJob r'))" using assms(2,6) by (intro lawful_put) auto
qed

lemma delete_job_ok:
  assumes "inv sha w" and "\<forall>r. job_at w i = Some r \<longrightarrow> disposable (rc_State r)"
  shows "step_ok sha ids w (wrem w (jobKey i))"
proof (rule step_okI)
  show "inv sha (wrem w (jobKey i))"
    using assms(1) typed_rem [of w "jobKey i"]
    unfolding inv_def live_active_def keyed_bound_def receipts_match_def by (auto split: if_splits)
  show "leaves (- ids) w (wrem w (jobKey i))" using inv_job [OF assms(1)] by (intro leaves_rem) fastforce
  show "lawful w (wrem w (jobKey i))" using assms(2) by (intro lawful_rem) auto
qed (rule evolves1_rem)

lemma delete_active_ok:
  assumes "inv sha w" and "active_at w ns svc = Some i"
    and "\<forall>r. job_at w i = Some r \<longrightarrow> terminal (rc_State r) \<or> (i \<in> ids \<and> rc_State r = StateInitializing)"
  shows "step_ok sha ids w (wrem w (activeKey ns svc))"
proof (rule step_okI)
  have "activeKey (rc_Namespace r) (rc_Service r) \<noteq> activeKey ns svc"
    if "job_at w i' = Some r" "live (rc_State r)" for i' r
  proof
    assume "activeKey (rc_Namespace r) (rc_Service r) = activeKey ns svc"
    then have "i' = i" using inv_live [OF assms(1) that] assms(2) by (simp add: active_at_def)
    then show False using assms(3) that by (auto simp: live_def)
  qed
  then have "live_active (wrem w (activeKey ns svc))"
    using inv_live [OF assms(1)] unfolding live_active_def by (auto split: if_splits) metis
  then show "inv sha (wrem w (activeKey ns svc))"
    using assms(1) typed_rem [of w "activeKey ns svc"]
    unfolding inv_def keyed_bound_def receipts_match_def by (auto split: if_splits)
  show "leaves (- ids) w (wrem w (activeKey ns svc))"
    using assms(2,3) by (intro leaves_rem) (auto simp: active_at_iff)
  show "lawful w (wrem w (activeKey ns svc))" by (intro lawful_rem) auto
qed (rule evolves1_rem)

lemma delete_receipt_ok:
  assumes "inv sha w" and "hasPrefix receiptPrefix k" and "receipt_at w k = Some x"
    and "\<forall>r. job_at w (rcp_ID x) = Some r \<longrightarrow> \<not> published r \<and> rc_State r \<noteq> StateInitializing"
  shows "step_ok sha ids w (wrem w k)"
proof (rule step_okI)
  have k: "k \<noteq> jobKey i" "k \<noteq> activeKey ns svc" for i ns svc using assms(2) by auto
  have "rec_receipt sha r \<noteq> k" if "job_at w i = Some r" "published r" "rc_IdempotencyKey r \<noteq> []" for i r
    using inv_bound [OF assms(1) that] assms(3,4) that by auto
  then show "inv sha (wrem w k)"
    using assms(1) k typed_rem [of w k]
    unfolding inv_def live_active_def keyed_bound_def receipts_match_def by (auto split: if_splits)
  show "leaves (- ids) w (wrem w k)"
    using assms(3,4) by (intro leaves_rem) (auto simp: receipt_at_iff)
  show "lawful w (wrem w k)" using k by (intro lawful_rem) auto
qed (rule evolves1_rem)

lemma delete_other_ok:
  assumes "inv sha w" and "other_key k"
  shows "step_ok sha ids w (wrem w k)"
proof (rule step_okI)
  note k = other_keyD [OF assms(2)]
  show "inv sha (wrem w k)"
    using assms k(1,2) k(3) [symmetric] typed_rem [of w k]
    unfolding inv_def live_active_def keyed_bound_def receipts_match_def
    by (auto simp: other_key_def split: if_splits)
  show "leaves (- ids) w (wrem w k)" using assms(2) by (intro leaves_rem) auto
  show "lawful w (wrem w k)" using k by (intro lawful_rem) auto
qed (rule evolves1_rem)

section \<open>Rules for programs under the protocol\<close>

abbreviation psafe :: "serviceRef set \<Rightarrow> (string \<Rightarrow> string) \<Rightarrow> string set \<Rightarrow> ('a \<Rightarrow> world \<Rightarrow> bool) \<Rightarrow> (replica, 'a) prog \<Rightarrow> world \<Rightarrow> bool" where
  "psafe U sha ids Q p w \<equiv> safe (rely sha ids) (guar sha ids) (inv sha) (linv U) Q p w"

lemma linv_caches: "rp_caches l' = rp_caches l \<Longrightarrow> rp_started l' = rp_started l \<Longrightarrow> linv U l' w = linv U l w"
  by (simp add: linv_def)

lemma psafe_modify:
  "(\<And>l. rp_caches (g l) = rp_caches l \<and> rp_started (g l) = rp_started l) \<Longrightarrow> psafe U sha ids Q p w \<Longrightarrow> psafe U sha ids Q (modify g p) w"
  using linv_caches by (intro pr.safe_modify) blast+

lemma psafe_emit [simp]: "psafe U sha ids Q p w \<Longrightarrow> psafe U sha ids Q (emit ev p) w"
  unfolding emit_def by (rule psafe_modify) simp_all

lemma psafe_logTransition [simp]: "psafe U sha ids Q p w \<Longrightarrow> psafe U sha ids Q (logTransition rec p) w"
  unfolding logTransition_def by (rule psafe_emit)

lemma rely_evolves: "rely sha ids w w' \<Longrightarrow> evolves sha w w'"
  by (rule pr.R_E)

lemma step_okD: "step_ok sha ids w w' \<Longrightarrow> guar sha ids w w' \<and> inv sha w' \<and> evolves sha w w'"
  using pr.G_E by (auto simp: step_ok_def)

text \<open>
  The write rules with the error branches stated once: whatever error comes back, the rest must
  be safe in every later world.
\<close>

lemma psafe_Create:
  assumes "\<And>e w'. evolves sha w w' \<Longrightarrow> inv sha w' \<Longrightarrow> e \<noteq> ErrKeyExists \<Longrightarrow> psafe U sha ids Q (c (Inl e)) w'"
    and "\<And>w'. rely sha ids w w' \<Longrightarrow> inv sha w' \<Longrightarrow> jobs_lookup w' k = None \<Longrightarrow>
      step_ok sha ids w' (wput w' k v) \<and>
      (step_ok sha ids w' (wput w' k v) \<longrightarrow> psafe U sha ids Q (c (Inr (Suc (last_rev w')))) (wput w' k v))"
    and "\<And>w' s. rely sha ids w w' \<Longrightarrow> inv sha w' \<Longrightarrow> jobs_lookup w' k = Some s \<Longrightarrow> psafe U sha ids Q (c (Inl ErrKeyExists)) w'"
  shows "psafe U sha ids Q (Create JOBS k v c) w"
proof (rule pr.safe_Create, goal_cases)
  case (1 w' e)
  then show ?case using assms(1) rely_evolves by auto
next
  case (2 w' s)
  then show ?case using assms(3) by simp
next
  case (3 w' w'')
  then have "step_ok sha ids w' w''" "psafe U sha ids Q (c (Inr (Suc (last_rev w')))) w''"
    using assms(2) [of w'] by auto
  moreover from this(1) have "evolves sha w w''" "inv sha w''" "guar sha ids w' w''"
    using step_okD evolves_trans [OF rely_evolves [OF 3(1)]] by blast+
  ultimately show ?case using assms(1) by auto
qed

lemma psafe_Update:
  assumes "\<And>e w'. evolves sha w w' \<Longrightarrow> inv sha w' \<Longrightarrow> psafe U sha ids Q (c (Inl e)) w'"
    and "\<And>w' s. rely sha ids w w' \<Longrightarrow> inv sha w' \<Longrightarrow> jobs_lookup w' k = Some s \<Longrightarrow> s_rev s = x \<Longrightarrow>
      step_ok sha ids w' (wput w' k v) \<and>
      (step_ok sha ids w' (wput w' k v) \<longrightarrow> psafe U sha ids Q (c (Inr (Suc (last_rev w')))) (wput w' k v))"
  shows "psafe U sha ids Q (Update JOBS k v x c) w"
proof (rule pr.safe_Update, goal_cases)
  case (1 w' e)
  then show ?case using assms(1) rely_evolves by blast
next
  case (2 w' w'' s)
  then have "step_ok sha ids w' w''" "psafe U sha ids Q (c (Inr (Suc (last_rev w')))) w''"
    using assms(2) [of w' s] by auto
  moreover from this(1) have "evolves sha w w''" "inv sha w''" "guar sha ids w' w''"
    using step_okD evolves_trans [OF rely_evolves [OF 2(1)]] by blast+
  ultimately show ?case using assms(1) by auto
qed

lemma psafe_Delete:
  assumes "\<And>e w'. evolves sha w w' \<Longrightarrow> inv sha w' \<Longrightarrow> psafe U sha ids Q (c (Some e)) w'"
    and "\<And>w' s. rely sha ids w w' \<Longrightarrow> inv sha w' \<Longrightarrow> jobs_lookup w' k = Some s \<Longrightarrow> s_rev s = x \<Longrightarrow>
      step_ok sha ids w' (wrem w' k) \<and>
      (step_ok sha ids w' (wrem w' k) \<longrightarrow> psafe U sha ids Q (c None) (wrem w' k))"
  shows "psafe U sha ids Q (Delete JOBS k x c) w"
proof (rule pr.safe_Delete, goal_cases)
  case (1 w' e)
  then show ?case using assms(1) rely_evolves by blast
next
  case (2 w' w'' s)
  then have "step_ok sha ids w' w''" "psafe U sha ids Q (c None) w''"
    using assms(2) [of w' s] by auto
  moreover from this(1) have "evolves sha w w''" "inv sha w''" "guar sha ids w' w''"
    using step_okD evolves_trans [OF rely_evolves [OF 2(1)]] by blast+
  ultimately show ?case using assms(1) by auto
qed

text \<open>A delete whose answer is ignored.\<close>

lemma psafe_Delete_any:
  assumes "\<And>w' s. evolves sha w w' \<Longrightarrow> inv sha w' \<Longrightarrow> jobs_lookup w' k = Some s \<Longrightarrow> s_rev s = x \<Longrightarrow>
      step_ok sha ids w' (wrem w' k)"
    and "\<And>d w'. evolves sha w w' \<Longrightarrow> inv sha w' \<Longrightarrow> psafe U sha ids Q (c d) w'"
  shows "psafe U sha ids Q (Delete JOBS k x c) w"
proof (rule psafe_Delete)
  fix w' s assume r: "rely sha ids w w'" "inv sha w'" "jobs_lookup w' k = Some s" "s_rev s = x"
  then have "step_ok sha ids w' (wrem w' k)" using assms(1) rely_evolves by blast
  then show "step_ok sha ids w' (wrem w' k) \<and>
      (step_ok sha ids w' (wrem w' k) \<longrightarrow> psafe U sha ids Q (c None) (wrem w' k))"
    using assms(2) step_okD evolves_trans [OF rely_evolves [OF r(1)]] by blast
qed (rule assms(2))

lemma objs_ok:
  "inv sha w \<Longrightarrow> guar sha ids w (w\<lparr>w_objs := x\<rparr>) \<and> rely sha ids w (w\<lparr>w_objs := x\<rparr>) \<and> inv sha (w\<lparr>w_objs := x\<rparr>)"
proof -
  assume "inv sha w"
  then have "inv sha (w\<lparr>w_objs := x\<rparr>)"
    by (simp add: inv_def typed_entries_def live_active_def keyed_bound_def receipts_match_def
        job_at_def active_at_def receipt_at_def)
  moreover have "evolves1 w (w\<lparr>w_objs := x\<rparr>)" by (auto simp: evolves1_def job_at_def)
  moreover have "leaves i w (w\<lparr>w_objs := x\<rparr>)" for i by (auto simp: leaves_def job_at_def)
  moreover have "lawful w (w\<lparr>w_objs := x\<rparr>)" by (auto simp: lawful_def job_at_def split: option.split)
  ultimately show ?thesis by (simp add: guar_def rely_def evolves_def)
qed

text \<open>A write to the configuration bucket is no concern of the protocol.\<close>

lemma config_ok:
  "inv sha w \<Longrightarrow> guar sha ids w (w\<lparr>w_config := x\<rparr>) \<and> inv sha (w\<lparr>w_config := x\<rparr>)"
proof -
  assume "inv sha w"
  then have "inv sha (w\<lparr>w_config := x\<rparr>)"
    by (simp add: inv_def typed_entries_def live_active_def keyed_bound_def receipts_match_def
        job_at_def active_at_def receipt_at_def)
  moreover have "evolves1 w (w\<lparr>w_config := x\<rparr>)" by (auto simp: evolves1_def job_at_def)
  moreover have "leaves i w (w\<lparr>w_config := x\<rparr>)" for i by (auto simp: leaves_def job_at_def)
  moreover have "lawful w (w\<lparr>w_config := x\<rparr>)" by (auto simp: lawful_def job_at_def split: option.split)
  ultimately show ?thesis by (simp add: guar_def rely_def evolves_def)
qed

lemma psafe_Drop: "(\<And>r. psafe U sha ids Q (c r) w) \<Longrightarrow> psafe U sha ids Q (Drop name c) w"
  using objs_ok by (intro pr.safe_Drop)

lemma psafe_Put: "(\<And>r. psafe U sha ids Q (c r) w) \<Longrightarrow> psafe U sha ids Q (Put name sz c) w"
  using objs_ok by (intro pr.safe_Put)

text \<open>One entry read twice at one revision is one entry.\<close>

lemma same_entry:
  assumes "evolves sha w w'" and "inv sha w" and "jobs_lookup w k = Some s" and "jobs_lookup w' k = Some s'"
    and "s_rev s' = s_rev s"
  shows "s' = s"
  using evolvesD(4) [OF assms(1,2), of k] inv_rev [OF assms(2,3)] assms(3-5) by auto

lemma psafe_readJob:
  assumes "\<And>w' e. rely sha ids w w' \<Longrightarrow> inv sha w' \<Longrightarrow> psafe U sha ids Q (c (Inl e)) w'"
    and "\<And>w'. rely sha ids w w' \<Longrightarrow> inv sha w' \<Longrightarrow> jobs_lookup w' (jobKey i) = None \<Longrightarrow> psafe U sha ids Q (c (Inr None)) w'"
    and "\<And>w' r. rely sha ids w w' \<Longrightarrow> inv sha w' \<Longrightarrow> job_at w' i = Some r \<Longrightarrow> psafe U sha ids Q (c (Inr (Some r))) w'"
  shows "psafe U sha ids Q (readJob i c) w"
  unfolding readJob_def
proof (rule pr.safe_Get, goal_cases)
  case (1 w' e)
  then show ?case using assms(1) by (cases e) auto
next
  case (2 w')
  then show ?case using assms(2) by simp
next
  case (3 w' s)
  then obtain r where "s_val s = VJob r" using inv_job by fastforce
  then show ?case using 3 assms(3) [of w' r] by (simp add: job_at_def)
qed

lemma psafe_readReceipt:
  assumes "\<And>w' e. rely sha ids w w' \<Longrightarrow> inv sha w' \<Longrightarrow> psafe U sha ids Q (c (Inl e)) w'"
    and "\<And>w'. rely sha ids w w' \<Longrightarrow> inv sha w' \<Longrightarrow> psafe U sha ids Q (c (Inr None)) w'"
    and "\<And>w' s x. rely sha ids w w' \<Longrightarrow> inv sha w' \<Longrightarrow> jobs_lookup w' k = Some s \<Longrightarrow> s_val s = VReceipt x \<Longrightarrow>
      psafe U sha ids Q (c (Inr (Some (x, s_rev s)))) w'"
  shows "psafe U sha ids Q (readReceipt k c) w"
  unfolding readReceipt_def
proof (rule pr.safe_Get, goal_cases)
  case (1 w' e)
  then show ?case using assms(1) by (cases e) auto
next
  case (2 w')
  then show ?case using assms(2) by simp
next
  case (3 w' s)
  then show ?case using assms(1,3) by (auto split: option.split)
qed

text \<open>A Collection that has ended: its record is terminal or gone, and stays so.\<close>

definition settled :: "world \<Rightarrow> string \<Rightarrow> bool" where
  "settled w i \<longleftrightarrow> jobKey i \<in> seen w \<and> (\<forall>r. job_at w i = Some r \<longrightarrow> terminal (rc_State r))"

lemma settled_stable:
  assumes "settled w i" and "evolves sha w w'" and "inv sha w"
  shows "settled w' i"
proof -
  note ev = evolvesD [OF assms(2,3)]
  have "terminal (rc_State r')" if "job_at w' i = Some r'" for r'
  proof (cases "job_at w i")
    case None
    then have "jobs_lookup w' (jobKey i) = None" using ev(5) [of i] assms(1) job_at_None [OF assms(3)] by (auto simp: settled_def)
    then show ?thesis using that by (simp add: job_at_iff)
  next
    case (Some r)
    then show ?thesis using ev(6) [OF Some that] assms(1) st_leads_terminal by (auto simp: settled_def rec_leads_def)
  qed
  then show ?thesis using assms(1) ev(3) by (auto simp: settled_def)
qed

lemma psafe_releaseActive:
  assumes "inv sha w" and "settled w (rc_ID rec)"
  shows "psafe U sha ids (\<lambda>_ _. True) (releaseActive rec) w"
  unfolding releaseActive_def
proof (rule pr.safe_Get, goal_cases)
  case (3 w' s)
  have st: "settled w' (rc_ID rec)" using settled_stable [OF assms(2) rely_evolves [OF 3(1)] assms(1)] .
  have "step_ok sha ids w'' (wrem w'' (activeKey (rc_Namespace rec) (rc_Service rec)))"
    if "s_val s = VActive a" "av_ID a = rc_ID rec" "evolves sha w' w''" "inv sha w''"
      "jobs_lookup w'' (activeKey (rc_Namespace rec) (rc_Service rec)) = Some s''" "s_rev s'' = s_rev s" for a w'' s''
  proof (rule delete_active_ok [OF that(4)])
    have "s'' = s" using same_entry [OF that(3) 3(2) _ that(5,6)] 3(3) by simp
    then show "active_at w'' (rc_Namespace rec) (rc_Service rec) = Some (rc_ID rec)"
      using that by (auto simp: active_at_iff)
    show "\<forall>r. job_at w'' (rc_ID rec) = Some r \<longrightarrow> terminal (rc_State r) \<or> (rc_ID rec \<in> ids \<and> rc_State r = StateInitializing)"
      using settled_stable [OF st that(3) 3(2)] by (auto simp: settled_def)
  qed
  then show ?case by (auto split: option.split intro!: psafe_Delete_any)
qed simp_all

text \<open>An update of a record the program knows at its revision.\<close>

lemma psafe_update_entry:
  assumes inv: "inv sha w" and ent: "entry_is w r rv" and lead: "rec_leads r r'" and ok: "rec_ok r \<Longrightarrow> rec_ok r'"
    and edge: "st_step (rc_State r) (rc_State r')"
    and init: "rc_State r = StateInitializing \<Longrightarrow> rc_State r' = StateFailed \<and> rc_Reason r' = ReasonNotPublished"
    and err: "\<And>e w'. evolves sha w w' \<Longrightarrow> inv sha w' \<Longrightarrow> psafe U sha ids Q (c (Inl e)) w'"
    and cont: "\<And>v w'. evolves sha w w' \<Longrightarrow> inv sha w' \<Longrightarrow> entry_is w' r' v \<Longrightarrow> job_at w' (rc_ID r) = Some r' \<Longrightarrow>
      psafe U sha ids Q (c (Inr v)) w'"
  shows "psafe U sha ids Q (Update JOBS (jobKey (rc_ID r)) (VJob r') rv c) w"
proof (rule psafe_Update, goal_cases)
  case (1 e w')
  then show ?case by (rule err)
next
  case (2 w' s)
  let ?w = "wput w' (jobKey (rc_ID r)) (VJob r')"
  have "entry_is w' r rv" using entry_is_stable [OF ent rely_evolves [OF 2(1)] inv] .
  then have s: "s_val s = VJob r" using 2(3,4) by (simp add: entry_is_def)
  then have at: "job_at w' (rc_ID r) = Some r" using 2(3) by (simp add: job_at_iff)
  have "rec_ok r'" using ok inv_job [OF 2(2,3)] s by auto
  then have st: "step_ok sha ids w' ?w" using init edge by (intro update_job_ok [OF 2(2) at lead]) auto
  moreover have "entry_is ?w r' (Suc (last_rev w'))" using lead by (auto simp: entry_is_def rec_leads_def)
  moreover have "evolves sha w ?w" "inv sha ?w"
    using step_okD [OF st] evolves_trans [OF rely_evolves [OF 2(1)]] by blast+
  ultimately show ?case using cont [of ?w] by simp
qed

text \<open>
  A party that owns \<open>ids\<close> may run a program written for a smaller set: the identifiers outside
  that set are left alone by the program and by the others alike.
\<close>

lemma leaves_mono: "leaves ids w w' \<Longrightarrow> ids' \<subseteq> ids \<Longrightarrow> leaves ids' w w'"
  unfolding leaves_def by blast

lemma rely_mono: "rely sha ids w w' \<Longrightarrow> ids' \<subseteq> ids \<Longrightarrow> rely sha ids' w w'"
  using leaves_mono unfolding rely_def by blast

lemma psafe_frame:
  assumes "psafe U sha ids' Q p w" and "ids' \<subseteq> ids"
  shows "psafe U sha ids (\<lambda>a w'. Q a w' \<and> rely sha (ids - ids') w w') p w"
proof (rule safe_frame_aux [where R = "rely sha ids'" and G = "guar sha ids'", OF _ _ _ _ _ assms(1) rely_refl])
  show "rely sha ids' v w" if "rely sha ids v w" for v w using rely_mono [OF that assms(2)] .
  show "guar sha ids v w" if "guar sha ids' v w" for v w
    using that rely_mono [of sha "- ids'" v w "- ids"] assms(2) by (auto simp: guar_def)
  show "rely sha (ids - ids') v w" if "rely sha ids v w" for v w using rely_mono [OF that] by blast
  show "rely sha (ids - ids') v w" if "guar sha ids' v w" for v w
    using that rely_mono [of sha "- ids'" v w "ids - ids'"] by (auto simp: guar_def)
qed (rule rely_trans)

lemma rely_unseen: "rely sha ids w w' \<Longrightarrow> inv sha w \<Longrightarrow> i \<in> ids \<Longrightarrow> jobKey i \<notin> seen w \<Longrightarrow> jobKey i \<notin> seen w'"
  unfolding rely_def leaves_def by blast

end
