(* ===== verification/Publisher.thy ===== *)
theory Publisher
  imports Protocol
begin

text \<open>
  The publisher of one replica (\<open>internal/pgo/publisher.go\<close>): the reservations against the
  live-Collection ceiling, the writes of a publication in their order, the receipt write with
  its one retry and its stale branch, and the release rule.

  The contexts of the Go code are not modelled: a call whose context ended answers
  \<open>ErrUnavailable\<close>, which every call may do here.
\<close>

section \<open>Reservations\<close>

datatype reserve_err = StaleCaches | ErrCapacityExhausted

definition Reserve :: "env \<Rightarrow> nat \<Rightarrow> string \<Rightarrow> string \<Rightarrow> replica \<Rightarrow> (reserve_err + nat) \<times> replica" where
  "Reserve e gen ns svc l =
     (let (n, ok) = cachedLive (rp_generation l) gen (rp_caches l) in
      if \<not> ok then (Inl StaleCaches, l)
      else if n + int (length (rp_held l)) \<ge> e_maxLive e then (Inl ErrCapacityExhausted, l)
      else let h = length (rp_reservations l) in
        (Inr h, l\<lparr>rp_reservations := rp_reservations l @
                    [(h, \<lparr>res_ref = ServiceRef ns svc, res_id = [], res_done = False\<rparr>)],
                  rp_held := rp_held l @ [h]\<rparr>))"

definition Track :: "nat \<Rightarrow> string \<Rightarrow> replica \<Rightarrow> replica" where
  "Track h i l =
     (case map_of (rp_reservations l) h of
        None \<Rightarrow> l
      | Some r \<Rightarrow> l\<lparr>rp_reservations := map_put h (r\<lparr>res_id := i\<rparr>) (rp_reservations l)\<rparr>)"

definition releaseLocked :: "nat \<Rightarrow> replica \<Rightarrow> replica" where
  "releaseLocked h l =
     (case map_of (rp_reservations l) h of
        None \<Rightarrow> l
      | Some r \<Rightarrow>
          if res_done r then l
          else l\<lparr>rp_reservations := map_put h (r\<lparr>res_done := True\<rparr>) (rp_reservations l),
                 rp_held := remove1 h (rp_held l)\<rparr>)"

abbreviation Release :: "nat \<Rightarrow> (replica, 'a) prog \<Rightarrow> (replica, 'a) prog" where
  "Release h p \<equiv> modify (releaseLocked h) p"

section \<open>Publication\<close>

record PublishInput =
  pi_Namespace :: string
  pi_Service :: string
  pi_Origin :: Origin
  pi_Slot :: time
  pi_ClaimBy :: time
  pi_ConfigRevision :: nat
  pi_Policy :: Policy
  pi_CreatedBy :: string
  pi_IdempotencyKey :: string

datatype Outcome = OutcomeWon | OutcomeBusy

datatype pub_err = PubTooLarge | PubStore kv_err

definition publish_record :: "env \<Rightarrow> string \<Rightarrow> time \<Rightarrow> PublishInput \<Rightarrow> Record" where
  "publish_record e i now inp = \<lparr>
     rc_ID = i, rc_Namespace = pi_Namespace inp, rc_Service = pi_Service inp, rc_Origin = pi_Origin inp,
     rc_Slot = (if pi_Slot inp \<noteq> zeroTime then formatRFC3339 (pi_Slot inp) else []),
     rc_ConfigRevision = pi_ConfigRevision inp, rc_Policy = pi_Policy inp, rc_State = StateInitializing,
     rc_Attempt = 0, rc_Owner = None, rc_ClaimBy = pi_ClaimBy inp, rc_LeaseUntil = None,
     rc_Deadline = None, rc_Reason = [], rc_ResolvedVersion = [], rc_Progress = zeroProgress,
     rc_Manifest = None, rc_Artifact = None, rc_IdempotencyKey = pi_IdempotencyKey inp,
     rc_SnapshotHash = e_snapHash e (pi_Policy inp), rc_CreatedBy = pi_CreatedBy inp, rc_CreatedAt = now,
     rc_StartedAt = None, rc_FinishedAt = None, rc_ExpiresAt = None\<rparr>"

text \<open>
  \<open>createReceipt\<close>: \<open>None\<close> is success, \<open>Some\<close> the error the caller withdraws on.
  \<open>receiptAgain\<close> is the write after a stale receipt was deleted and \<open>receiptExisting\<close> what follows
  a key that is taken.
\<close>

definition receiptAgain :: "string \<Rightarrow> kvval \<Rightarrow> ('l, kv_err option) prog" where
  "receiptAgain key val = Create JOBS key val (\<lambda>r. case r of Inl err \<Rightarrow> Ret (Some err) | Inr _ \<Rightarrow> Ret None)"

definition receiptExisting :: "string \<Rightarrow> string \<Rightarrow> kvval \<Rightarrow> ('l, kv_err option) prog" where
  "receiptExisting i key val = readReceipt key (\<lambda>r. case r of
       Inl _ \<Rightarrow> Ret (Some ErrKeyExists)
     | Inr None \<Rightarrow> Ret (Some ErrKeyExists)
     | Inr (Some (x, rv)) \<Rightarrow>
         if rcp_ID x = i then Ret None
         else readJob (rcp_ID x) (\<lambda>j. case j of
             Inr None \<Rightarrow> Delete JOBS key rv (\<lambda>d. case d of Some err \<Rightarrow> Ret (Some err) | None \<Rightarrow> receiptAgain key val)
           | _ \<Rightarrow> Ret (Some ErrKeyExists)))"

definition receiptDecide :: "string \<Rightarrow> string \<Rightarrow> kvval \<Rightarrow> kv_err + nat \<Rightarrow> ('l, kv_err option) prog" where
  "receiptDecide i key val r = (case r of
       Inr _ \<Rightarrow> Ret None
     | Inl err \<Rightarrow> if err = ErrKeyExists then receiptExisting i key val else Ret (Some err))"

definition createReceipt :: "env \<Rightarrow> string \<Rightarrow> time \<Rightarrow> string \<Rightarrow> PublishInput \<Rightarrow> ('l, kv_err option) prog" where
  "createReceipt e i now hash inp =
     (let key = ReceiptKey (e_sha e) (pi_CreatedBy inp) (pi_Namespace inp) (pi_Service inp) (pi_IdempotencyKey inp);
          val = VReceipt \<lparr>rcp_ID = i, rcp_SnapshotHash = hash, rcp_CreatedAt = now\<rparr>
      in Create JOBS key val (\<lambda>r.
           if r = Inl ErrUnavailable then Create JOBS key val (receiptDecide i key val)
           else receiptDecide i key val r))"

definition withdraw :: "string \<Rightarrow> nat \<Rightarrow> nat \<Rightarrow> PublishInput \<Rightarrow> (replica, 'a) prog \<Rightarrow> (replica, 'a) prog" where
  "withdraw i rv activeRev inp p =
     Delete JOBS (jobKey i) rv (\<lambda>_.
     Delete JOBS (activeKey (pi_Namespace inp) (pi_Service inp)) activeRev (\<lambda>_.
     emit (Logged ''withdrew'') p))"

definition discardLostRecord :: "nat \<Rightarrow> string \<Rightarrow> nat \<Rightarrow> (replica, 'a) prog \<Rightarrow> (replica, 'a) prog" where
  "discardLostRecord h i rv p =
     Delete JOBS (jobKey i) rv (\<lambda>d.
       if d = Some ErrUnavailable then modify (Track h i) (emit (Logged ''discard indeterminate'') p)
       else if d \<noteq> None \<and> d \<noteq> Some ErrKeyNotFound \<and> d \<noteq> Some ErrRevisionMismatch
         then emit (Logged ''discard failed'') (Release h p)
       else Release h p)"

text \<open>
  \<open>Publish\<close>, in the order of its writes: the record, the active key, the receipt of a keyed
  request, the update to pending.  Its arguments are the bytes \<open>crypto/rand\<close> gave and the handle
  of the reservation the caller took; the result is the identifier with the error or the outcome.
\<close>

definition publishPending :: "env \<Rightarrow> string \<Rightarrow> Record \<Rightarrow> nat \<Rightarrow> (replica, string \<times> (pub_err + Outcome)) prog" where
  "publishPending e i rec rv =
     (let pending = rec\<lparr>rc_State := StatePending\<rparr> in
      case MarshalBounded (e_jsize e) (VJob pending) of
        Inl _ \<Rightarrow> Ret (i, Inl PubTooLarge)
      | Inr value \<Rightarrow>
          Update JOBS (jobKey i) value rv (\<lambda>u. case u of
            Inl err \<Rightarrow> Ret (i, Inl (PubStore err))
          | Inr _ \<Rightarrow> logTransition pending (Ret (i, Inr OutcomeWon))))"

definition publishBound :: "env \<Rightarrow> string \<Rightarrow> time \<Rightarrow> Record \<Rightarrow> nat \<Rightarrow> nat \<Rightarrow> PublishInput
    \<Rightarrow> (replica, string \<times> (pub_err + Outcome)) prog" where
  "publishBound e i now rec rv activeRev inp =
     bind (if pi_IdempotencyKey inp \<noteq> [] then createReceipt e i now (rc_SnapshotHash rec) inp else Ret None)
       (\<lambda>rerr. case rerr of
          Some err \<Rightarrow> withdraw i rv activeRev inp (Ret (i, Inl (PubStore err)))
        | None \<Rightarrow> publishPending e i rec rv)"

definition publishActive :: "env \<Rightarrow> nat \<Rightarrow> string \<Rightarrow> time \<Rightarrow> Record \<Rightarrow> nat \<Rightarrow> PublishInput
    \<Rightarrow> (replica, string \<times> (pub_err + Outcome)) prog" where
  "publishActive e h i now rec rv inp =
     Create JOBS (activeKey (pi_Namespace inp) (pi_Service inp)) (VActive \<lparr>av_ID = i, av_CreatedAt = now\<rparr>) (\<lambda>a.
       if a = Inl ErrKeyExists then discardLostRecord h i rv (Ret (i, Inr OutcomeBusy))
       else modify (Track h i) (case a of
           Inl err \<Rightarrow> Ret (i, Inl (PubStore err))
         | Inr activeRev \<Rightarrow> publishBound e i now rec rv activeRev inp))"

definition Publish :: "env \<Rightarrow> 8 word list \<Rightarrow> nat \<Rightarrow> PublishInput \<Rightarrow> (replica, string \<times> (pub_err + Outcome)) prog" where
  "Publish e buf h inp =
     (let i = newID buf in
      Now (\<lambda>now.
        let rec = publish_record e i now inp in
        case MarshalBounded (e_jsize e) (VJob rec) of
          Inl _ \<Rightarrow> Release h (Ret (i, Inl PubTooLarge))
        | Inr value \<Rightarrow>
            Create JOBS (jobKey i) value (\<lambda>r. case r of
              Inl err \<Rightarrow>
                if err = ErrUnavailable then modify (Track h i) (Ret (i, Inl (PubStore err)))
                else Release h (Ret (i, Inl (PubStore err)))
            | Inr rv \<Rightarrow> logTransition rec (publishActive e h i now rec rv inp))))"

section \<open>The release rule\<close>

text \<open>\<open>resolved\<close>: whether one tracked reservation is counted elsewhere or left nothing behind.\<close>

definition resolved :: "string \<Rightarrow> serviceRef \<Rightarrow> (bool \<Rightarrow> (replica, 'a) prog) \<Rightarrow> (replica, 'a) prog" where
  "resolved i ref c = inspect (\<lambda>l.
     if hasJob i (rp_caches l) then c True
     else if activeID (ref_Namespace ref) (ref_Service ref) (rp_caches l) = Some i then c True
     else readJob i (\<lambda>j. case j of
         Inl _ \<Rightarrow> c False
       | Inr jr \<Rightarrow>
           if (case jr of None \<Rightarrow> False | Some rec \<Rightarrow> \<not> terminal (rc_State rec)) then c False
           else Get JOBS (activeKey (ref_Namespace ref) (ref_Service ref)) (\<lambda>a. case a of
               Inl err \<Rightarrow> c (err = ErrKeyNotFound)
             | Inr s \<Rightarrow> (case asActive (s_val s) of
                   None \<Rightarrow> emit (Logged ''active key is not readable'') (c False)
                 | Some v \<Rightarrow> c (av_ID v \<noteq> i)))))"

definition trackedReservations :: "replica \<Rightarrow> (nat \<times> string \<times> serviceRef) list" where
  "trackedReservations l =
     List.map_filter (\<lambda>h. case map_of (rp_reservations l) h of
         None \<Rightarrow> None
       | Some r \<Rightarrow> if res_id r \<noteq> [] then Some (h, res_id r, res_ref r) else None) (rp_held l)"

definition ReleaseResolved :: "(replica, unit) prog" where
  "ReleaseResolved = inspect (\<lambda>l.
     forEach (\<lambda>(h, i, ref). resolved i ref (\<lambda>b. if b then Release h (Ret ()) else Ret ()))
       (trackedReservations l))"

section \<open>What a publication knows of its own record\<close>

text \<open>
  \<open>mine\<close>: the record of \<open>i\<close> still stands as this publication created it, or someone ended it, or
  it is gone.  \<open>keeps\<close>: as long as it stands, the entry at \<open>k\<close> names it.
\<close>

definition mine :: "string \<Rightarrow> Record \<Rightarrow> nat \<Rightarrow> world \<Rightarrow> bool" where
  "mine i rec rv w \<longleftrightarrow> rc_State rec = StateInitializing \<and> rc_ID rec = i \<and> jobKey i \<in> seen w \<and> rv \<le> last_rev w \<and>
     (\<forall>e. jobs_lookup w (jobKey i) = Some e \<longrightarrow> (s_rev e = rv \<and> s_val e = VJob rec) \<or>
        (s_rev e \<noteq> rv \<and> (\<exists>r. s_val e = VJob r \<and> rec_leads rec r \<and> terminal (rc_State r))))"

definition keeps :: "string \<Rightarrow> nat \<Rightarrow> string \<Rightarrow> world \<Rightarrow> bool" where
  "keeps i rv k w \<longleftrightarrow> \<not> other_key k \<and> k \<noteq> jobKey i \<and>
     (\<forall>e. jobs_lookup w (jobKey i) = Some e \<longrightarrow> s_rev e = rv \<longrightarrow>
        (\<exists>s. jobs_lookup w k = Some s \<and> names (s_val s) = Some i))"

text \<open>An entry written at a known revision names the Collection for as long as it stands.\<close>

definition entry_names :: "string \<Rightarrow> nat \<Rightarrow> string \<Rightarrow> world \<Rightarrow> bool" where
  "entry_names i rv k w \<longleftrightarrow> rv \<le> last_rev w \<and>
     (\<forall>s. jobs_lookup w k = Some s \<longrightarrow> s_rev s = rv \<longrightarrow> names (s_val s) = Some i)"

lemma mine_stable:
  assumes "mine i rec rv w" and "rely sha ids w w'" and "inv sha w" and "i \<in> ids"
  shows "mine i rec rv w'"
proof -
  note ev = evolvesD [OF rely_evolves [OF assms(2)] assms(3)]
  have "(s_rev e' = rv \<and> s_val e' = VJob rec) \<or>
      (s_rev e' \<noteq> rv \<and> (\<exists>r. s_val e' = VJob r \<and> rec_leads rec r \<and> terminal (rc_State r)))"
    if e': "jobs_lookup w' (jobKey i) = Some e'" for e'
  proof -
    obtain r' where r': "s_val e' = VJob r'" "job_at w' i = Some r'"
      using inv_job [OF ev(1) e'] e' by (auto simp: job_at_iff)
    have "jobs_lookup w (jobKey i) \<noteq> None" using ev(5) [of i] assms(1) e' by (auto simp: mine_def)
    then obtain e where e: "jobs_lookup w (jobKey i) = Some e" by blast
    then obtain r where r: "s_val e = VJob r" "job_at w i = Some r"
      using inv_job [OF assms(3) e] by (auto simp: job_at_iff)
    have lead: "rec_leads rec r'"
      using assms(1) e r ev(6) [OF r(2) r'(2)] rec_leads_trans unfolding mine_def by (metis kvval.inject(1))
    have same: "e' = e" if "s_rev e' = rv"
      using that ev(4) [of "jobKey i"] e e' assms(1) by (auto simp: mine_def)
    show ?thesis
    proof (cases "e' = e")
      case True
      then show ?thesis using assms(1) e by (simp add: mine_def)
    next
      case False
      then have ne: "s_rev e' \<noteq> rv" using same by blast
      have "terminal (rc_State r')"
      proof (cases "s_val e = VJob rec")
        case True
        then have "leaves ids w w'" "rc_State rec = StateInitializing"
          using assms(1-3) by (auto simp: rely_def mine_def)
        then show ?thesis using True assms(4) e e' r'(2) False unfolding leaves_def by (metis option.inject)
      next
        case False
        then have "terminal (rc_State r)" using assms(1) e r by (auto simp: mine_def)
        then show ?thesis using ev(6) [OF r(2) r'(2)] st_leads_terminal by (auto simp: rec_leads_def)
      qed
      then show ?thesis using ne r' lead by blast
    qed
  qed
  then show ?thesis using assms(1) ev(2,3) by (auto simp: mine_def)
qed

lemma keeps_stable:
  assumes "keeps i rv k w" and "mine i rec rv w" and "rely sha ids w w'" and "inv sha w" and "i \<in> ids"
  shows "keeps i rv k w'"
proof -
  have "\<exists>s. jobs_lookup w' k = Some s \<and> names (s_val s) = Some i"
    if e: "jobs_lookup w' (jobKey i) = Some e" "s_rev e = rv" for e
  proof -
    have e0: "jobs_lookup w (jobKey i) = Some e"
      using evolvesD(4) [OF rely_evolves [OF assms(3)] assms(4), of "jobKey i"] e assms(2) by (auto simp: mine_def)
    then have "s_val e = VJob rec" "rc_State rec = StateInitializing" using assms(2) e(2) by (auto simp: mine_def)
    moreover obtain s where "jobs_lookup w k = Some s" "names (s_val s) = Some i" "\<not> other_key k"
      using assms(1) e0 e(2) by (auto simp: keeps_def)
    moreover have "leaves ids w w'" using assms(3,4) by (simp add: rely_def)
    ultimately show ?thesis using assms(5) e0 e(1) unfolding leaves_def by blast
  qed
  then show ?thesis using assms(1) by (auto simp: keeps_def)
qed

lemma entry_names_stable:
  "entry_names i rv k w \<Longrightarrow> evolves sha w w' \<Longrightarrow> inv sha w \<Longrightarrow> entry_names i rv k w'"
  using evolvesD(2) [of sha w w'] evolvesD(4) [of sha w w' k] by (fastforce simp: entry_names_def)

text \<open>Writing under another key keeps what the publication knows.\<close>

lemma mine_put: "k \<noteq> jobKey i \<Longrightarrow> mine i rec rv w \<Longrightarrow> mine i rec rv (wput w k v)"
  by (auto simp: mine_def)

lemma mine_rem: "k \<noteq> jobKey i \<Longrightarrow> mine i rec rv w \<Longrightarrow> mine i rec rv (wrem w k)"
  by (auto simp: mine_def)

lemma keeps_put: "keeps i rv k w \<Longrightarrow> k' \<noteq> jobKey i \<Longrightarrow> jobs_lookup w k' = None \<Longrightarrow> keeps i rv k (wput w k' v)"
  by (auto simp: keeps_def)

lemma keeps_written: "k \<noteq> jobKey i \<Longrightarrow> \<not> other_key k \<Longrightarrow> names v = Some i \<Longrightarrow> keeps i rv k (wput w k v)"
  by (auto simp: keeps_def)

lemma keeps_rem: "keeps i rv k w \<Longrightarrow> k' \<noteq> k \<Longrightarrow> k' \<noteq> jobKey i \<Longrightarrow> keeps i rv k (wrem w k')"
  by (auto simp: keeps_def)

lemma protocol_keys [simp]: "\<not> other_key (activeKey ns svc)" "\<not> other_key (ReceiptKey sha p n s k)"
  by (simp_all add: other_key_def hasPrefix_iff activeKey_def ReceiptKey_def)

section \<open>The publication keeps the protocol\<close>

text \<open>The three together, for the record and the active key of one Service.\<close>

definition owns :: "(string \<Rightarrow> string) \<Rightarrow> string \<Rightarrow> Record \<Rightarrow> nat \<Rightarrow> string \<Rightarrow> string \<Rightarrow> world \<Rightarrow> bool" where
  "owns sha i rec rv ns svc w \<longleftrightarrow> inv sha w \<and> mine i rec rv w \<and> keeps i rv (activeKey ns svc) w"

lemma owns_stable: "owns sha i rec rv ns svc w \<Longrightarrow> rely sha ids w w' \<Longrightarrow> i \<in> ids \<Longrightarrow> owns sha i rec rv ns svc w'"
  using mine_stable keeps_stable evolvesD(1) rely_evolves unfolding owns_def by metis

lemma owns_keeps_stable:
  "owns sha i rec rv ns svc w \<Longrightarrow> keeps i rv k w \<Longrightarrow> rely sha ids w w' \<Longrightarrow> i \<in> ids \<Longrightarrow> keeps i rv k w'"
  using keeps_stable unfolding owns_def by blast

text \<open>What the receipt write leaves behind.\<close>

definition receipt_post :: "(string \<Rightarrow> string) \<Rightarrow> string \<Rightarrow> Record \<Rightarrow> nat \<Rightarrow> string \<Rightarrow> string \<Rightarrow> string
    \<Rightarrow> kv_err option \<Rightarrow> world \<Rightarrow> bool" where
  "receipt_post sha i rec rv ns svc key res w \<longleftrightarrow>
     owns sha i rec rv ns svc w \<and> (res = None \<longrightarrow> keeps i rv key w)"

lemma receipt_Some: "owns sha i rec rv ns svc w \<Longrightarrow> i \<in> ids \<Longrightarrow>
    psafe U sha ids (receipt_post sha i rec rv ns svc key) (Ret (Some err)) w"
  by (intro pr.safe_Ret) (auto simp: receipt_post_def intro: owns_stable)

lemma receipt_None: "owns sha i rec rv ns svc w \<Longrightarrow> keeps i rv key w \<Longrightarrow> i \<in> ids \<Longrightarrow>
    psafe U sha ids (receipt_post sha i rec rv ns svc key) (Ret None) w"
  by (intro pr.safe_Ret) (auto simp: receipt_post_def intro: owns_stable owns_keeps_stable)

lemma psafe_create_own_receipt:
  assumes o: "owns sha i rec rv ns svc w" and i: "i \<in> ids"
    and h: "rcp_ID x = i" "rcp_SnapshotHash x = rc_SnapshotHash rec" and key: "key = ReceiptKey sha' p n s q"
    and ok: "\<And>w' r. owns sha i rec rv ns svc w' \<Longrightarrow> keeps i rv key w' \<Longrightarrow> psafe U sha ids Q (c (Inr r)) w'"
    and err: "\<And>w' e. owns sha i rec rv ns svc w' \<Longrightarrow> psafe U sha ids Q (c (Inl e)) w'"
  shows "psafe U sha ids Q (Create JOBS key (VReceipt x) c) w"
proof (rule pr.safe_Create, goal_cases)
  case (1 w' e)
  then show ?case using err owns_stable [OF o _ i] by blast
next
  case (2 w' s)
  then show ?case using err owns_stable [OF o _ i] by blast
next
  case (3 w' w'')
  have m': "mine i rec rv w'" and k': "keeps i rv (activeKey ns svc) w'"
    using 3 owns_stable [OF o _ i] by (auto simp: owns_def)
  have "rc_SnapshotHash r = rcp_SnapshotHash x" if "job_at w' (rcp_ID x) = Some r" for r
    using m' that h by (auto simp: mine_def job_at_iff rec_leads_def)
  then have ok': "step_ok sha ids w' w''"
    using 3 h key m' by (auto intro!: create_receipt_ok simp: mine_def)
  have "owns sha i rec rv ns svc w''"
    using 3 m' k' key h ok' by (auto intro!: mine_put keeps_put simp: owns_def step_ok_def)
  moreover have "keeps i rv key w''" using 3 key h by (auto intro!: keeps_written)
  ultimately show ?case using ok' step_okD ok err by blast
qed

lemma psafe_receiptAgain:
  assumes "owns sha i rec rv ns svc w" and "i \<in> ids" and "rcp_ID x = i" and "rcp_SnapshotHash x = rc_SnapshotHash rec"
    and "key = ReceiptKey sha' p n s q"
  shows "psafe U sha ids (receipt_post sha i rec rv ns svc key) (receiptAgain key (VReceipt x)) w"
  unfolding receiptAgain_def using assms receipt_Some receipt_None
  by (intro psafe_create_own_receipt [OF assms]) simp_all

lemma psafe_stale_delete:
  assumes o: "owns sha i rec rv ns svc w" and i: "i \<in> ids"
    and h: "rcp_ID x = i" "rcp_SnapshotHash x = rc_SnapshotHash rec" and key: "key = ReceiptKey sha' p n s q"
    and stale: "entry_names y rv' key w" "jobKey y \<in> seen w" "jobs_lookup w (jobKey y) = None"
  shows "psafe U sha ids (receipt_post sha i rec rv ns svc key)
    (Delete JOBS key rv' (\<lambda>d. case d of Some err \<Rightarrow> Ret (Some err) | None \<Rightarrow> receiptAgain key (VReceipt x))) w"
proof (rule pr.safe_Delete, goal_cases)
  case (1 w' e)
  then show ?case using receipt_Some owns_stable [OF o _ i] i by simp
next
  case (2 w' w'' s)
  have iw: "inv sha w" using o by (simp add: owns_def)
  have o': "owns sha i rec rv ns svc w'" using 2 owns_stable [OF o _ i] by blast
  have "names (s_val s) = Some y"
    using entry_names_stable [OF stale(1) rely_evolves [OF 2(1)] iw] 2(3,4) by (auto simp: entry_names_def)
  then obtain x' where "receipt_at w' key = Some x'" "rcp_ID x' = y"
    using inv_receipt [OF 2(2), of key s] 2(3) key by (auto simp: receipt_at_iff)
  moreover have "jobs_lookup w' (jobKey y) = None"
    using evolvesD(5) [OF rely_evolves [OF 2(1)] iw stale(2,3)] .
  ultimately have "step_ok sha ids w' w''" using 2 key by (auto intro!: delete_receipt_ok simp: job_at_iff)
  moreover from this have "owns sha i rec rv ns svc w''"
    using o' 2(5) key by (auto intro!: mine_rem keeps_rem simp: owns_def step_ok_def)
  ultimately show ?case using step_okD psafe_receiptAgain [OF _ i h key] receipt_Some i by simp
qed

lemma psafe_receiptExisting:
  assumes o: "owns sha i rec rv ns svc w" and i: "i \<in> ids"
    and h: "rcp_ID x = i" "rcp_SnapshotHash x = rc_SnapshotHash rec" and key: "key = ReceiptKey sha' p n s q"
  shows "psafe U sha ids (receipt_post sha i rec rv ns svc key) (receiptExisting i key (VReceipt x)) w"
  unfolding receiptExisting_def
proof (rule psafe_readReceipt, goal_cases)
  case (3 w' s y)
  have o': "owns sha i rec rv ns svc w'" using 3 owns_stable [OF o _ i] by blast
  have y: "entry_names (rcp_ID y) (s_rev s) key w'" "jobKey (rcp_ID y) \<in> seen w'"
    using 3 inv_rev [OF 3(2,3)] inv_receipt [OF 3(2) _ 3(3)] key by (auto simp: entry_names_def)
  have "keeps i rv key w'" if "rcp_ID y = i" using that 3 key by (auto simp: keeps_def)
  moreover have "psafe U sha ids (receipt_post sha i rec rv ns svc key)
      (readJob (rcp_ID y) (\<lambda>j. case j of
         Inr None \<Rightarrow> Delete JOBS key (s_rev s) (\<lambda>d. case d of Some err \<Rightarrow> Ret (Some err) | None \<Rightarrow> receiptAgain key (VReceipt x))
       | _ \<Rightarrow> Ret (Some ErrKeyExists))) w'"
  proof (rule psafe_readJob, goal_cases)
    case (2 w2)
    have "entry_names (rcp_ID y) (s_rev s) key w2" "jobKey (rcp_ID y) \<in> seen w2"
      using y entry_names_stable [OF y(1)] evolvesD(3) rely_evolves [OF 2(1)] 3(2) by blast+
    then show ?case using psafe_stale_delete [OF owns_stable [OF o' 2(1) i] i h key] 2(3) by simp
  qed (use receipt_Some owns_stable [OF o' _ i] i in simp_all)
  ultimately show ?case using receipt_None [OF o'] i by simp
qed (use receipt_Some owns_stable [OF o _ i] i in simp_all)

lemma psafe_receiptDecide:
  assumes "owns sha i rec rv ns svc w" and "i \<in> ids" and "rcp_ID x = i" and "rcp_SnapshotHash x = rc_SnapshotHash rec"
    and "key = ReceiptKey sha' p n s q" and "\<And>v. r = Inr v \<Longrightarrow> keeps i rv key w"
  shows "psafe U sha ids (receipt_post sha i rec rv ns svc key) (receiptDecide i key (VReceipt x) r) w"
  using assms receipt_Some receipt_None psafe_receiptExisting [OF assms(1-5)]
  by (auto simp: receiptDecide_def split: sum.split)

lemma psafe_createReceipt:
  assumes o: "owns (e_sha e) i rec rv ns svc w" and i: "i \<in> ids" and hash: "hash = rc_SnapshotHash rec"
    and key: "key = ReceiptKey (e_sha e) (pi_CreatedBy inp) (pi_Namespace inp) (pi_Service inp) (pi_IdempotencyKey inp)"
  shows "psafe U (e_sha e) ids (receipt_post (e_sha e) i rec rv ns svc key) (createReceipt e i now hash inp) w"
proof -
  let ?x = "\<lparr>rcp_ID = i, rcp_SnapshotHash = hash, rcp_CreatedAt = now\<rparr>"
  have h: "rcp_ID ?x = i" "rcp_SnapshotHash ?x = rc_SnapshotHash rec" using hash by simp_all
  note dec = psafe_receiptDecide [OF _ i h key]
  have "psafe U (e_sha e) ids (receipt_post (e_sha e) i rec rv ns svc key)
      (Create JOBS key (VReceipt ?x) (receiptDecide i key (VReceipt ?x))) w'"
    if "owns (e_sha e) i rec rv ns svc w'" for w'
    by (rule psafe_create_own_receipt [OF that i h key]) (auto intro: dec)
  then show ?thesis
    unfolding createReceipt_def Let_def key [symmetric]
    by (intro psafe_create_own_receipt [OF o i h key]) (auto intro: dec)
qed

lemma caches_Track [simp]: "rp_caches (Track h i l) = rp_caches l" "rp_started (Track h i l) = rp_started l"
  by (simp_all add: Track_def split: option.split)

lemma caches_releaseLocked [simp]:
  "rp_caches (releaseLocked h l) = rp_caches l" "rp_started (releaseLocked h l) = rp_started l"
  by (simp_all add: releaseLocked_def split: option.split)

lemma psafe_Release [simp]: "psafe U sha ids Q p w \<Longrightarrow> psafe U sha ids Q (Release h p) w"
  by (rule psafe_modify) simp_all

lemma mine_disposable: "mine i rec rv w \<Longrightarrow> jobs_lookup w (jobKey i) = Some s \<Longrightarrow> s_rev s = rv \<Longrightarrow>
    job_at w i = Some r \<Longrightarrow> disposable (rc_State r)"
  by (auto simp: mine_def job_at_iff)

lemma psafe_discardLostRecord:
  assumes "mine i rec rv w" and "inv sha w" and "i \<in> ids"
  shows "psafe U sha ids (\<lambda>_ _. True) (discardLostRecord h i rv (Ret a)) w"
  unfolding discardLostRecord_def
proof (rule psafe_Delete, goal_cases)
  case (2 w' s)
  have "step_ok sha ids w' (wrem w' (jobKey i))"
    using mine_disposable [OF mine_stable [OF assms(1) 2(1) assms(2,3)] 2(3,4)] by (intro delete_job_ok [OF 2(2)]) blast
  then show ?case by (auto intro!: psafe_modify)
qed (auto intro!: psafe_modify)

lemma psafe_withdraw:
  assumes "mine i rec rv w" and "i \<in> ids" and "inv sha w"
    and "entry_names i arv (activeKey (pi_Namespace inp) (pi_Service inp)) w"
  shows "psafe U sha ids (\<lambda>_ _. True) (withdraw i rv arv inp (Ret a)) w"
proof -
  let ?k = "activeKey (pi_Namespace inp) (pi_Service inp)"
  have act: "psafe U sha ids (\<lambda>_ _. True) (Delete JOBS ?k arv (\<lambda>_. emit (Logged ''withdrew'') (Ret a))) w'"
    if m: "\<forall>r. job_at w' i = Some r \<longrightarrow> r = rec \<or> terminal (rc_State r)" "mine i rec rv w' \<or> settled w' i"
      and e: "inv sha w'" "entry_names i arv ?k w'" for w'
  proof (rule psafe_Delete, goal_cases)
    case (2 w'' s)
    have "active_at w'' (pi_Namespace inp) (pi_Service inp) = Some i"
      using entry_names_stable [OF e(2) rely_evolves [OF 2(1)] e(1)] 2(3,4) inv_active [OF 2(2,3)]
      by (auto simp: entry_names_def active_at_iff)
    moreover have "terminal (rc_State r) \<or> (i \<in> ids \<and> rc_State r = StateInitializing)" if "job_at w'' i = Some r" for r
      using m(2)
    proof
      assume "mine i rec rv w'"
      then have "mine i rec rv w''" using mine_stable [OF _ 2(1) e(1) assms(2)] by blast
      then show ?thesis using that assms(2) by (auto simp: mine_def job_at_iff)
    next
      assume "settled w' i"
      then show ?thesis using settled_stable [OF _ rely_evolves [OF 2(1)] e(1)] that by (auto simp: settled_def)
    qed
    ultimately show ?case using delete_active_ok [OF 2(2)] psafe_emit by simp
  qed (simp add: psafe_emit)
  show ?thesis unfolding withdraw_def
  proof (rule pr.safe_Delete, goal_cases)
    case (1 w' e)
    then show ?case using mine_stable [OF assms(1) 1(1) assms(3,2)] entry_names_stable [OF assms(4) rely_evolves [OF 1(1)] assms(3)]
      by (intro act) (auto simp: mine_def job_at_iff)
  next
    case (2 w' w'' s)
    have m: "mine i rec rv w'" using mine_stable [OF assms(1) 2(1) assms(3,2)] .
    have ok: "step_ok sha ids w' w''"
      using 2 mine_disposable [OF m] delete_job_ok [OF 2(2), of i ids] by auto
    from m have "settled w'' i" using 2(5) by (auto simp: settled_def mine_def)
    moreover have "entry_names i arv ?k w''"
      using entry_names_stable [OF assms(4)] ok step_okD 2(1) rely_evolves evolves_trans assms(3) by blast
    moreover have "job_at w'' i = None" using 2(5) by simp
    ultimately have "psafe U sha ids (\<lambda>_ _. True) (Delete JOBS ?k arv (\<lambda>_. emit (Logged ''withdrew'') (Ret a))) w''"
      using ok step_okD by (intro act) auto
    then show ?case using ok step_okD by auto
  qed
qed

text \<open>The update that makes the record claimable.\<close>

lemma psafe_publish_pending:
  assumes o: "owns sha i rec rv (rc_Namespace rec) (rc_Service rec) w" and i: "i \<in> ids" and art: "rec_ok rec"
    and r: "rc_IdempotencyKey rec \<noteq> [] \<longrightarrow> keeps i rv (rec_receipt sha rec) w"
  shows "psafe U sha ids (\<lambda>_ _. True) (publishPending e i rec rv) w"
proof -
  define pend where "pend = rec\<lparr>rc_State := StatePending\<rparr>"
  have step: "step_ok sha ids w' (wput w' (jobKey i) (VJob pend))"
    if 2: "rely sha ids w w'" "inv sha w'" "jobs_lookup w' (jobKey i) = Some s" "s_rev s = rv" for w' s
  proof -
  have o': "owns sha i rec rv (rc_Namespace rec) (rc_Service rec) w'" using owns_stable [OF o 2(1) i] .
  then have s: "s_val s = VJob rec" and init: "rc_State rec = StateInitializing"
    using 2(3,4) by (auto simp: owns_def mine_def)
  have "job_at w' i = Some rec" using 2(3) s by (simp add: job_at_iff)
  moreover have "active_at w' (rc_Namespace rec) (rc_Service rec) = Some i"
  proof -
    obtain a where "jobs_lookup w' (activeKey (rc_Namespace rec) (rc_Service rec)) = Some a" "names (s_val a) = Some i"
      using o' 2(3,4) by (auto simp: owns_def keeps_def)
    then show ?thesis using inv_active [OF 2(2)] by (fastforce simp: active_at_iff)
  qed
  moreover have "\<exists>x. receipt_at w' (rec_receipt sha rec) = Some x \<and> rcp_ID x = i" if "rc_IdempotencyKey rec \<noteq> []"
  proof -
    have "keeps i rv (rec_receipt sha rec) w'" using owns_keeps_stable [OF o _ 2(1) i] r that by blast
    then obtain a where "jobs_lookup w' (rec_receipt sha rec) = Some a" "names (s_val a) = Some i"
      using 2(3,4) by (auto simp: keeps_def)
    then show ?thesis using inv_receipt [OF 2(2) receiptPrefix_rec] by (fastforce simp: receipt_at_iff)
  qed
  moreover have "rec_leads rec pend" "rec_ok pend"
    using init art by (auto simp: rec_leads_def rec_ok_def pend_def)
  ultimately show ?thesis using i init by (intro update_job_ok [OF 2(2)]) (auto simp: pend_def)
  qed
  then show ?thesis
    unfolding publishPending_def Let_def pend_def [symmetric] MarshalBounded_def
    by (auto intro!: psafe_Update split: sum.split)
qed

lemma publish_record_fields [simp]:
  "rc_ID (publish_record e i now inp) = i" "rc_State (publish_record e i now inp) = StateInitializing"
  "rc_Namespace (publish_record e i now inp) = pi_Namespace inp" "rc_Service (publish_record e i now inp) = pi_Service inp"
  "rc_IdempotencyKey (publish_record e i now inp) = pi_IdempotencyKey inp"
  "rc_CreatedBy (publish_record e i now inp) = pi_CreatedBy inp"
  "rec_ok (publish_record e i now inp)"
  by (simp_all add: publish_record_def rec_ok_def)

lemma psafe_publishBound:
  assumes rec: "rec = publish_record e i now inp" and i: "i \<in> ids"
    and o: "owns (e_sha e) i rec rv (pi_Namespace inp) (pi_Service inp) w"
    and n: "entry_names i arv (activeKey (pi_Namespace inp) (pi_Service inp)) w"
  shows "psafe U (e_sha e) ids (\<lambda>_ _. True) (publishBound e i now rec rv arv inp) w"
  unfolding publishBound_def
proof (rule pr.safe_bind [where Q = "receipt_post (e_sha e) i rec rv (pi_Namespace inp) (pi_Service inp)
    (if pi_IdempotencyKey inp \<noteq> [] then rec_receipt (e_sha e) rec else activeKey (pi_Namespace inp) (pi_Service inp))"], goal_cases)
  case 1
  then show ?case
    using psafe_createReceipt [OF o i refl refl] receipt_None [OF o _ i] o rec
    by (auto simp: rec_receipt_def owns_def)
next
  case (2 rerr w')
  have o': "owns (e_sha e) i rec rv (pi_Namespace inp) (pi_Service inp) w'" using 2(3) by (simp add: receipt_post_def)
  have "entry_names i arv (activeKey (pi_Namespace inp) (pi_Service inp)) w'"
    using entry_names_stable [OF n 2(1)] o by (simp add: owns_def)
  then have "psafe U (e_sha e) ids (\<lambda>_ _. True) (withdraw i rv arv inp (Ret a)) w'" for a :: "string \<times> (pub_err + Outcome)"
    using psafe_withdraw [OF _ i 2(2)] o' by (auto simp: owns_def)
  moreover have "psafe U (e_sha e) ids (\<lambda>_ _. True) (publishPending e i rec rv) w'" if "rerr = None"
    using o' 2(3) that rec i by (intro psafe_publish_pending) (auto simp: receipt_post_def)
  ultimately show ?case by (auto split: option.split)
qed (use o in \<open>simp add: owns_def\<close>)

lemma psafe_publishActive:
  assumes rec: "rec = publish_record e i now inp" and i: "i \<in> ids"
    and inv: "inv (e_sha e) w" and m: "mine i rec rv w"
  shows "psafe U (e_sha e) ids (\<lambda>_ _. True) (publishActive e h i now rec rv inp) w"
  unfolding publishActive_def
proof (rule psafe_Create, goal_cases)
  case (1 err w')
  then show ?case by (auto intro!: psafe_modify)
next
  case (3 w' s)
  then show ?case using psafe_discardLostRecord [OF mine_stable [OF m 3(1) inv i] 3(2) i] by simp
next
  case (2 w')
  let ?ns = "pi_Namespace inp" and ?svc = "pi_Service inp"
  let ?w = "wput w' (activeKey ?ns ?svc) (VActive \<lparr>av_ID = i, av_CreatedAt = now\<rparr>)"
  have m': "mine i rec rv w'" using mine_stable [OF m 2(1) inv i] .
  have ok: "step_ok (e_sha e) ids w' ?w" using m' by (intro create_active_ok [OF 2(2,3)]) (simp add: mine_def)
  have "owns (e_sha e) i rec rv ?ns ?svc ?w"
    using ok mine_put [OF _ m'] keeps_written by (auto simp: owns_def step_ok_def)
  moreover have "entry_names i (Suc (last_rev w')) (activeKey ?ns ?svc) ?w" by (simp add: entry_names_def)
  ultimately show ?case using ok psafe_publishBound [OF rec i] by (auto intro!: psafe_modify)
qed

lemma psafe_Publish:
  assumes inv: "inv (e_sha e) w" and buf: "length buf = idLength" and i: "newID buf \<in> ids"
    and fresh: "jobKey (newID buf) \<notin> seen w"
  shows "psafe U (e_sha e) ids (\<lambda>_ _. True) (Publish e buf h inp) w"
proof -
  let ?i = "newID buf"
  have "psafe U (e_sha e) ids (\<lambda>_ _. True) (Create JOBS (jobKey ?i) (VJob rec) (\<lambda>r. case r of
        Inl err \<Rightarrow> if err = ErrUnavailable then modify (Track h ?i) (Ret (?i, Inl (PubStore err)))
                   else Release h (Ret (?i, Inl (PubStore err)))
      | Inr rv \<Rightarrow> logTransition rec (publishActive e h ?i now rec rv inp))) w"
    if rec: "rec = publish_record e ?i now inp" for rec now
  proof (rule psafe_Create, goal_cases)
    case (1 err w')
    then show ?case by (auto intro: psafe_modify)
  next
    case (2 w')
    let ?w = "wput w' (jobKey ?i) (VJob rec)"
    have "leaves ids w w'" using 2(1) inv by (simp add: rely_def)
    then have "jobKey ?i \<notin> seen w'" using fresh i by (simp add: leaves_def)
    then have ok: "step_ok (e_sha e) ids w' ?w"
      using newID_valid_aux [OF buf] i rec by (intro create_job_ok [OF 2(2)]) auto
    have "mine ?i rec (Suc (last_rev w')) ?w" using rec by (auto simp: mine_def)
    then show ?case using ok psafe_publishActive [OF rec i] by (simp add: step_ok_def)
  qed (auto intro: psafe_modify)
  then show ?thesis
    unfolding Publish_def Let_def
    by (intro pr.safe_Now) (auto simp: MarshalBounded_def intro!: psafe_modify)
qed

lemma psafe_ReleaseResolved: "inv sha w \<Longrightarrow> psafe U sha ids (\<lambda>_ _. True) ReleaseResolved w"
proof -
  have "psafe U sha ids (\<lambda>_ _. True) (resolved i ref (\<lambda>b. if b then Release h (Ret ()) else Ret ())) w'" for i ref h w'
    unfolding resolved_def
    by (intro pr.safe_inspect) (auto intro!: psafe_readJob pr.safe_Get psafe_modify split: option.split)
  then show ?thesis
    unfolding ReleaseResolved_def by (intro pr.safe_inspect pr.safe_forEach) (auto split: prod.split)
qed

section \<open>What a publication leaves\<close>

abbreviation input_receipt :: "env \<Rightarrow> PublishInput \<Rightarrow> string" where
  "input_receipt e inp \<equiv> ReceiptKey (e_sha e) (pi_CreatedBy inp) (pi_Namespace inp) (pi_Service inp) (pi_IdempotencyKey inp)"

text \<open>
  C16: When the store answers and no other Collection is in the way, a publication wins: it leaves
  the record pending, the active key naming it, and for a keyed request the receipt that binds
  the key to it and to its snapshot; no other entry of the bucket changes.
\<close>

theorem Publish_wins:
  fixes e buf inp w
  defines "i \<equiv> newID buf" and "rec \<equiv> publish_record e (newID buf) (w_clock w) inp"
  assumes "jobs_lookup w (jobKey i) = None" and "jobs_lookup w (activeKey (pi_Namespace inp) (pi_Service inp)) = None"
    and "pi_IdempotencyKey inp \<noteq> [] \<longrightarrow> jobs_lookup w (input_receipt e inp) = None"
    and "e_jsize e (VJob rec) \<le> maxRecordBytes" and "e_jsize e (VJob (rec\<lparr>rc_State := StatePending\<rparr>)) \<le> maxRecordBytes"
    and "run (Publish e buf h inp) [] w l = (r, w', l', fs)"
  shows "r = (i, Inr OutcomeWon) \<and> job_at w' i = Some (rec\<lparr>rc_State := StatePending\<rparr>) \<and>
    active_at w' (pi_Namespace inp) (pi_Service inp) = Some i \<and>
    (pi_IdempotencyKey inp \<noteq> [] \<longrightarrow>
      receipt_at w' (input_receipt e inp) = Some \<lparr>rcp_ID = i, rcp_SnapshotHash = e_snapHash e (pi_Policy inp), rcp_CreatedAt = w_clock w\<rparr>) \<and>
    (\<forall>k. k \<notin> {jobKey i, activeKey (pi_Namespace inp) (pi_Service inp), input_receipt e inp} \<longrightarrow> jobs_lookup w' k = jobs_lookup w k)"
  using assms(3-) unfolding i_def rec_def
  by (cases "pi_IdempotencyKey inp = []")
    (auto simp: Publish_def Let_def MarshalBounded_def publishActive_def publishBound_def publishPending_def createReceipt_def
      receiptDecide_def kv_ops job_at_def active_at_def receipt_at_def publish_record_def run_bind)

definition demo_publish :: PublishInput where
  "demo_publish = \<lparr>pi_Namespace = ''ns'', pi_Service = ''svc'', pi_Origin = OriginAPI, pi_Slot = zeroTime, pi_ClaimBy = hour,
     pi_ConfigRevision = 0, pi_Policy = shippedPolicy, pi_CreatedBy = ''alice'', pi_IdempotencyKey = ''k''\<rparr>"

lemma Publish_wins_witness:
  "\<exists>w' l' fs. run (Publish demo_env (replicate 20 0) 0 demo_publish) [] emptyWorld newReplica =
     ((newID (replicate 20 0), Inr OutcomeWon), w', l', fs) \<and> active_at w' ''ns'' ''svc'' = Some (newID (replicate 20 0))"
proof -
  obtain r w' l' fs where run: "run (Publish demo_env (replicate 20 0) 0 demo_publish) [] emptyWorld newReplica = (r, w', l', fs)"
    by (metis prod_cases4)
  show ?thesis
    using Publish_wins [OF _ _ _ _ _ run] run by (simp add: demo_env_def demo_publish_def maxRecordBytes_def)
qed

text \<open>A reservation some pass will free: no longer held, or tracked under the identifier it was published with.\<close>

definition accounted :: "nat \<Rightarrow> string \<Rightarrow> replica \<Rightarrow> bool" where
  "accounted h i l \<longleftrightarrow> h \<notin> set (rp_held l) \<or> (\<exists>r. map_of (rp_reservations l) h = Some r \<and> res_id r = i)"

lemma accounted_ev [simp]: "accounted h i (l\<lparr>rp_events := es\<rparr>) = accounted h i l"
 by (simp add: accounted_def)

lemma lsafe_accounted_receipt: "accounted h i l \<Longrightarrow> lsafe (\<lambda>a. accounted h i) (createReceipt e j now hash inp) l"
  by (auto simp: createReceipt_def Let_def receiptDecide_def receiptExisting_def receiptAgain_def readReceipt_def readJob_def split: sum.split option.split kv_err.split)

lemma accounted_release:
  "map_of (rp_reservations l) h = Some x \<Longrightarrow> \<not> res_done x \<Longrightarrow> distinct (rp_held l) \<Longrightarrow> accounted h i (releaseLocked h l)"
  by (auto simp: accounted_def releaseLocked_def)

lemma accounted_track: "map_of (rp_reservations l) h = Some x \<Longrightarrow> accounted h i (Track h i l)"
  by (auto simp: accounted_def Track_def)

lemma lsafe_publishBound:
  assumes "accounted h i l"
  shows "lsafe (\<lambda>a l. fst a = i \<and> accounted h i l) (publishBound e i now rec rv arev inp) l"
proof -
  have "lsafe (\<lambda>_. accounted h i) (if pi_IdempotencyKey inp \<noteq> [] then createReceipt e i now (rc_SnapshotHash rec) inp else Ret None) l"
    using assms lsafe_accounted_receipt by simp
  then show ?thesis unfolding publishBound_def
    by (intro lsafe_bind) (auto elim!: lsafe_mono simp: withdraw_def publishPending_def Let_def logTransition_def split: option.split sum.split)
qed

text \<open>
  C17: However the store fails, a publication gives its reservation back or leaves it tracked under
  the identifier it published with, so that a later pass can resolve it.
\<close>

theorem Publish_accounts:
  assumes "map_of (rp_reservations l) h = Some x" and "\<not> res_done x" and "distinct (rp_held l)"
    and "run (Publish e buf h inp) fs w l = (r, w', l', fs')"
  shows "fst r = newID buf \<and> (h \<in> set (rp_held l') \<longrightarrow> (\<exists>y. map_of (rp_reservations l') h = Some y \<and> res_id y = newID buf))"
proof -
  have "lsafe (\<lambda>a l. fst a = newID buf \<and> accounted h (newID buf) l) (Publish e buf h inp) l"
    using assms(1-3)
    by (auto simp: Publish_def Let_def publishActive_def discardLostRecord_def logTransition_def
        intro!: lsafe_publishBound accounted_release accounted_track split: sum.split)
  then show ?thesis using lsafe_run assms(4) by (fastforce simp: accounted_def)
qed

definition demo_reserved :: replica where
  "demo_reserved = newReplica\<lparr>rp_reservations := [(0, \<lparr>res_ref = ServiceRef ''ns'' ''svc'', res_id = [], res_done = False\<rparr>)], rp_held := [0]\<rparr>"

lemma Publish_accounts_witness:
  "\<exists>r w' l' fs'. run (Publish demo_env (replicate 20 0) 0 demo_publish) [NoFault, Unavailable True] emptyWorld demo_reserved = (r, w', l', fs') \<and>
     (0 \<in> set (rp_held l') \<longrightarrow> (\<exists>y. map_of (rp_reservations l') 0 = Some y \<and> res_id y = newID (replicate 20 0)))"
proof -
  obtain r w' l' fs' where run: "run (Publish demo_env (replicate 20 0) 0 demo_publish) [NoFault, Unavailable True] emptyWorld demo_reserved = (r, w', l', fs')"
    by (metis prod_cases4)
  show ?thesis using Publish_accounts [OF _ _ _ run] run by (auto simp: demo_reserved_def)
qed

end
