(* ===== verification/Worker.thy ===== *)
theory Worker
  imports Protocol
begin

text \<open>
  The worker of one replica (\<open>internal/pgo/worker.go\<close>): the scan over the cached records, the
  fresh visit of a due one, the claim with its local slot, the owner loop with renewal, cutoff
  and the one final update, and the drain's refusal of new claims.

  The work goroutine is \<open>Rounds\<close>; here its result is an event of the owner loop.  The owner loop
  is driven by the list of events its \<open>select\<close> receives: a progress report, the result, a tick
  of the renewal timer.  When the list ends the loop is still waiting, which it answers by
  \<open>False\<close>.  The in-flight entry is
  shared with the cutoff timer, which \<open>runCutoff\<close> models by the number of times it fires.
\<close>

section \<open>Constants and data\<close>

definition skewMargin :: duration where "skewMargin = 5 * second"
definition publishGrace :: duration where "publishGrace = minute"
definition renewCallTimeout :: duration where "renewCallTimeout = 5 * second"

record workResult =
  wr_Reason :: string
  wr_Object :: string
  wr_Bytes :: int
  wr_Manifest :: "Manifest option"
  wr_ResolvedVersion :: string
  wr_Progress :: Progress

section \<open>The in-flight entry\<close>

definition newInFlight :: "string \<Rightarrow> time \<Rightarrow> inFlight" where
  "newInFlight i lease = \<lparr>fl_id = i, fl_cutoff = lease - skewMargin, fl_cancelled = False, fl_done = False\<rparr>"

definition install :: "time \<Rightarrow> inFlight \<Rightarrow> bool \<times> inFlight" where
  "install cutoff fl = (if fl_cancelled fl then (False, fl) else (True, fl\<lparr>fl_cutoff := cutoff\<rparr>))"

definition cancel :: "time \<Rightarrow> inFlight \<Rightarrow> bool \<times> inFlight" where
  "cancel now fl =
     (if fl_cancelled fl \<or> now < fl_cutoff fl then (False, fl) else (True, fl\<lparr>fl_cancelled := True\<rparr>))"

definition abort :: "inFlight \<Rightarrow> bool \<times> inFlight" where
  "abort fl = (if fl_cancelled fl then (False, fl) else (True, fl\<lparr>fl_cancelled := True\<rparr>))"

text \<open>Apply a method of the entry with number \<open>h\<close>; an entry is never removed from the table.\<close>

definition onFlight :: "nat \<Rightarrow> (inFlight \<Rightarrow> bool \<times> inFlight) \<Rightarrow> replica \<Rightarrow> bool \<times> replica" where
  "onFlight h m l =
     (case map_of (rp_flights l) h of
        None \<Rightarrow> (False, l)
      | Some fl \<Rightarrow> (let (b, fl') = m fl in (b, l\<lparr>rp_flights := map_put h fl' (rp_flights l)\<rparr>)))"

definition flightState :: "nat \<Rightarrow> replica \<Rightarrow> time \<times> bool" where
  "flightState h l = (case map_of (rp_flights l) h of None \<Rightarrow> (0, True) | Some fl \<Rightarrow> (fl_cutoff fl, fl_cancelled fl))"

section \<open>Local slots\<close>

definition reserveLocalSlot :: "env \<Rightarrow> replica \<Rightarrow> bool \<times> replica" where
  "reserveLocalSlot e l =
     (if rp_stopped l \<or> rp_active l \<ge> e_maxActive e then (False, l)
      else (True, l\<lparr>rp_active := rp_active l + 1, rp_claims := rp_claims l + 1\<rparr>))"

definition releaseLocalSlot :: "replica \<Rightarrow> replica" where
  "releaseLocalSlot l = l\<lparr>rp_active := rp_active l - 1\<rparr>"

definition claimsDone :: "replica \<Rightarrow> replica" where
  "claimsDone l = l\<lparr>rp_claims := rp_claims l - 1\<rparr>"

definition stopWork :: "replica \<Rightarrow> replica" where
  "stopWork l = (if rp_stopped l then l else l\<lparr>rp_stopped := True\<rparr>)"

definition inFlightSnapshot :: "replica \<Rightarrow> (string \<times> nat) list" where
  "inFlightSnapshot l = sortFunc (\<lambda>a b. compare3 (fst a) (fst b)) (rp_inFlight l)"

section \<open>Deciding\<close>

definition due :: "cachedJob \<Rightarrow> time \<Rightarrow> bool \<Rightarrow> bool" where
  "due c now slotFree =
     (case cj_State c of
        StateInitializing \<Rightarrow> cj_CreatedAt c + (publishGrace + skewMargin) < now
      | StatePending \<Rightarrow> slotFree \<or> cj_ClaimBy c + skewMargin < now
      | StateRunning \<Rightarrow>
          (case cj_LeaseUntil c of None \<Rightarrow> False | Some t \<Rightarrow> t + skewMargin < now) \<or>
          (case cj_Deadline c of None \<Rightarrow> False | Some t \<Rightarrow> t + skewMargin < now)
      | _ \<Rightarrow> False)"

definition claimable :: "Record \<Rightarrow> time \<Rightarrow> bool" where
  "claimable rec now =
     (case rc_State rec of
        StatePending \<Rightarrow> True
      | StateRunning \<Rightarrow> (case rc_LeaseUntil rec of None \<Rightarrow> False | Some t \<Rightarrow> t + skewMargin < now)
      | _ \<Rightarrow> False)"

section \<open>Ending and claiming\<close>

definition ended :: "Record \<Rightarrow> string \<Rightarrow> time \<Rightarrow> Record" where
  "ended r reason now = r\<lparr>rc_State := StateFailed, rc_Reason := reason, rc_FinishedAt := Some now\<rparr>"

definition terminate :: "env \<Rightarrow> Record \<Rightarrow> nat \<Rightarrow> string \<Rightarrow> (replica, unit) prog" where
  "terminate e rec0 rv reason = Now (\<lambda>now.
     let rec = ended rec0 reason now in
     case MarshalBounded (e_jsize e) (VJob rec) of
       Inl _ \<Rightarrow> emit (Logged ''serialize terminal record'') (Ret ())
     | Inr value \<Rightarrow>
         Update JOBS (jobKey (rc_ID rec)) value rv (\<lambda>u. case u of
           Inl _ \<Rightarrow> Ret ()
         | Inr _ \<Rightarrow> logTransition rec (emit (CountCollection StateFailed) (releaseActive rec))))"

text \<open>\<open>startOwner\<close>: the entry, the map, and the goroutine.\<close>

definition startOwner :: "Record \<Rightarrow> nat \<Rightarrow> replica \<Rightarrow> replica" where
  "startOwner rec rv l =
     (let h = length (rp_flights l);
          fl = newInFlight (rc_ID rec) (case rc_LeaseUntil rec of None \<Rightarrow> 0 | Some t \<Rightarrow> t)
      in l\<lparr>rp_flights := rp_flights l @ [(h, fl)],
           rp_inFlight := map_put (rc_ID rec) h (rp_inFlight l),
           rp_started := rp_started l @ [(h, rec, rv)]\<rparr>)"

text \<open>The record a claim proposes; \<open>None\<close> is the division by zero of \<open>Deadline\<close>.\<close>

definition claimRecord :: "env \<Rightarrow> Record \<Rightarrow> time \<Rightarrow> Record option" where
  "claimRecord e rec0 now =
     (let rec = rec0\<lparr>rc_State := StateRunning, rc_Attempt := rc_Attempt rec0 + 1,
                     rc_Owner := Some (e_owner e), rc_LeaseUntil := Some (now + e_leaseTTL e)\<rparr>
      in if rc_StartedAt rec = None
         then map_option (\<lambda>d. rec\<lparr>rc_StartedAt := Some now, rc_Deadline := Some d\<rparr>)
                (Deadline now (rc_Policy rec) (e_limits e))
         else Some rec)"

text \<open>
  \<open>claim\<close>, with \<open>claimReserved\<close> for the part behind the reserved slot; its deferred
  \<open>claims.Done\<close> runs on every return of that part.
\<close>

definition claimReserved :: "env \<Rightarrow> Record \<Rightarrow> nat \<Rightarrow> (replica, unit) prog" where
  "claimReserved e rec0 rv =
     (if rc_Attempt rec0 \<ge> e_maxAttempts e
      then modify releaseLocalSlot (bind (terminate e rec0 rv ReasonAttemptsExhausted)
             (\<lambda>_. modify claimsDone (Ret ())))
      else Now (\<lambda>now. case claimRecord e rec0 now of
        None \<Rightarrow> emit (Panic ''integer divide by zero'') (Ret ())
      | Some rec \<Rightarrow>
          (case MarshalBounded (e_jsize e) (VJob rec) of
             Inl _ \<Rightarrow> modify releaseLocalSlot (emit (Logged ''serialize claim'') (modify claimsDone (Ret ())))
           | Inr value \<Rightarrow>
               Update JOBS (jobKey (rc_ID rec)) value rv (\<lambda>u. case u of
                 Inl _ \<Rightarrow> modify releaseLocalSlot (modify claimsDone (Ret ()))
               | Inr newRev \<Rightarrow> logTransition rec (emit (CollectionsActive 1)
                   (modify (startOwner rec newRev) (modify claimsDone (Ret ()))))))))"

definition claim :: "env \<Rightarrow> Record \<Rightarrow> nat \<Rightarrow> (replica, unit) prog" where
  "claim e rec0 rv =
     (if Validate (rc_Policy rec0) (e_limits e) \<noteq> []
      then emit (Logged ''collection policy exceeds a ceiling'') (terminate e rec0 rv ReasonLimitExceeded)
      else Loc (\<lambda>l. let (ok, l1) = reserveLocalSlot e l in (l1, if ok then claimReserved e rec0 rv else Ret ())))"

definition visit :: "env \<Rightarrow> string \<Rightarrow> (replica, unit) prog" where
  "visit e i = Get JOBS (jobKey i) (\<lambda>r. case r of
     Inl _ \<Rightarrow> Ret ()
   | Inr s \<Rightarrow> (case asJob (s_val s) of
       None \<Rightarrow> emit (Logged ''collection record is not readable'') (Ret ())
     | Some rec \<Rightarrow> Now (\<lambda>now.
         if rc_State rec = StateInitializing \<and> rc_CreatedAt rec + (publishGrace + skewMargin) < now
           then terminate e rec (s_rev s) ReasonNotPublished
         else if rc_State rec = StatePending \<and> rc_ClaimBy rec + skewMargin < now
           then terminate e rec (s_rev s) ReasonNotClaimed
         else if rc_State rec = StateRunning \<and> (case rc_Deadline rec of None \<Rightarrow> False | Some d \<Rightarrow> d + skewMargin < now)
           then terminate e rec (s_rev s) ReasonDeadlineExceeded
         else if claimable rec now then claim e rec (s_rev s)
         else Ret ())))"

definition scan :: "env \<Rightarrow> (replica, unit) prog" where
  "scan e = inspect (\<lambda>l.
     if \<not> barrier l then Ret ()
     else Now (\<lambda>now. inspect (\<lambda>l.
       let slotFree = rp_active l < e_maxActive e in
       inspect (\<lambda>l'. forEach (\<lambda>(i, c). if due c now slotFree then visit e i else Ret ())
         (nonterminalJobs (rp_caches l'))))))"

section \<open>Owning\<close>

definition discardArtifact :: "workResult \<Rightarrow> ('l, 'a) prog \<Rightarrow> ('l, 'a) prog" where
  "discardArtifact res p = (if wr_Object res = [] then p else Drop (wr_Object res) (\<lambda>_. p))"

datatype renew_err = LeaseLapsed | RenewTooLarge | RenewStore kv_err

definition renew :: "env \<Rightarrow> Record \<Rightarrow> nat \<Rightarrow> Progress \<Rightarrow> time
    \<Rightarrow> (renew_err + nat \<times> time \<Rightarrow> (replica, 'a) prog) \<Rightarrow> (replica, 'a) prog" where
  "renew e entry rv current committed c = Now (\<lambda>now.
     let callDeadline = min renewCallTimeout (committed - now - skewMargin) in
     if callDeadline \<le> 0 then c (Inl LeaseLapsed)
     else
       let lease = now + e_leaseTTL e;
           proposed = entry\<lparr>rc_LeaseUntil := Some lease, rc_Progress := current\<rparr>
       in case MarshalBounded (e_jsize e) (VJob proposed) of
            Inl _ \<Rightarrow> c (Inl RenewTooLarge)
          | Inr value \<Rightarrow>
              Update JOBS (jobKey (rc_ID entry)) value rv (\<lambda>u. case u of
                Inl err \<Rightarrow> c (Inl (RenewStore err))
              | Inr newRev \<Rightarrow> c (Inr (newRev, lease))))"

text \<open>The record the final update proposes before its size is known.\<close>

definition finishRecord :: "Record \<Rightarrow> time \<Rightarrow> workResult \<Rightarrow> Record" where
  "finishRecord entry now res =
     (let p = entry\<lparr>rc_FinishedAt := Some now, rc_Progress := wr_Progress res,
                    rc_ResolvedVersion := (if wr_ResolvedVersion res \<noteq> [] then wr_ResolvedVersion res
                                           else rc_ResolvedVersion entry),
                    rc_Manifest := wr_Manifest res\<rparr>
      in if wr_Reason res = []
         then p\<lparr>rc_State := StateCompleted,
                rc_Artifact := Some \<lparr>art_Object = wr_Object res, art_Bytes = wr_Bytes res\<rparr>,
                rc_ExpiresAt := Some (now + pol_Retention (rc_Policy entry))\<rparr>
         else p\<lparr>rc_State := StateFailed, rc_Reason := wr_Reason res\<rparr>)"

text \<open>The final update and what follows it.\<close>

definition commitFinal :: "Record \<Rightarrow> nat \<Rightarrow> time \<Rightarrow> workResult \<Rightarrow> Record \<Rightarrow> (replica, unit) prog" where
  "commitFinal entry rv now res proposed =
     Update JOBS (jobKey (rc_ID entry)) (VJob proposed) rv (\<lambda>u. case u of
       Inl _ \<Rightarrow> discardArtifact res (Ret ())
     | Inr _ \<Rightarrow> logTransition proposed (emit (CountCollection (rc_State proposed))
         (case rc_StartedAt proposed of
            Some st \<Rightarrow> if rc_State proposed = StateCompleted
                       then emit (CollectionDuration (now - st)) (releaseActive proposed)
                       else releaseActive proposed
          | None \<Rightarrow> releaseActive proposed)))"

definition finish :: "env \<Rightarrow> nat \<Rightarrow> Record \<Rightarrow> nat \<Rightarrow> time \<Rightarrow> workResult \<Rightarrow> (replica, unit) prog" where
  "finish e h entry rv deadline res = Now (\<lambda>now. inspect (\<lambda>l.
     let (cutoff, cancelled) = flightState h l in
     if cancelled \<or> \<not> now < cutoff \<or> \<not> now < deadline - skewMargin
     then discardArtifact res (emit (Logged ''final update skipped'') (Ret ()))
     else
       let proposed = finishRecord entry now res in
       case MarshalBounded (e_jsize e) (VJob proposed) of
         Inr _ \<Rightarrow> commitFinal entry rv now res proposed
       | Inl _ \<Rightarrow> discardArtifact res (
           let small = terminalTooLarge proposed now in
           case MarshalBounded (e_jsize e) (VJob small) of
             Inl _ \<Rightarrow> emit (Logged ''serialize final record'') (Ret ())
           | Inr _ \<Rightarrow> commitFinal entry rv now res small)))"

definition logLostRecord :: "Record \<Rightarrow> (replica, 'a) prog \<Rightarrow> (replica, 'a) prog" where
  "logLostRecord entry p = Get JOBS (jobKey (rc_ID entry)) (\<lambda>_. emit (Logged ''collection moved under its owner'') p)"

datatype ownerEvent = EvProgress Progress | EvResult workResult | EvTick

fun ownerLoop :: "env \<Rightarrow> nat \<Rightarrow> Record \<Rightarrow> nat \<Rightarrow> time \<Rightarrow> time \<Rightarrow> Progress \<Rightarrow> bool \<Rightarrow> ownerEvent list
    \<Rightarrow> (replica, bool) prog" where
  "ownerLoop e h entry rv committed deadline current aborted [] = Ret False"
| "ownerLoop e h entry rv committed deadline current aborted (EvProgress p # evs) =
     ownerLoop e h entry rv committed deadline p aborted evs"
| "ownerLoop e h entry rv committed deadline current aborted (EvResult res # evs) =
     (if aborted then discardArtifact res (Ret True)
      else bind (finish e h entry rv deadline res) (\<lambda>_. Ret True))"
| "ownerLoop e h entry rv committed deadline current aborted (EvTick # evs) =
     (if aborted then ownerLoop e h entry rv committed deadline current aborted evs
      else inspect (\<lambda>l.
        if rp_stopped l then ownerLoop e h entry rv committed deadline current aborted evs
        else renew e entry rv current committed (\<lambda>r. case r of
            Inr (newRev, lease) \<Rightarrow>
              Loc (\<lambda>l. let (ok, l1) = onFlight h (install (lease - skewMargin)) l in
                if \<not> ok
                then (snd (onFlight h abort l1),
                      emit (Logged ''lease renewed after its work was cancelled'')
                        (ownerLoop e h entry rv committed deadline current True evs))
                else (l1, ownerLoop e h (entry\<lparr>rc_LeaseUntil := Some lease, rc_Progress := current\<rparr>)
                            newRev lease deadline current False evs))
          | Inl (RenewStore ErrRevisionMismatch) \<Rightarrow>
              modify (\<lambda>l. snd (onFlight h abort l))
                (logLostRecord entry (ownerLoop e h entry rv committed deadline current True evs))
          | Inl LeaseLapsed \<Rightarrow>
              modify (\<lambda>l. snd (onFlight h abort l))
                (emit (Logged ''collection lease lapsed'')
                  (ownerLoop e h entry rv committed deadline current True evs))
          | Inl _ \<Rightarrow>
              emit (Logged ''lease renewal failed'')
                (ownerLoop e h entry rv committed deadline current False evs))))"

text \<open>What the owner goroutine does on its way out, and the goroutine itself.\<close>

definition ownerExit :: "nat \<Rightarrow> string \<Rightarrow> replica \<Rightarrow> replica" where
  "ownerExit h i l =
     (let l1 = (if map_of (rp_inFlight l) i = Some h then l\<lparr>rp_inFlight := map_del i (rp_inFlight l)\<rparr> else l);
          l2 = l1\<lparr>rp_events := rp_events l1 @ [CollectionsActive (-1)]\<rparr>
      in snd (onFlight h (\<lambda>fl. (True, fl\<lparr>fl_done := True\<rparr>)) (releaseLocalSlot l2)))"

definition ownerThread :: "env \<Rightarrow> nat \<Rightarrow> Record \<Rightarrow> nat \<Rightarrow> ownerEvent list \<Rightarrow> (replica, unit) prog" where
  "ownerThread e h rec rv evs =
     (case (rc_LeaseUntil rec, rc_Deadline rec) of
        (Some lease, Some deadline) \<Rightarrow>
          bind (ownerLoop e h rec rv lease deadline (rc_Progress rec) False evs)
            (\<lambda>ended. if ended then modify (ownerExit h (rc_ID rec)) (Ret ()) else Ret ())
      | _ \<Rightarrow> emit (Panic ''nil pointer dereference'') (Ret ()))"

text \<open>\<open>runCutoff\<close>, for a timer that fires so many times before the owner loop is done.\<close>

fun runCutoff :: "nat \<Rightarrow> nat \<Rightarrow> (replica, unit) prog" where
  "runCutoff h 0 = Ret ()"
| "runCutoff h (Suc n) = inspect (\<lambda>l.
     if snd (flightState h l) then Ret ()
     else Now (\<lambda>now. Loc (\<lambda>l. let (b, l') = onFlight h (cancel now) l in
       (l', if b then Ret () else runCutoff h n))))"

section \<open>The worker keeps the protocol\<close>

lemma flight_fields [simp]:
  "rp_caches (snd (onFlight h m l)) = rp_caches l" "rp_started (snd (onFlight h m l)) = rp_started l"
  by (simp_all add: onFlight_def split: option.split prod.split)

lemma slot_fields [simp]:
  "rp_caches (releaseLocalSlot l) = rp_caches l" "rp_started (releaseLocalSlot l) = rp_started l"
  "rp_caches (claimsDone l) = rp_caches l" "rp_started (claimsDone l) = rp_started l"
  "rp_caches (ownerExit h i l) = rp_caches l" "rp_started (ownerExit h i l) = rp_started l"
  "rp_caches (snd (reserveLocalSlot e l)) = rp_caches l" "rp_started (snd (reserveLocalSlot e l)) = rp_started l"
  by (simp_all add: releaseLocalSlot_def claimsDone_def ownerExit_def reserveLocalSlot_def Let_def)

lemma psafe_claimsDone [simp]: "psafe U sha ids (\<lambda>_ _. True) (modify claimsDone (Ret ())) w"
  by (rule psafe_modify) simp_all

lemma settled_now: "inv sha w \<Longrightarrow> job_at w i = Some r \<Longrightarrow> terminal (rc_State r) \<Longrightarrow> settled w i"
  using job_at_seen by (fastforce simp: settled_def)

lemma ended_ID: "rc_ID (ended r reason now) = rc_ID r"
  by (simp add: ended_def)

lemma ended_leads:
  assumes "rc_State r = StateInitializing \<or> live (rc_State r)"
  shows "rec_leads r (ended r reason now)" "rec_ok r \<Longrightarrow> rec_ok (ended r reason now)"
    "st_step (rc_State r) (rc_State (ended r reason now))"
  using assms by (auto simp: rec_leads_def ended_def live_def rec_ok_def)

lemma psafe_terminate:
  assumes inv: "inv sha w" and ent: "entry_is w r rv" and st: "rc_State r = StateInitializing \<or> live (rc_State r)"
    and reason: "rc_State r = StateInitializing \<Longrightarrow> reason = ReasonNotPublished"
  shows "psafe U sha ids (\<lambda>_ _. True) (terminate e r rv reason) w"
  unfolding terminate_def
proof (rule pr.safe_Now, goal_cases)
  case (1 now)
  let ?r = "ended r reason now"
  have "psafe U sha ids (\<lambda>_ _. True) (Update JOBS (jobKey (rc_ID r)) (VJob ?r) rv (\<lambda>u. case u of
      Inl _ \<Rightarrow> Ret () | Inr _ \<Rightarrow> logTransition ?r (emit (CountCollection StateFailed) (releaseActive ?r)))) w"
  proof (rule psafe_update_entry, goal_cases inv ent lead ok edge init err cont)
    case (cont v w')
    then have "settled w' (rc_ID ?r)" using settled_now by (fastforce simp: ended_def)
    then show ?case using cont psafe_releaseActive by simp
  qed (use inv ent reason ended_leads [OF st] in \<open>simp_all add: ended_def\<close>)
  then show ?case by (auto simp: MarshalBounded_def Let_def ended_ID)
qed

lemma claim_leads:
  assumes "live (rc_State r)" and "claimRecord e r now = Some r'"
  shows "rec_leads r r'" "rec_ok r \<Longrightarrow> claimed r'" "rc_ID r' = rc_ID r" "rc_State r' = StateRunning"
  using assms
  by (auto simp: claimRecord_def rec_leads_def claimed_def rec_ok_def live_def Let_def split: if_splits)

lemma psafe_claim:
  assumes inv: "inv sha w" and ent: "entry_is w r rv" and st: "live (rc_State r)" and ok: "rec_ok r"
  shows "psafe U sha ids (\<lambda>_ _. True) (claim e r rv) w"
proof -
  have ni: "rc_State r \<noteq> StateInitializing" using st by (auto simp: live_def)
  have trm: "psafe U sha ids (\<lambda>_ _. True) (terminate e r rv reason) w'" if "rely sha ids w w'" "inv sha w'" for reason w'
    using that psafe_terminate [OF _ entry_is_stable [OF ent rely_evolves inv]] st ni by blast
  have upd: "psafe U sha ids (\<lambda>_ _. True) (Update JOBS (jobKey (rc_ID r')) (VJob r') rv (\<lambda>u. case u of
       Inl _ \<Rightarrow> modify releaseLocalSlot (modify claimsDone (Ret ()))
     | Inr newRev \<Rightarrow> logTransition r' (emit (CollectionsActive 1)
         (modify (startOwner r' newRev) (modify claimsDone (Ret ())))))) w'"
    if "claimRecord e r now = Some r'" "rely sha ids w w'" "inv sha w'" for r' now w'
    unfolding claim_leads(3) [OF st that(1)]
  proof (rule psafe_update_entry [OF that(3) entry_is_stable [OF ent rely_evolves [OF that(2)] inv]],
      goal_cases lead ok edge init err cont)
    case (cont v w2)
    have "linv U (startOwner r' v l) w3" if "rely sha ids w2 w3" "linv U l w3" for l w3
      using that cont entry_is_stable [OF cont(3) rely_evolves [OF that(1)]] claim_leads(2) [OF st \<open>claimRecord e r now = Some r'\<close> ok]
      by (auto simp: linv_def startOwner_def Let_def)
    then have "psafe U sha ids (\<lambda>_ _. True) (modify (startOwner r' v) (modify claimsDone (Ret ()))) w2"
      by (rule pr.safe_modify_at) (auto intro!: psafe_modify)
    then show ?case by simp
  qed (use claim_leads [OF st that(1)] ni st in \<open>auto simp: claimed_def live_def intro!: psafe_modify\<close>)
  have "psafe U sha ids (\<lambda>_ _. True) (claimReserved e r rv) w'" if w': "rely sha ids w w'" "inv sha w'" for w'
  proof -
    have "psafe U sha ids (\<lambda>_ _. True) (bind (terminate e r rv ReasonAttemptsExhausted) (\<lambda>_. modify claimsDone (Ret ()))) w'"
      by (rule pr.safe_bind [OF trm [OF w'] _ w'(2)]) (auto intro!: psafe_modify)
    then show ?thesis unfolding claimReserved_def
      using w' upd by (auto simp: MarshalBounded_def intro!: psafe_modify pr.safe_Now split: option.split)
  qed
  then have "psafe U sha ids (\<lambda>_ _. True)
      (Loc (\<lambda>l. let (ok, l1) = reserveLocalSlot e l in (l1, if ok then claimReserved e r rv else Ret ()))) w"
    using linv_caches [of "snd (reserveLocalSlot e l)" l for l]
    by (intro pr.safe_Loc) (auto simp: split_def Let_def)
  then show ?thesis using trm [OF pr.R_refl inv] by (simp add: claim_def)
qed

lemma psafe_visit:
  assumes "inv sha w"
  shows "psafe U sha ids (\<lambda>_ _. True) (visit e i) w"
  unfolding visit_def
proof (rule pr.safe_Get, goal_cases)
  case (3 w' s)
  then obtain r where r: "s_val s = VJob r" "rc_ID r = i" "rec_ok r" using inv_job by fastforce
  have ent: "entry_is w' r (s_rev s)" using 3 r inv_rev [OF 3(2), of "jobKey i" s] by (simp add: entry_is_def)
  show ?case using 3 r ent psafe_terminate [OF 3(2) ent] psafe_claim [OF 3(2) ent]
    by (auto simp: live_def claimable_def intro!: pr.safe_Now split: State.splits)
qed simp_all

lemma psafe_scan:
  assumes "inv sha w"
  shows "psafe U sha ids (\<lambda>_ _. True) (scan e) w"
  unfolding scan_def Let_def
  by (intro pr.safe_inspect) (auto intro!: pr.safe_Now pr.safe_inspect pr.safe_forEach psafe_visit split: prod.split)

text \<open>The work goroutine writes one object, named after the attempt it was started for.\<close>

definition result_ok :: "Record \<Rightarrow> workResult \<Rightarrow> bool" where
  "result_ok entry res \<longleftrightarrow> wr_Object res = [] \<or> wr_Object res = artifactName (rc_ID entry) (rc_Attempt entry)"

lemma psafe_discardArtifact: "psafe U sha ids Q p w \<Longrightarrow> psafe U sha ids Q (discardArtifact res p) w"
  by (auto simp: discardArtifact_def intro!: psafe_Drop)

lemma finish_leads:
  assumes "claimed r" and "result_ok r res"
  shows "rec_leads r (finishRecord r now res)" "rec_ok (finishRecord r now res)"
    "terminal (rc_State (finishRecord r now res))" "rc_ID (finishRecord r now res) = rc_ID r"
    "rec_leads r (terminalTooLarge (finishRecord r now res) now)" "rec_ok (terminalTooLarge (finishRecord r now res) now)"
    "terminal (rc_State (terminalTooLarge (finishRecord r now res) now))"
    "rc_ID (terminalTooLarge (finishRecord r now res) now) = rc_ID r"
    "rc_State (finishRecord r now res) \<noteq> StateExpired" "rc_State (terminalTooLarge (finishRecord r now res) now) \<noteq> StateExpired"
  using assms
  by (auto simp: finishRecord_def terminalTooLarge_def rec_leads_def rec_ok_def claimed_def result_ok_def Let_def
      split: option.split)

lemma psafe_commitFinal:
  assumes "inv sha w" and "entry_is w r rv" and "claimed r" and "rec_leads r p" and "rec_ok p"
    and "terminal (rc_State p)" and "rc_ID p = rc_ID r" and "rc_State p \<noteq> StateExpired"
  shows "psafe U sha ids (\<lambda>_ _. True) (commitFinal r rv now res p) w"
  unfolding commitFinal_def
proof (rule psafe_update_entry [OF assms(1,2,4)], goal_cases ok edge init err cont)
  case (cont v w')
  then have "psafe U sha ids (\<lambda>_ _. True) (releaseActive p) w'"
    using psafe_releaseActive [OF cont(2)] settled_now [OF cont(2,4) assms(6)] assms(7) by simp
  then show ?case by (auto split: option.split)
next
  case edge
  then show ?case using assms(3,6,8) by (cases "rc_State p") (auto simp: claimed_def)
qed (use assms in \<open>auto simp: claimed_def intro: psafe_discardArtifact\<close>)

lemma psafe_finish:
  assumes "inv sha w" and "entry_is w r rv" and "claimed r" and "result_ok r res"
  shows "psafe U sha ids (\<lambda>_ _. True) (finish e h r rv deadline res) w"
proof -
  note lead = finish_leads [OF assms(3,4)]
  have com: "psafe U sha ids (\<lambda>_ _. True) (commitFinal r rv now res (finishRecord r now res)) w'"
    "psafe U sha ids (\<lambda>_ _. True) (commitFinal r rv now res (terminalTooLarge (finishRecord r now res) now)) w'"
    if "rely sha ids w w'" "inv sha w'" for now w'
    using that psafe_commitFinal [OF _ entry_is_stable [OF assms(2) rely_evolves assms(1)] assms(3)] lead by blast+
  show ?thesis unfolding finish_def
    by (intro pr.safe_Now pr.safe_inspect)
      (auto simp: MarshalBounded_def Let_def split_def com intro!: psafe_discardArtifact)
qed

lemma psafe_renew:
  assumes "inv sha w" and "entry_is w r rv" and "claimed r"
    and "\<And>err w'. evolves sha w w' \<Longrightarrow> inv sha w' \<Longrightarrow> psafe U sha ids Q (c (Inl err)) w'"
    and "\<And>v lease w'. evolves sha w w' \<Longrightarrow> inv sha w' \<Longrightarrow>
      entry_is w' (r\<lparr>rc_LeaseUntil := Some lease, rc_Progress := current\<rparr>) v \<Longrightarrow> psafe U sha ids Q (c (Inr (v, lease))) w'"
  shows "psafe U sha ids Q (renew e r rv current committed c) w"
  unfolding renew_def Let_def
proof (rule pr.safe_Now, goal_cases)
  case (1 now)
  let ?p = "r\<lparr>rc_LeaseUntil := Some (now + e_leaseTTL e), rc_Progress := current\<rparr>"
  have "psafe U sha ids Q (Update JOBS (jobKey (rc_ID r)) (VJob ?p) rv
      (\<lambda>u. case u of Inl err \<Rightarrow> c (Inl (RenewStore err)) | Inr newRev \<Rightarrow> c (Inr (newRev, now + e_leaseTTL e)))) w"
    by (rule psafe_update_entry [OF assms(1,2)])
      (use assms(3-5) in \<open>auto simp: claimed_def rec_leads_def rec_ok_def\<close>)
  then show ?case using assms(4) [OF evolves_refl assms(1)] by (simp add: MarshalBounded_def)
qed

lemma psafe_logLostRecord:
  "(\<And>w'. rely sha ids w w' \<Longrightarrow> inv sha w' \<Longrightarrow> psafe U sha ids Q p w') \<Longrightarrow> psafe U sha ids Q (logLostRecord r p) w"
  unfolding logLostRecord_def by (rule pr.safe_Get) simp_all

lemma psafe_abort: "psafe U sha ids Q p w \<Longrightarrow> psafe U sha ids Q (modify (\<lambda>l. snd (onFlight h m l)) p) w"
  by (rule psafe_modify) simp_all

lemma psafe_ownerLoop:
  assumes "inv sha w" and "entry_is w r rv" and "claimed r" and "\<forall>res. EvResult res \<in> set evs \<longrightarrow> result_ok r res"
  shows "psafe U sha ids (\<lambda>_ _. True) (ownerLoop e h r rv committed deadline current aborted evs) w"
  using assms
proof (induction evs arbitrary: w r rv committed current aborted)
  case (Cons ev evs)
  note here = Cons.prems(1) and ent = Cons.prems(2) and cl = Cons.prems(3)
  have rest: "\<forall>res. EvResult res \<in> set evs \<longrightarrow> result_ok r res" using Cons.prems(4) by simp
  have loop: "psafe U sha ids (\<lambda>_ _. True) (ownerLoop e h r rv com deadline cur ab evs) w'"
    if "evolves sha w w'" "inv sha w'" for w' com cur ab
    using Cons.IH [OF that(2) entry_is_stable [OF ent that(1) here] cl rest] .
  show ?case
  proof (cases ev)
    case (EvProgress p)
    then show ?thesis using loop [OF evolves_refl here] by simp
  next
    case (EvResult res)
    then have "psafe U sha ids (\<lambda>_ _. True) (finish e h r rv deadline res) w"
      using Cons.prems by (intro psafe_finish) auto
    then have "psafe U sha ids (\<lambda>_ _. True) (bind (finish e h r rv deadline res) (\<lambda>_. Ret True)) w"
      by (rule pr.safe_bind) (use here in simp_all)
    then show ?thesis using EvResult by (simp add: psafe_discardArtifact)
  next
    case EvTick
    have renewed: "psafe U sha ids (\<lambda>_ _. True)
        (ownerLoop e h (r\<lparr>rc_LeaseUntil := Some lease, rc_Progress := current\<rparr>) v lease deadline current False evs) w'"
      if "inv sha w'" "entry_is w' (r\<lparr>rc_LeaseUntil := Some lease, rc_Progress := current\<rparr>) v" for w' v lease
      using that rest cl by (intro Cons.IH) (auto simp: claimed_def rec_ok_def result_ok_def)
    have "psafe U sha ids (\<lambda>_ _. True) (renew e r rv current committed c) w'"
      if "rely sha ids w w'" "inv sha w'"
        "\<And>err w2. evolves sha w w2 \<Longrightarrow> inv sha w2 \<Longrightarrow> psafe U sha ids (\<lambda>_ _. True) (c (Inl err)) w2"
        "\<And>v lease w2. evolves sha w w2 \<Longrightarrow> inv sha w2 \<Longrightarrow>
           entry_is w2 (r\<lparr>rc_LeaseUntil := Some lease, rc_Progress := current\<rparr>) v \<Longrightarrow> psafe U sha ids (\<lambda>_ _. True) (c (Inr (v, lease))) w2"
      for w' and c :: "renew_err + nat \<times> time \<Rightarrow> (replica, bool) prog"
      using that evolves_trans [OF rely_evolves [OF that(1)]]
      by (intro psafe_renew [OF that(2) entry_is_stable [OF ent rely_evolves [OF that(1)] here] cl]) blast+
    note ren = this
    have installed: "psafe U sha ids (\<lambda>_ _. True)
        (Loc (\<lambda>l. let (ok, l1) = onFlight h (install (lease - skewMargin)) l in
           if \<not> ok then (snd (onFlight h abort l1), emit (Logged ''lease renewed after its work was cancelled'')
                  (ownerLoop e h r rv committed deadline current True evs))
           else (l1, ownerLoop e h (r\<lparr>rc_LeaseUntil := Some lease, rc_Progress := current\<rparr>)
                  v lease deadline current False evs))) w'"
      if "evolves sha w w'" "inv sha w'" "entry_is w' (r\<lparr>rc_LeaseUntil := Some lease, rc_Progress := current\<rparr>) v" for w' v lease
    proof (rule pr.safe_Loc, goal_cases)
      case (1 w2 l)
      have "entry_is w2 (r\<lparr>rc_LeaseUntil := Some lease, rc_Progress := current\<rparr>) v"
        using entry_is_stable [OF that(3) rely_evolves [OF 1(1)] that(2)] .
      moreover have "evolves sha w w2" using that(1) 1(1) rely_evolves evolves_trans by blast
      ultimately show ?case
        using 1 loop renewed linv_caches [of "snd (onFlight h (install (lease - skewMargin)) l)" l]
          linv_caches [of "snd (onFlight h abort (snd (onFlight h (install (lease - skewMargin)) l)))" l]
        by (auto simp: Let_def split_def)
    qed
    have lost: "psafe U sha ids (\<lambda>_ _. True) (logLostRecord r (ownerLoop e h r rv com deadline cur True evs)) w'"
      if "evolves sha w w'" "inv sha w'" for w' com cur
      using that loop evolves_trans rely_evolves by (intro psafe_logLostRecord) blast
    show ?thesis unfolding EvTick ownerLoop.simps
      using loop [OF evolves_refl here] loop installed lost rely_evolves
      by (auto intro!: pr.safe_inspect ren psafe_abort split: renew_err.split kv_err.split)
  qed
qed simp

lemma psafe_ownerThread:
  assumes "inv sha w" and "entry_is w r rv" and "claimed r" and "\<forall>res. EvResult res \<in> set evs \<longrightarrow> result_ok r res"
  shows "psafe U sha ids (\<lambda>_ _. True) (ownerThread e h r rv evs) w"
proof -
  have "psafe U sha ids (\<lambda>_ _. True) (bind (ownerLoop e h r rv lease deadline cur False evs)
      (\<lambda>ended. if ended then modify (ownerExit h (rc_ID r)) (Ret ()) else Ret ())) w" for lease deadline cur
    by (rule pr.safe_bind [OF psafe_ownerLoop [OF assms] _ assms(1)]) (auto intro!: psafe_modify)
  then show ?thesis by (simp add: ownerThread_def split: option.split)
qed

lemma psafe_runCutoff: "psafe U sha ids (\<lambda>_ _. True) (runCutoff h n) w"
proof (induction n arbitrary: w)
  case (Suc n)
  have "psafe U sha ids (\<lambda>_ _. True) (Loc (\<lambda>l. let (b, l') = onFlight h (cancel now) l in (l', if b then Ret () else runCutoff h n))) w'" for now w'
    using Suc linv_caches [of "snd (onFlight h (cancel now) l)" l for l]
    by (intro pr.safe_Loc) (auto simp: split_def Let_def)
  then show ?case by (auto intro!: pr.safe_inspect pr.safe_Now)
qed simp

section \<open>When an owner may still write\<close>

lemma run_discardArtifact:
  "run (discardArtifact res p) fs w l = (if wr_Object res = [] then run p fs w l
     else run p (tl fs) (snd (exec (case fs of [] \<Rightarrow> NoFault | f # _ \<Rightarrow> f) (ODrop (wr_Object res)) w)) l)"
  by (simp add: discardArtifact_def Let_def split_def)

lemma exec_Drop_jobs: "w_jobs (snd (exec f (ODrop name) w)) = w_jobs w"
  by (cases f) simp_all

lemma exec_Now: "exec f ONow w = (RTime (w_clock w), w)"
  by (cases f) simp_all

text \<open>
  C18: The final update of an owner and the claim of another replica exclude each other: while some
  clock within twice the skew margin of the owner's already takes the lease for lapsed, the
  owner's final update leaves the bucket as it is.
\<close>

theorem lease_excludes:
  assumes "flightState h l = (lease - skewMargin, cancelled)" and "rc_State rec = StateRunning" and "rc_LeaseUntil rec = Some lease"
    and "claimable rec now'" and "now' \<le> w_clock w + 2 * skewMargin"
    and "run (finish e h entry rv deadline res) fs w l = (u, w', l', fs')"
  shows "w_jobs w' = w_jobs w"
proof -
  have "\<not> w_clock w < lease - skewMargin" using assms(2-5) by (simp add: claimable_def)
  then have "run (finish e h entry rv deadline res) fs w l =
     run (discardArtifact res (emit (Logged ''final update skipped'') (Ret ()))) (tl fs) w l"
    using assms(1) by (simp add: finish_def exec_Now)
  then show ?thesis using assms(6) by (auto simp: run_discardArtifact exec_Drop_jobs split: if_splits)
qed

definition demo_owner :: replica where
  "demo_owner = newReplica\<lparr>rp_flights := [(0, newInFlight (rc_ID demo_record) (100 * second))]\<rparr>"

definition demo_work :: workResult where
  "demo_work = \<lparr>wr_Reason = [], wr_Object = artifactName (rc_ID demo_record) 1, wr_Bytes = 7, wr_Manifest = rc_Manifest demo_record,
     wr_ResolvedVersion = ''v1'', wr_Progress = zeroProgress\<rparr>"

lemma demo_flight: "flightState 0 demo_owner = (100 * second - skewMargin, False)"
  by (simp add: flightState_def demo_owner_def newInFlight_def)

lemma lease_excludes_witness:
  "\<exists>w' l' fs'. run (finish demo_env 0 demo_record 1 (200 * second) demo_work) [] (emptyWorld\<lparr>w_clock := 100 * second\<rparr>) demo_owner =
     ((), w', l', fs') \<and> w_jobs w' = emptyBucket"
proof -
  let ?w = "emptyWorld\<lparr>w_clock := 100 * second\<rparr>" and ?r = "demo_record\<lparr>rc_LeaseUntil := Some (100 * second)\<rparr>"
  obtain u w' l' fs' where run: "run (finish demo_env 0 demo_record 1 (200 * second) demo_work) [] ?w demo_owner = (u, w', l', fs')"
    by (metis prod_cases4)
  have "rc_State ?r = StateRunning" "claimable ?r (106 * second)" by (simp_all add: demo_record_def claimable_def skewMargin_def second_def)
  then have "w_jobs w' = w_jobs ?w"
    using lease_excludes [OF demo_flight, of ?r "106 * second" ?w, OF _ _ _ _ run] by (simp add: skewMargin_def second_def)
  then show ?thesis using run by simp
qed

text \<open>
  C19: While the lease and the deadline stand and the store answers, the final update of a
  successful attempt commits exactly the finished record, leaves the objects alone and gives the
  Service's active key back.
\<close>

theorem finish_commits:
  assumes "flightState h l = (cutoff, False)" and "w_clock w < cutoff" and "w_clock w < deadline - skewMargin"
    and "jobs_lookup w (jobKey (rc_ID entry)) = Some s" and "s_rev s = rv" and "wr_Reason res = []"
    and "e_jsize e (VJob (finishRecord entry (w_clock w) res)) \<le> maxRecordBytes"
    and "run (finish e h entry rv deadline res) [] w l = (u, w', l', fs')"
  shows "job_at w' (rc_ID entry) = Some (finishRecord entry (w_clock w) res) \<and> w_objs w' = w_objs w \<and>
    active_at w' (rc_Namespace entry) (rc_Service entry) \<noteq> Some (rc_ID entry)"
proof -
  let ?r = "finishRecord entry (w_clock w) res"
  let ?w = "w\<lparr>w_jobs := put (jobKey (rc_ID entry)) (VJob ?r) (w_clock w) (w_jobs w)\<rparr>"
  have f: "rc_ID ?r = rc_ID entry" "rc_Namespace ?r = rc_Namespace entry" "rc_Service ?r = rc_Service entry"
    by (simp_all add: finishRecord_def Let_def)
  have "\<exists>l1. run (finish e h entry rv deadline res) [] w l = run (releaseActive ?r) [] ?w l1"
    using assms(1-7) by (auto simp: finish_def Let_def MarshalBounded_def commitFinal_def kv_ops split: option.split)
  then obtain l1 where "run (releaseActive ?r) [] ?w l1 = (u, w', l', fs')" using assms(8) by auto
  from run_releaseActive [OF this] show ?thesis by (simp add: job_at_def f)
qed

definition demo_running :: world where
  "demo_running = emptyWorld\<lparr>w_jobs := put (jobKey (rc_ID demo_record)) (VJob demo_record) 0 emptyBucket,
     w_objs := [(wr_Object demo_work, \<lparr>oi_Name = wr_Object demo_work, oi_Size = 7, oi_ModTime = 0\<rparr>)]\<rparr>"

lemma demo_running_simps [simp]:
  "w_clock demo_running = 0" "w_jobs demo_running = put (jobKey (rc_ID demo_record)) (VJob demo_record) 0 emptyBucket"
  by (simp_all add: demo_running_def)

lemma finish_commits_witness:
  "\<exists>w' l' fs'. run (finish demo_env 0 demo_record 1 (200 * second) demo_work) [] demo_running demo_owner = ((), w', l', fs') \<and>
     job_at w' (rc_ID demo_record) = Some (finishRecord demo_record 0 demo_work) \<and> w_objs w' = w_objs demo_running"
proof -
  obtain u w' l' fs' where run: "run (finish demo_env 0 demo_record 1 (200 * second) demo_work) [] demo_running demo_owner = (u, w', l', fs')"
    by (metis prod_cases4)
  show ?thesis
    using finish_commits [OF demo_flight _ _ _ _ _ _ run] run
    by (simp add: skewMargin_def second_def demo_work_def demo_env_def maxRecordBytes_def)
qed

text \<open>
  C20: The owner deletes its artifact after every error of the final update, also after one that
  does not say whether the update was applied: when it was, a completed record is left that names
  an object which is gone.
\<close>

theorem finish_discards_committed:
  assumes "flightState h l = (cutoff, False)" and "w_clock w < cutoff" and "w_clock w < deadline - skewMargin"
    and "jobs_lookup w (jobKey (rc_ID entry)) = Some s" and "s_rev s = rv" and "wr_Reason res = []" and "wr_Object res \<noteq> []"
    and "e_jsize e (VJob (finishRecord entry (w_clock w) res)) \<le> maxRecordBytes"
    and "run (finish e h entry rv deadline res) [NoFault, Unavailable True] w l = (u, w', l', fs')"
  shows "\<exists>r. job_at w' (rc_ID entry) = Some r \<and> rc_State r = StateCompleted \<and>
    rc_Artifact r = Some \<lparr>art_Object = wr_Object res, art_Bytes = wr_Bytes res\<rparr> \<and> map_of (w_objs w') (wr_Object res) = None"
  using assms by (auto simp: finish_def MarshalBounded_def commitFinal_def kv_ops run_discardArtifact job_at_def finishRecord_def Let_def)

lemma finish_discards_committed_witness:
  "\<exists>w' l' fs' r. run (finish demo_env 0 demo_record 1 (200 * second) demo_work) [NoFault, Unavailable True] demo_running demo_owner = ((), w', l', fs') \<and>
     job_at w' (rc_ID demo_record) = Some r \<and> rc_State r = StateCompleted \<and> map_of (w_objs w') (wr_Object demo_work) = None"
proof -
  obtain u w' l' fs' where run: "run (finish demo_env 0 demo_record 1 (200 * second) demo_work) [NoFault, Unavailable True] demo_running demo_owner = (u, w', l', fs')"
    by (metis prod_cases4)
  have "wr_Object demo_work \<noteq> []" "wr_Reason demo_work = []" by (simp_all add: demo_work_def artifactName_def artifactSuffix_def)
  then show ?thesis
    using finish_discards_committed [OF demo_flight _ _ _ _ _ _ _ run] run
    by (auto simp: skewMargin_def second_def demo_env_def maxRecordBytes_def)
qed

end
