(* ===== verification/Session.thy ===== *)
theory Session
  imports Publisher Worker
begin

text \<open>
  The session one request holds (\<open>internal/pgo/runtime.go\<close>): the calls the HTTP handlers make
  on the stores and the caches, bound to the generation the session was opened under.

  A store view of an old generation answers \<open>ErrUnavailable\<close>, which any call may do in the
  model.  A call's body is left out where only its name matters: \<open>OpenArtifact\<close> answers whether
  the object is there.  \<open>Session\<close> is \<open>openSession\<close> here.
\<close>

definition APIClaimGrace :: duration where "APIClaimGrace = hour"

section \<open>Opening\<close>

definition openSession :: "bool \<Rightarrow> bool \<Rightarrow> replica \<Rightarrow> nat option" where
  "openSession bound connected l =
     (if \<not> bound then None
      else if \<not> connected \<or> \<not> rp_connSynced l \<or> \<not> Synced (rp_generation l) (rp_caches l) then None
      else if \<not> rp_viewOK l then None
      else Some (rp_generation l))"

definition sessEffective :: "env \<Rightarrow> PolicyOverride option list \<Rightarrow> Policy \<times> Violation list" where
  "sessEffective e overrides =
     (let p = foldl Effective (e_defaults e) overrides in (p, Validate p (e_limits e)))"

section \<open>Records and receipts\<close>

record StoredRecord =
  sr_Record :: Record
  sr_Revision :: nat

definition ReadRecord :: "string \<Rightarrow> (kv_err + StoredRecord \<Rightarrow> ('l, 'a) prog) \<Rightarrow> ('l, 'a) prog" where
  "ReadRecord i c = Get JOBS (jobKey i) (\<lambda>r. case r of
       Inl err \<Rightarrow> c (Inl err)
     | Inr s \<Rightarrow> (case asJob (s_val s) of
         None \<Rightarrow> c (Inl ErrOther)
       | Some rec \<Rightarrow> c (Inr \<lparr>sr_Record = rec, sr_Revision = s_rev s\<rparr>)))"

datatype write_err = WriteTooLarge | WriteStore kv_err

definition WriteRecord :: "env \<Rightarrow> Record \<Rightarrow> nat \<Rightarrow> (write_err option \<Rightarrow> ('l, 'a) prog) \<Rightarrow> ('l, 'a) prog" where
  "WriteRecord e rec rv c =
     (case MarshalBounded (e_jsize e) (VJob rec) of
        Inl _ \<Rightarrow> c (Some WriteTooLarge)
      | Inr value \<Rightarrow> Update JOBS (jobKey (rc_ID rec)) value rv (\<lambda>u. case u of
            Inl err \<Rightarrow> c (Some (WriteStore err))
          | Inr _ \<Rightarrow> c None))"

definition ReadReceipt :: "string \<Rightarrow> (kv_err + Receipt \<times> nat \<Rightarrow> ('l, 'a) prog) \<Rightarrow> ('l, 'a) prog" where
  "ReadReceipt key c = readReceipt key (\<lambda>r. case r of
       Inl err \<Rightarrow> c (Inl err)
     | Inr None \<Rightarrow> c (Inl ErrKeyNotFound)
     | Inr (Some x) \<Rightarrow> c (Inr x))"

definition DeleteReceipt :: "string \<Rightarrow> nat \<Rightarrow> (kv_err option \<Rightarrow> ('l, 'a) prog) \<Rightarrow> ('l, 'a) prog" where
  "DeleteReceipt key rv c = Delete JOBS key rv c"

definition RecordTransition :: "Record \<Rightarrow> (replica, 'a) prog \<Rightarrow> (replica, 'a) prog" where
  "RecordTransition rec p = logTransition rec (emit (CountCollection (rc_State rec)) p)"

section \<open>Overrides\<close>

definition ReadOverride :: "string \<Rightarrow> string \<Rightarrow> (kv_err + StoredOverride \<times> nat \<Rightarrow> ('l, 'a) prog) \<Rightarrow> ('l, 'a) prog" where
  "ReadOverride ns svc c = Get CONFIG (overrideKey ns svc) (\<lambda>r. case r of
       Inl err \<Rightarrow> c (Inl err)
     | Inr s \<Rightarrow> (case asOverride (s_val s) of None \<Rightarrow> c (Inl ErrOther) | Some st \<Rightarrow> c (Inr (st, s_rev s))))"

definition CreateOverride :: "env \<Rightarrow> string \<Rightarrow> string \<Rightarrow> StoredOverride \<Rightarrow> (write_err + nat \<Rightarrow> ('l, 'a) prog) \<Rightarrow> ('l, 'a) prog" where
  "CreateOverride e ns svc st c =
     (case MarshalBounded (e_jsize e) (VOverride st) of
        Inl _ \<Rightarrow> c (Inl WriteTooLarge)
      | Inr value \<Rightarrow> Create CONFIG (overrideKey ns svc) value (\<lambda>r. case r of
            Inl err \<Rightarrow> c (Inl (WriteStore err)) | Inr rv \<Rightarrow> c (Inr rv)))"

definition UpdateOverride :: "env \<Rightarrow> string \<Rightarrow> string \<Rightarrow> StoredOverride \<Rightarrow> nat \<Rightarrow> (write_err + nat \<Rightarrow> ('l, 'a) prog) \<Rightarrow> ('l, 'a) prog" where
  "UpdateOverride e ns svc st expected c =
     (case MarshalBounded (e_jsize e) (VOverride st) of
        Inl _ \<Rightarrow> c (Inl WriteTooLarge)
      | Inr value \<Rightarrow> Update CONFIG (overrideKey ns svc) value expected (\<lambda>r. case r of
            Inl err \<Rightarrow> c (Inl (WriteStore err)) | Inr rv \<Rightarrow> c (Inr rv)))"

definition DeleteOverride :: "string \<Rightarrow> string \<Rightarrow> nat \<Rightarrow> (kv_err option \<Rightarrow> ('l, 'a) prog) \<Rightarrow> ('l, 'a) prog" where
  "DeleteOverride ns svc expected c = Delete CONFIG (overrideKey ns svc) expected c"

section \<open>The latest completed Collection\<close>

definition ExpireGoneArtifact :: "env \<Rightarrow> StoredRecord \<Rightarrow> (bool \<Rightarrow> (replica, 'a) prog) \<Rightarrow> (replica, 'a) prog" where
  "ExpireGoneArtifact e st c =
     (let rec = (sr_Record st)\<lparr>rc_State := StateExpired\<rparr> in
      WriteRecord e rec (sr_Revision st) (\<lambda>r. case r of
        Some err \<Rightarrow>
          if err \<noteq> WriteStore ErrRevisionMismatch
          then emit (Logged ''expired flip failed'') (emit (StoreFailure ''expire'') (c False))
          else c False
      | None \<Rightarrow> RecordTransition rec (c True)))"

definition artifactObject :: "Record \<Rightarrow> string" where
  "artifactObject rec = (case rc_Artifact rec of None \<Rightarrow> [] | Some a \<Rightarrow> art_Object a)"

fun latestWalk :: "env \<Rightarrow> CollectionView list \<Rightarrow> (replica, kv_err + StoredRecord) prog" where
  "latestWalk e [] = Ret (Inl ErrKeyNotFound)"
| "latestWalk e (v # vs) =
     (if cv_State v \<noteq> StateCompleted then latestWalk e vs
      else ReadRecord (cv_ID v) (\<lambda>r. case r of
        Inl err \<Rightarrow> if err = ErrKeyNotFound then latestWalk e vs else Ret (Inl err)
      | Inr st \<Rightarrow>
          if rc_State (sr_Record st) \<noteq> StateCompleted then latestWalk e vs
          else if artifactObject (sr_Record st) = [] then ExpireGoneArtifact e st (\<lambda>_. latestWalk e vs)
          else Open (artifactObject (sr_Record st)) (\<lambda>o'. case o' of
              None \<Rightarrow> Ret (Inr st)
            | Some err \<Rightarrow>
                if err = ErrObjectNotFound then ExpireGoneArtifact e st (\<lambda>_. latestWalk e vs)
                else Ret (Inl err))))"

definition emptyQuery :: CollectionQuery where
  "emptyQuery = \<lparr>q_States = [], q_Since = zeroTime, q_Origin = None, q_After = \<lparr>pos_CreatedAt = zeroTime, pos_ID = []\<rparr>, q_Limit = 0\<rparr>"

definition LatestCompleted :: "env \<Rightarrow> nat \<Rightarrow> string \<Rightarrow> string \<Rightarrow> (replica, kv_err + StoredRecord) prog" where
  "LatestCompleted e gen ns svc = inspect (\<lambda>l.
     case Collections (rp_generation l) gen ns svc emptyQuery (rp_caches l) of
       (candidates, _, ok) \<Rightarrow> if \<not> ok then Ret (Inl ErrUnavailable) else latestWalk e candidates)"

section \<open>The session keeps the protocol\<close>

lemma psafe_ReadRecord:
  assumes "\<And>w' e. rely sha ids w w' \<Longrightarrow> inv sha w' \<Longrightarrow> psafe U sha ids Q (c (Inl e)) w'"
    and "\<And>w' st. rely sha ids w w' \<Longrightarrow> inv sha w' \<Longrightarrow> entry_is w' (sr_Record st) (sr_Revision st) \<Longrightarrow>
      job_at w' i = Some (sr_Record st) \<Longrightarrow> psafe U sha ids Q (c (Inr st)) w'"
  shows "psafe U sha ids Q (ReadRecord i c) w"
  unfolding ReadRecord_def
proof (rule pr.safe_Get, goal_cases)
  case (3 w' s)
  then obtain r where r: "s_val s = VJob r" "rc_ID r = i" using inv_job by fastforce
  let ?st = "\<lparr>sr_Record = r, sr_Revision = s_rev s\<rparr>"
  have "entry_is w' (sr_Record ?st) (sr_Revision ?st)" "job_at w' i = Some (sr_Record ?st)"
    using 3 r inv_rev [OF 3(2), of "jobKey i" s] by (simp_all add: entry_is_def job_at_iff)
  then show ?case using assms(2) [OF 3(1,2), of ?st] r by simp
qed (use assms(1) in simp_all)

lemma psafe_WriteRecord:
  assumes "inv sha w" and "entry_is w r rv" and "rec_leads r r'" and "rec_ok r \<Longrightarrow> rec_ok r'"
    and "st_step (rc_State r) (rc_State r')" and "rc_State r \<noteq> StateInitializing" and "rc_ID r' = rc_ID r"
    and err: "\<And>e w'. evolves sha w w' \<Longrightarrow> inv sha w' \<Longrightarrow> psafe U sha ids Q (c (Some e)) w'"
    and cont: "\<And>w'. evolves sha w w' \<Longrightarrow> inv sha w' \<Longrightarrow> job_at w' (rc_ID r) = Some r' \<Longrightarrow> psafe U sha ids Q (c None) w'"
  shows "psafe U sha ids Q (WriteRecord e r' rv c) w"
proof -
  have "psafe U sha ids Q (Update JOBS (jobKey (rc_ID r)) (VJob r') rv (\<lambda>u. case u of
      Inl err \<Rightarrow> c (Some (WriteStore err)) | Inr _ \<Rightarrow> c None)) w"
    by (rule psafe_update_entry [OF assms(1-5)]) (use assms(6) err cont in auto)
  then show ?thesis using err [OF evolves_refl assms(1)] assms(7) by (simp add: WriteRecord_def MarshalBounded_def)
qed

lemma psafe_RecordTransition [simp]: "psafe U sha ids Q p w \<Longrightarrow> psafe U sha ids Q (RecordTransition rec p) w"
  by (simp add: RecordTransition_def)

lemma psafe_ExpireGoneArtifact:
  assumes "inv sha w" and "entry_is w (sr_Record st) (sr_Revision st)" and "rc_State (sr_Record st) = StateCompleted"
    and "\<And>b w'. evolves sha w w' \<Longrightarrow> inv sha w' \<Longrightarrow> psafe U sha ids Q (c b) w'"
  shows "psafe U sha ids Q (ExpireGoneArtifact e st c) w"
  unfolding ExpireGoneArtifact_def Let_def
  by (rule psafe_WriteRecord [OF assms(1,2)]) (use assms(3,4) in \<open>auto simp: rec_leads_def rec_ok_def\<close>)

lemma psafe_latestWalk: "inv sha w \<Longrightarrow> psafe U sha ids (\<lambda>_ _. True) (latestWalk e vs) w"
proof (induction vs arbitrary: w)
  case (Cons v vs)
  have "psafe U sha ids (\<lambda>_ _. True) (Open name (\<lambda>o'. case o' of
         None \<Rightarrow> Ret (Inr st)
       | Some err \<Rightarrow> if err = ErrObjectNotFound then ExpireGoneArtifact e st (\<lambda>_. latestWalk e vs) else Ret (Inl err))) w'"
    if "inv sha w'" "entry_is w' (sr_Record st) (sr_Revision st)" "rc_State (sr_Record st) = StateCompleted" for name st w'
    using that Cons.IH by (intro pr.safe_Open) (auto intro!: psafe_ExpireGoneArtifact split: option.split)
  then show ?case using Cons by (auto intro!: psafe_ReadRecord psafe_ExpireGoneArtifact)
qed simp

lemma psafe_LatestCompleted: "psafe U sha ids (\<lambda>_ _. True) (LatestCompleted e gen ns svc) w"
  unfolding LatestCompleted_def by (intro pr.safe_inspect) (auto intro: psafe_latestWalk split: prod.split)

text \<open>Writes of the configuration bucket.\<close>

lemma psafe_config:
  assumes "\<And>r w'. inv sha w' \<Longrightarrow> psafe U sha ids Q (k r) w'"
    and "\<And>w. \<exists>b. snd (perform op w) = w\<lparr>w_config := b\<rparr>"
  shows "psafe U sha ids Q (Call op k) w"
proof (rule pr.safe_write)
  fix w' w'' assume "inv sha w'" "w'' = snd (perform op w')"
  then show "guar sha ids w' w'' \<and> inv sha w'' \<and> psafe U sha ids Q (k (fst (perform op w'))) w'' \<and>
    (w'' \<noteq> w' \<longrightarrow> (\<forall>r \<in> {RErr ErrUnavailable, RErr ErrOther}. psafe U sha ids Q (k r) w''))"
    using config_ok assms(1) assms(2) [of w'] by auto
qed (use assms(1) in blast)

lemma perform_config:
  "\<exists>b. snd (perform (OCreate CONFIG k v) w) = w\<lparr>w_config := b\<rparr>"
  "\<exists>b. snd (perform (OUpdate CONFIG k v x) w) = w\<lparr>w_config := b\<rparr>"
  "\<exists>b. snd (perform (ODelete CONFIG k x) w) = w\<lparr>w_config := b\<rparr>"
  by (auto split: prod.split sum.split option.split intro: exI [of _ "w_config w"])

lemma psafe_ReadOverride:
  "(\<And>r w'. inv sha w' \<Longrightarrow> psafe U sha ids Q (c r) w') \<Longrightarrow> psafe U sha ids Q (ReadOverride ns svc c) w"
  unfolding ReadOverride_def by (intro pr.safe_Get) (auto split: option.split)

lemma psafe_write_overrides:
  assumes "\<And>r w'. inv sha w' \<Longrightarrow> psafe U sha ids Q (c r) w'" and "inv sha w"
  shows "psafe U sha ids Q (CreateOverride e ns svc st c) w" "psafe U sha ids Q (UpdateOverride e ns svc st x c) w"
  using assms by (auto simp: CreateOverride_def UpdateOverride_def MarshalBounded_def
      intro!: psafe_config perform_config split: sum.split)

lemma psafe_DeleteOverride:
  "(\<And>r w'. inv sha w' \<Longrightarrow> psafe U sha ids Q (c r) w') \<Longrightarrow> psafe U sha ids Q (DeleteOverride ns svc x c) w"
  unfolding DeleteOverride_def by (intro psafe_config perform_config) auto

end
