(* ===== verification/Rounds.thy ===== *)
theory Rounds
  imports Discovery Session
begin

text \<open>
  The work of one Collection (\<open>internal/pgo/rounds.go\<close>, and \<open>ResolveVersion\<close> of
  \<open>runtime.go\<close>): per round the targets, the samples folded into the running profile as they
  arrive, and the one object the attempt stores.

  The pprof and gzip libraries are the function fields of \<open>pprof\<close>, over an abstract type of
  profiles.  What the goroutines of a round race for is an argument: \<open>ri_outs\<close> gives the
  outcomes in the order the results channel delivered them.  The other fields of
  \<open>roundInput\<close> are what the round read of its context, its clock, the discovery, the shuffle
  and the timer.
\<close>

type_synonym bytes = "8 word list"

definition profileKind :: string where "profileKind = ''cpu''"
definition ReasonTargetChanged :: string where "ReasonTargetChanged = ''target_changed''"
definition ReasonDiscoveryUnavailable :: string where "ReasonDiscoveryUnavailable = ''discovery_unavailable''"
definition ReasonSampleTooLarge :: string where "ReasonSampleTooLarge = ''sample_too_large''"
definition ReasonSampleMalformed :: string where "ReasonSampleMalformed = ''sample_malformed''"
definition ReasonParseFailed :: string where "ReasonParseFailed = ''parse_failed''"
definition ReasonIncompatibleProfile :: string where "ReasonIncompatibleProfile = ''incompatible_profile''"
definition gzipMagic :: bytes where "gzipMagic = [0x1f, 0x8b]"

lemmas sample_reasons = ReasonTargetChanged_def ReasonDiscoveryUnavailable_def ReasonSampleTooLarge_def
  ReasonSampleMalformed_def ReasonParseFailed_def ReasonIncompatibleProfile_def

text \<open>
  \<open>pp_gunzip\<close>: \<open>None\<close> when the header is not read; otherwise the bytes up to the end or the
  first error, and whether the stream ended without one.  \<open>pp_size\<close> and \<open>pp_write\<close> give the
  length of the plain and of the gzipped encoding.
\<close>

record 'p pprof =
  pp_decode :: "bytes \<Rightarrow> 'p option"
  pp_merge :: "'p \<Rightarrow> 'p \<Rightarrow> 'p option"
  pp_compact :: "'p \<Rightarrow> 'p"
  pp_size :: "'p \<Rightarrow> int option"
  pp_write :: "'p \<Rightarrow> int option"
  pp_gunzip :: "bytes \<Rightarrow> (bytes \<times> bool) option"

section \<open>Versions and targets\<close>

definition filterTargets :: "Target list \<Rightarrow> (Target \<Rightarrow> bool) \<Rightarrow> Target list" where
  "filterTargets ts keep = filter keep ts"

fun distinctFrom :: "(Target \<Rightarrow> string) \<Rightarrow> string list \<Rightarrow> Target list \<Rightarrow> Target list" where
  "distinctFrom key met [] = []"
| "distinctFrom key met (t # ts) =
     (if List.member met (key t) then distinctFrom key met ts
      else t # distinctFrom key (key t # met) ts)"

definition distinctVersions :: "Target list \<Rightarrow> string list" where
  "distinctVersions targets = map tg_Version (distinctFrom tg_Version [] targets)"

definition dedupeByUID :: "Target list \<Rightarrow> Target list" where
  "dedupeByUID targets = distinctFrom tg_UID [] targets"

definition ResolveVersion :: "Target list \<Rightarrow> string \<Rightarrow> string \<times> string" where
  "ResolveVersion targets pin =
     (let eligible = filterTargets targets (\<lambda>t. tg_Version t \<noteq> []);
          eligible' = (if pin \<noteq> [] then filterTargets eligible (\<lambda>t. tg_Version t = pin) else eligible)
      in case distinctVersions eligible' of
           [] \<Rightarrow> ([], ReasonVersionMissing)
         | [v] \<Rightarrow> (v, [])
         | _ \<Rightarrow> ([], ReasonVersionConflict))"

section \<open>One sample\<close>

record 'p sampleOutcome =
  out_sample :: Sample
  out_profile :: "'p option"

record sampleSink =
  sink_buf :: bytes
  sink_limit :: int
  sink_overflowed :: bool

definition newSampleSink :: "int \<Rightarrow> sampleSink" where
  "newSampleSink limit = \<lparr>sink_buf = [], sink_limit = limit, sink_overflowed = False\<rparr>"

text \<open>\<open>Write\<close>: the bytes taken, and whether the sink took them.\<close>

definition sinkWrite :: "bytes \<Rightarrow> sampleSink \<Rightarrow> bool \<times> sampleSink" where
  "sinkWrite b s =
     (if int (length (sink_buf s) + length b) > sink_limit s then (False, s\<lparr>sink_overflowed := True\<rparr>)
      else (True, s\<lparr>sink_buf := sink_buf s @ b\<rparr>))"

definition decodeSample :: "'p pprof \<Rightarrow> int \<Rightarrow> bytes \<Rightarrow> string + 'p" where
  "decodeSample pp limit body =
     (let parse = (\<lambda>b. case pp_decode pp b of None \<Rightarrow> Inl ReasonParseFailed | Some p \<Rightarrow> Inr p) in
      if hasPrefix gzipMagic body
      then (case pp_gunzip pp body of
         None \<Rightarrow> Inl ReasonSampleMalformed
       | Some (stream, clean) \<Rightarrow>
           let plain = take (nat (i64 (limit + 1))) stream;
               err = (\<not> clean \<and> length plain = length stream \<and> int (length stream) < i64 (limit + 1))
           in if int (length plain) > limit then Inl ReasonSampleTooLarge
              else if err then Inl ReasonSampleMalformed
              else if hasPrefix gzipMagic plain then Inl ReasonSampleMalformed
              else parse plain)
      else parse body)"

text \<open>
  \<open>sample\<close>, from the answer of \<open>Confirm\<close>, the sink after the transfer and the code the proxy
  gave it.
\<close>

definition sample :: "'p pprof \<Rightarrow> PGOLimits \<Rightarrow> int \<Rightarrow> Target \<Rightarrow> time \<Rightarrow> disc_err option \<Rightarrow> sampleSink \<Rightarrow> string \<Rightarrow> 'p sampleOutcome" where
  "sample pp lim round t now confirmed sink code =
     (let s = (\<lambda>res n. \<lparr>sm_Round = round, sm_Pod = tg_Pod t, sm_PodUID = tg_UID t, sm_Node = tg_Node t,
                         sm_StartedAt = now, sm_Result = res, sm_Bytes = n\<rparr>) in
      case confirmed of
        Some err \<Rightarrow> \<lparr>out_sample = s (if err = ErrTargetChanged then ReasonTargetChanged else ReasonDiscoveryUnavailable) 0,
                     out_profile = None\<rparr>
      | None \<Rightarrow>
          if sink_overflowed sink then \<lparr>out_sample = s ReasonSampleTooLarge 0, out_profile = None\<rparr>
          else if code \<noteq> ''ok'' then \<lparr>out_sample = s code 0, out_profile = None\<rparr>
          else (case decodeSample pp (lim_MaxSampleBytes lim) (sink_buf sink) of
             Inl reason \<Rightarrow> \<lparr>out_sample = s reason 0, out_profile = None\<rparr>
           | Inr p \<Rightarrow> \<lparr>out_sample = s sampleResultOK (int (length (sink_buf sink))), out_profile = Some p\<rparr>))"

section \<open>The running state\<close>

record 'p runState =
  rs_man :: Manifest
  rs_progress :: Progress
  rs_merged :: "'p option"
  rs_resolved :: string
  rs_reported :: "Progress list"

definition failRun :: "string \<Rightarrow> 'p runState \<Rightarrow> workResult" where
  "failRun reason st = \<lparr>wr_Reason = reason, wr_Object = [], wr_Bytes = 0, wr_Manifest = Some (rs_man st),
     wr_ResolvedVersion = rs_resolved st, wr_Progress = rs_progress st\<rparr>"

definition report :: "'p runState \<Rightarrow> 'p runState" where
  "report st = st\<lparr>rs_reported := rs_reported st @ [rs_progress st]\<rparr>"

text \<open>What the merge makes of one outcome: the sample as recorded and the running profile.\<close>

definition mergeOutcome :: "'p pprof \<Rightarrow> 'p sampleOutcome \<Rightarrow> 'p option \<Rightarrow> Sample \<times> 'p option" where
  "mergeOutcome pp out merged =
     (case out_profile out of
        None \<Rightarrow> (out_sample out, merged)
      | Some p \<Rightarrow>
          (case merged of
             None \<Rightarrow> (out_sample out, Some p)
           | Some m \<Rightarrow>
               (case pp_merge pp m p of
                  None \<Rightarrow> ((out_sample out)\<lparr>sm_Result := ReasonIncompatibleProfile, sm_Bytes := 0\<rparr>, merged)
                | Some next \<Rightarrow> (out_sample out, Some next))))"

definition countSample :: "Sample \<Rightarrow> 'p runState \<Rightarrow> 'p runState" where
  "countSample s st =
     (let pr = rs_progress st; man = rs_man st in
      st\<lparr>rs_progress := (if sm_Result s = sampleResultOK
            then pr\<lparr>prg_SamplesOK := prg_SamplesOK pr + 1\<rparr>
            else pr\<lparr>prg_SamplesFailed := prg_SamplesFailed pr + 1\<rparr>),
         rs_man := man\<lparr>man_Samples := man_Samples man @ [s]\<rparr>\<rparr>)"

definition absorb :: "'p pprof \<Rightarrow> PGOLimits \<Rightarrow> 'p sampleOutcome \<Rightarrow> 'p runState \<Rightarrow> int \<Rightarrow> string \<times> 'p runState \<times> int" where
  "absorb pp lim out st ok =
     (let (s, merged) = mergeOutcome pp out (rs_merged st);
          st' = countSample s (st\<lparr>rs_merged := merged\<rparr>);
          ok' = (if sm_Result s = sampleResultOK then ok + 1 else ok);
          reason = (case merged of
              Some m \<Rightarrow>
                if sm_Result s = sampleResultOK
                then (case pp_size pp m of
                        None \<Rightarrow> ReasonSerializeFailed
                      | Some sz \<Rightarrow> if sz > lim_MaxMergedBytes lim then ReasonMergedTooLarge else [])
                else []
            | None \<Rightarrow> [])
      in (reason, st', ok'))"

fun absorbAll :: "'p pprof \<Rightarrow> PGOLimits \<Rightarrow> 'p sampleOutcome list \<Rightarrow> string \<Rightarrow> 'p runState \<Rightarrow> int \<Rightarrow> string \<times> 'p runState \<times> int" where
  "absorbAll pp lim [] failure st ok = (failure, st, ok)"
| "absorbAll pp lim (out # outs) failure st ok =
     (if failure \<noteq> [] then absorbAll pp lim outs failure st ok
      else let (f, st', ok') = absorb pp lim out st ok in absorbAll pp lim outs f st' ok')"

definition runRound :: "'p pprof \<Rightarrow> PGOLimits \<Rightarrow> 'p sampleOutcome list \<Rightarrow> 'p runState \<Rightarrow> string \<times> 'p runState" where
  "runRound pp lim outs st =
     (let (failure, st', ok) = absorbAll pp lim outs [] st 0 in
      if failure \<noteq> [] then (failure, st') else if ok = 0 then (ReasonNoSamples, st') else ([], st'))"

section \<open>The rounds\<close>

record 'p roundInput =
  ri_ctxErr :: bool
  ri_now :: time
  ri_targets :: "disc_err + Target list"
  ri_shuffle :: "Target list \<Rightarrow> Target list"
  ri_outs :: "Target list \<Rightarrow> 'p sampleOutcome list"
  ri_slept :: bool

definition expired :: "bool \<Rightarrow> time \<Rightarrow> Record \<Rightarrow> string" where
  "expired ctxErr now rec =
     (if ctxErr then ReasonDeadlineExceeded
      else case rc_Deadline rec of
          None \<Rightarrow> [] | Some d \<Rightarrow> if \<not> now < d then ReasonDeadlineExceeded else [])"

text \<open>\<open>targetsFor\<close>: \<open>None\<close> is the slice bound that panics, a negative count of targets wanted.\<close>

definition targetsFor :: "PGOLimits \<Rightarrow> nat \<Rightarrow> Record \<Rightarrow> 'p roundInput \<Rightarrow> 'p runState \<Rightarrow> (string + Target list \<times> 'p runState) option" where
  "targetsFor lim round rec inp st =
     (case ri_targets inp of
        Inl _ \<Rightarrow> Some (Inl ReasonNoTargets)
      | Inr targets \<Rightarrow>
          let (resolved, reason) = (if round = 0 then ResolveVersion targets (pol_Version (rc_Policy rec)) else (rs_resolved st, []))
          in if reason \<noteq> [] then Some (Inl reason)
             else
               let st1 = (if round = 0 then st\<lparr>rs_resolved := resolved, rs_man := (rs_man st)\<lparr>man_ResolvedVersion := resolved\<rparr>\<rparr> else st);
                   kept = dedupeByUID (filterTargets targets (\<lambda>t. tg_Version t = rs_resolved st1))
               in if kept = [] then Some (Inl ReasonNoTargets)
                  else
                    let shuffled = ri_shuffle inp kept;
                        want = Resolve (smp_Replicas (pol_Sampling (rc_Policy rec))) (lim_MaxTargetsPerRound lim)
                    in if int (length shuffled) > want
                       then if want < 0 then None
                            else Some (Inr (take (nat want) shuffled, st1\<lparr>rs_man := (rs_man st1)\<lparr>man_Truncated := True\<rparr>\<rparr>))
                       else Some (Inr (shuffled, st1)))"

text \<open>
  \<open>run\<close>'s loop, by the number of rounds left of \<open>rounds\<close>.  A failure is the result it ends with;
  the outer \<open>None\<close> is the panic of \<open>targetsFor\<close>.
\<close>

fun roundLoop :: "'p pprof \<Rightarrow> PGOLimits \<Rightarrow> Record \<Rightarrow> (nat \<Rightarrow> 'p roundInput) \<Rightarrow> nat \<Rightarrow> nat \<Rightarrow> 'p runState
    \<Rightarrow> (workResult + 'p runState) option" where
  "roundLoop pp lim rec inp rounds 0 st = Some (Inr st)"
| "roundLoop pp lim rec inp rounds (Suc left) st =
     (let round = rounds - Suc left;
          st1 = report (st\<lparr>rs_progress := (rs_progress st)\<lparr>prg_Round := int round\<rparr>\<rparr>);
          stop = expired (ri_ctxErr (inp round)) (ri_now (inp round)) rec
      in if stop \<noteq> [] then Some (Inl (failRun stop st1))
         else case targetsFor lim round rec (inp round) st1 of
             None \<Rightarrow> None
           | Some (Inl reason) \<Rightarrow> Some (Inl (failRun reason st1))
           | Some (Inr (targets, st2)) \<Rightarrow>
               (case runRound pp lim (ri_outs (inp round) targets) st2 of
                  (reason, st3) \<Rightarrow>
                    if reason \<noteq> [] then Some (Inl (failRun reason st3))
                    else if left \<noteq> 0 \<and> \<not> ri_slept (inp round) then Some (Inl (failRun ReasonDeadlineExceeded st3))
                    else roundLoop pp lim rec inp rounds left st3))"

definition newManifest :: "string \<Rightarrow> string \<Rightarrow> Record \<Rightarrow> Manifest" where
  "newManifest versionLabel gateway rec = \<lparr>
     man_Collection = rc_ID rec, man_Namespace = rc_Namespace rec, man_Service = rc_Service rec, man_Profile = profileKind,
     man_ConfigRevision = rc_ConfigRevision rec, man_ResolvedVersion = [], man_VersionLabel = versionLabel,
     man_Sampling = pol_Sampling (rc_Policy rec), man_Attempt = rc_Attempt rec, man_Truncated = False,
     man_Gateway = gateway, man_Samples = []\<rparr>"

definition newRunState :: "string \<Rightarrow> string \<Rightarrow> Record \<Rightarrow> 'p runState" where
  "newRunState versionLabel gateway rec = \<lparr>
     rs_man = newManifest versionLabel gateway rec,
     rs_progress = zeroProgress\<lparr>prg_Rounds := smp_Rounds (pol_Sampling (rc_Policy rec))\<rparr>,
     rs_merged = None, rs_resolved = [], rs_reported = []\<rparr>"

definition finishRun :: "'p pprof \<Rightarrow> PGOLimits \<Rightarrow> Record \<Rightarrow> 'p runState \<Rightarrow> (replica, workResult) prog" where
  "finishRun pp lim rec st =
     (case rs_merged st of
        None \<Rightarrow> Ret (failRun ReasonNoSamples st)
      | Some m \<Rightarrow>
          let merged = pp_compact pp m in
          (case pp_size pp merged of
             None \<Rightarrow> Ret (failRun ReasonSerializeFailed st)
           | Some sz \<Rightarrow>
               if sz > lim_MaxMergedBytes lim then Ret (failRun ReasonMergedTooLarge st)
               else (case pp_write pp merged of
                  None \<Rightarrow> Ret (failRun ReasonSerializeFailed st)
                | Some stored \<Rightarrow>
                    let object = artifactName (rc_ID rec) (rc_Attempt rec) in
                    Put object (nat stored) (\<lambda>r. case r of
                        Some _ \<Rightarrow> emit (Logged ''storing the merged profile failed'') (Ret (failRun ReasonArtifactStoreFailed st))
                      | None \<Rightarrow> Ret \<lparr>wr_Reason = [], wr_Object = object, wr_Bytes = stored, wr_Manifest = Some (rs_man st),
                                     wr_ResolvedVersion = rs_resolved st, wr_Progress = rs_progress st\<rparr>))))"

definition runWork :: "'p pprof \<Rightarrow> PGOLimits \<Rightarrow> string \<Rightarrow> string \<Rightarrow> Record \<Rightarrow> (nat \<Rightarrow> 'p roundInput) \<Rightarrow> (replica, workResult option) prog" where
  "runWork pp lim versionLabel gateway rec inp =
     (let rounds = nat (smp_Rounds (pol_Sampling (rc_Policy rec))) in
      case roundLoop pp lim rec inp rounds rounds (newRunState versionLabel gateway rec) of
        None \<Rightarrow> emit (Panic ''slice bounds out of range'') (Ret None)
      | Some (Inl res) \<Rightarrow> Ret (Some res)
      | Some (Inr st) \<Rightarrow> bind (finishRun pp lim rec (report st)) (\<lambda>res. Ret (Some res)))"

section \<open>Targets of a round\<close>

lemma distinctFrom_props:
  "distinct (map key (distinctFrom key met ts)) \<and> key ` set (distinctFrom key met ts) = key ` set ts - set met \<and>
   set (distinctFrom key met ts) \<subseteq> set ts"
proof (induction ts arbitrary: met)
  case (Cons t ts)
  then show ?case using Cons [of met] Cons [of "key t # met"] by auto
qed simp

lemma dedupeByUID_props:
  "distinct (map tg_UID (dedupeByUID ts))" "set (dedupeByUID ts) \<subseteq> set ts" "tg_UID ` set (dedupeByUID ts) = tg_UID ` set ts"
  using distinctFrom_props [of tg_UID "[]" ts] by (simp_all add: dedupeByUID_def)

lemma distinctVersions_props: "distinct (distinctVersions ts)" "set (distinctVersions ts) = tg_Version ` set ts"
  using distinctFrom_props [of tg_Version "[]" ts] by (simp_all add: distinctVersions_def image_image [symmetric])

text \<open>The targets a version may be resolved from.\<close>

definition versioned :: "Target list \<Rightarrow> string \<Rightarrow> Target set" where
  "versioned ts pin = {t \<in> set ts. tg_Version t \<noteq> [] \<and> (pin \<noteq> [] \<longrightarrow> tg_Version t = pin)}"

lemma ResolveVersion_cases:
  obtains (missing) "versioned ts pin = {}" "ResolveVersion ts pin = ([], ReasonVersionMissing)"
  | (one) v where "tg_Version ` versioned ts pin = {v}" "ResolveVersion ts pin = (v, [])"
  | (conflict) u v where "u \<noteq> v" "{u, v} \<subseteq> tg_Version ` versioned ts pin" "ResolveVersion ts pin = ([], ReasonVersionConflict)"
proof -
  define el where "el = (if pin \<noteq> [] then filterTargets (filterTargets ts (\<lambda>t. tg_Version t \<noteq> [])) (\<lambda>t. tg_Version t = pin)
    else filterTargets ts (\<lambda>t. tg_Version t \<noteq> []))"
  have set: "set (distinctVersions el) = tg_Version ` versioned ts pin"
    by (subst distinctVersions_props) (rule arg_cong [where f = "image tg_Version"], auto simp: el_def filterTargets_def versioned_def)
  have res: "ResolveVersion ts pin = (case distinctVersions el of [] \<Rightarrow> ([], ReasonVersionMissing) | [v] \<Rightarrow> (v, [])
      | _ \<Rightarrow> ([], ReasonVersionConflict))" by (simp add: ResolveVersion_def el_def Let_def)
  consider (a) "distinctVersions el = []" | (b) v where "distinctVersions el = [v]" | (c) v u us where "distinctVersions el = v # u # us"
    by (metis list.exhaust)
  then show thesis
  proof cases
    case a
    then show thesis using res set by (intro missing) simp_all
  next
    case b
    then show thesis using res set by (intro one [of v]) simp_all
  next
    case c
    then have "u \<noteq> v" using distinctVersions_props(1) [of el] by auto
    then show thesis using c res set by (intro conflict [of u v]) auto
  qed
qed

lemma reasons_differ: "ReasonVersionMissing \<noteq> []" "ReasonVersionConflict \<noteq> []"
  "ReasonVersionMissing \<noteq> ReasonVersionConflict"
  by (simp_all add: ReasonVersionMissing_def ReasonVersionConflict_def)

lemma two_versions:
  assumes "(u::string) \<noteq> w" "{u, w} \<subseteq> f ` X"
  shows "\<exists>s \<in> X. \<exists>t \<in> X. f s \<noteq> f t"
proof -
  have "u \<in> f ` X" "w \<in> f ` X" using assms(2) by simp_all
  then show ?thesis using assms(1) by (elim imageE) metis
qed

lemma one_version: "f ` X = {w} \<Longrightarrow> t \<in> X \<Longrightarrow> f t = w"
  by (metis imageI singletonD)

text \<open>
  \<open>ResolveVersion\<close> answers a version exactly when it is the one version the labelled targets
  (those matching the pin, if there is one) carry; it reports the version missing exactly when
  none carries one, and a conflict otherwise.
\<close>

theorem ResolveVersion_spec:
  "(ResolveVersion ts pin = (v, []) \<longleftrightarrow> tg_Version ` versioned ts pin = {v}) \<and>
   (ResolveVersion ts pin = ([], ReasonVersionMissing) \<longleftrightarrow> versioned ts pin = {}) \<and>
   (ResolveVersion ts pin = ([], ReasonVersionConflict) \<longleftrightarrow> (\<exists>t \<in> versioned ts pin. \<exists>u \<in> versioned ts pin. tg_Version t \<noteq> tg_Version u))"
proof (cases rule: ResolveVersion_cases [of ts pin])
  case missing
  then show ?thesis using reasons_differ by simp
next
  case (one w)
  have some: "versioned ts pin \<noteq> {}" using one(1) by (metis image_empty insert_not_empty)
  have same: "(\<exists>t \<in> versioned ts pin. \<exists>u \<in> versioned ts pin. tg_Version t \<noteq> tg_Version u) = False"
    using one_version [OF one(1)] by metis
  show ?thesis unfolding one same using reasons_differ some by simp
next
  case (conflict u w)
  note two = two_versions [OF conflict(1,2)]
  have "tg_Version ` versioned ts pin \<noteq> {v}" using two one_version [of tg_Version "versioned ts pin" v] by metis
  moreover have "versioned ts pin \<noteq> {}" using two by blast
  ultimately show ?thesis using reasons_differ conflict(3) two by simp
qed

section \<open>The fan-out of a round\<close>

text \<open>
  The goroutines of \<open>runRound\<close>: the feeder, \<open>min(maxParallel, len(targets))\<close> samplers over one
  queue, and the unbuffered results channel.  \<open>fan_idle\<close> counts the samplers that wait at the
  queue, \<open>fan_busy\<close> holds the targets being sampled, \<open>fan_ready\<close> the outcomes whose sampler
  waits at the send, \<open>fan_done\<close> what was received, in order.  Once the context has ended the
  feeder may stop and a sampler may return without sending.  \<open>S t out\<close> says that sampling
  \<open>t\<close> may give \<open>out\<close>.
\<close>

record 'o fan =
  fan_queue :: "Target list"
  fan_busy :: "Target list"
  fan_ready :: "'o list"
  fan_done :: "'o list"
  fan_idle :: nat
  fan_ctx :: bool

definition fanInit :: "int \<Rightarrow> Target list \<Rightarrow> 'o fan" where
  "fanInit maxParallel ts = \<lparr>fan_queue = ts, fan_busy = [], fan_ready = [], fan_done = [],
     fan_idle = nat (min maxParallel (int (length ts))), fan_ctx = False\<rparr>"

inductive fanStep :: "(Target \<Rightarrow> 'o \<Rightarrow> bool) \<Rightarrow> 'o fan \<Rightarrow> 'o fan \<Rightarrow> bool" for S where
  take: "fan_queue s = t # q \<Longrightarrow> fan_idle s = Suc n \<Longrightarrow>
    fanStep S s (s\<lparr>fan_queue := q, fan_busy := t # fan_busy s, fan_idle := n\<rparr>)"
| sampled: "fan_busy s = xs @ t # ys \<Longrightarrow> S t out \<Longrightarrow>
    fanStep S s (s\<lparr>fan_busy := xs @ ys, fan_ready := out # fan_ready s\<rparr>)"
| deliver: "fan_ready s = xs @ out # ys \<Longrightarrow>
    fanStep S s (s\<lparr>fan_ready := xs @ ys, fan_done := fan_done s @ [out], fan_idle := Suc (fan_idle s)\<rparr>)"
| cancelled: "fanStep S s (s\<lparr>fan_ctx := True\<rparr>)"
| abandon: "fan_ctx s \<Longrightarrow> fan_ready s = xs @ out # ys \<Longrightarrow> fanStep S s (s\<lparr>fan_ready := xs @ ys\<rparr>)"
| stop_feeding: "fan_ctx s \<Longrightarrow> fanStep S s (s\<lparr>fan_queue := []\<rparr>)"

text \<open>The results channel closes when every sampler has returned.\<close>

definition fanClosed :: "'o fan \<Rightarrow> bool" where
  "fanClosed s \<longleftrightarrow> fan_busy s = [] \<and> fan_ready s = [] \<and> (fan_queue s = [] \<or> fan_ctx s \<and> fan_idle s = 0)"

definition fanned :: "(Target \<Rightarrow> 'o \<Rightarrow> bool) \<Rightarrow> int \<Rightarrow> Target list \<Rightarrow> 'o list \<Rightarrow> bool" where
  "fanned S maxParallel ts outs \<longleftrightarrow>
     (\<exists>s. (fanStep S)\<^sup>*\<^sup>* (fanInit maxParallel ts) s \<and> fanClosed s \<and> fan_done s = outs)"

inductive_cases fanStepE: "fanStep S s s'"

text \<open>
  The invariant of the fan-out: what left the queue is in one place, each outcome came from a
  target of its own, and the samplers are never more than were started.
\<close>

definition outcomeOf :: "('o \<Rightarrow> string) \<Rightarrow> (Target \<Rightarrow> 'o \<Rightarrow> bool) \<Rightarrow> bool" where
  "outcomeOf u S \<longleftrightarrow> (\<forall>t out. S t out \<longrightarrow> u out = tg_UID t)"

definition fan_uids :: "('o \<Rightarrow> string) \<Rightarrow> 'o fan \<Rightarrow> string multiset" where
  "fan_uids u s = mset (map tg_UID (fan_queue s)) + mset (map tg_UID (fan_busy s)) + mset (map u (fan_ready s)) +
     mset (map u (fan_done s))"

definition fan_inv :: "('o \<Rightarrow> string) \<Rightarrow> (Target \<Rightarrow> 'o \<Rightarrow> bool) \<Rightarrow> int \<Rightarrow> Target list \<Rightarrow> 'o fan \<Rightarrow> bool" where
  "fan_inv u S maxParallel ts s \<longleftrightarrow>
     fan_uids u s \<subseteq># mset (map tg_UID ts) \<and>
     (\<not> fan_ctx s \<longrightarrow> fan_uids u s = mset (map tg_UID ts)) \<and>
     fan_idle s + length (fan_busy s) + length (fan_ready s) \<le> nat (min maxParallel (int (length ts))) \<and>
     set (fan_queue s) \<subseteq> set ts \<and> set (fan_busy s) \<subseteq> set ts \<and>
     (\<forall>out \<in> set (fan_ready s) \<union> set (fan_done s). \<exists>t \<in> set ts. S t out)"

lemma fan_inv_init: "fan_inv u S mp ts (fanInit mp ts)"
  by (simp add: fan_inv_def fanInit_def fan_uids_def)

lemma fan_inv_step:
  assumes "fanStep S s s'" and "outcomeOf u S" and "fan_inv u S mp ts s"
  shows "fan_inv u S mp ts s'"
  using assms(1)
proof cases
  case (sampled xs t ys out)
  then have "u out = tg_UID t" using assms(2) by (simp add: outcomeOf_def)
  moreover have "t \<in> set ts" using sampled assms(3) by (auto simp: fan_inv_def)
  ultimately show ?thesis using sampled assms(3) by (auto simp: fan_inv_def fan_uids_def)
next
  case (abandon xs out ys)
  have "fan_uids u s' \<subseteq># fan_uids u s" unfolding abandon(1) fan_uids_def using abandon(3) by (simp add: subseteq_mset_def)
  then show ?thesis using abandon assms(3) by (auto simp: fan_inv_def intro: subset_mset.order_trans)
next
  case stop_feeding
  have "fan_uids u s' \<subseteq># fan_uids u s" unfolding stop_feeding(1) fan_uids_def by simp
  then show ?thesis using stop_feeding assms(3) by (auto simp: fan_inv_def intro: subset_mset.order_trans)
qed (use assms(3) in \<open>auto simp: fan_inv_def fan_uids_def\<close>)

lemma fan_reach:
  assumes "(fanStep S)\<^sup>*\<^sup>* (fanInit mp ts) s" and "outcomeOf u S"
  shows "fan_inv u S mp ts s"
  using assms(1) by induction (auto intro: fan_inv_init fan_inv_step [OF _ assms(2)])

lemma fan_done_sub:
  assumes "fan_inv u S mp ts s"
  shows "mset (map u (fan_done s)) \<subseteq># mset (map tg_UID ts)"
proof -
  have "mset (map u (fan_done s)) \<subseteq># fan_uids u s" unfolding fan_uids_def by (rule mset_subset_eq_add_right)
  also have "\<dots> \<subseteq># mset (map tg_UID ts)" using assms by (simp add: fan_inv_def)
  finally show ?thesis .
qed

lemma fannedD:
  assumes "fanned S mp ts outs" and "outcomeOf u S" and "distinct (map tg_UID ts)"
  shows "length outs \<le> length ts" "distinct (map u outs)" "\<forall>out \<in> set outs. \<exists>t \<in> set ts. S t out"
proof -
  obtain s where "(fanStep S)\<^sup>*\<^sup>* (fanInit mp ts) s" "fan_done s = outs" using assms(1) by (auto simp: fanned_def)
  then have i: "fan_inv u S mp ts s" and d: "fan_done s = outs" using fan_reach assms(2) by blast+
  have sub: "mset (map u outs) \<subseteq># mset (map tg_UID ts)" using fan_done_sub [OF i] d by simp
  show "length outs \<le> length ts" using size_mset_mono [OF sub] by simp
  show "distinct (map u outs)" by (rule distinct_submset [OF sub assms(3)])
  show "\<forall>out \<in> set outs. \<exists>t \<in> set ts. S t out" using i d by (auto simp: fan_inv_def)
qed

text \<open>What \<open>sample\<close> may give for a target: the sink holds what the transfer wrote to it.\<close>

fun sinkWrites :: "bytes list \<Rightarrow> sampleSink \<Rightarrow> sampleSink" where
  "sinkWrites [] s = s"
| "sinkWrites (b # bs) s = sinkWrites bs (snd (sinkWrite b s))"

definition sampleOf :: "'p pprof \<Rightarrow> PGOLimits \<Rightarrow> int \<Rightarrow> Target \<Rightarrow> 'p sampleOutcome \<Rightarrow> bool" where
  "sampleOf pp lim round t out \<longleftrightarrow>
     (\<exists>now confirmed bs code. out = sample pp lim round t now confirmed (sinkWrites bs (newSampleSink (lim_MaxSampleBytes lim))) code)"

lemma decodeSample_reason: "decodeSample pp limit body = Inl reason \<Longrightarrow> reason \<noteq> sampleResultOK"
  by (auto simp: decodeSample_def Let_def sampleResultOK_def sample_reasons split: option.splits if_splits)

lemma sample_fields:
  "sm_PodUID (out_sample (sample pp lim round t now c sink code)) = tg_UID t"
  "sm_Round (out_sample (sample pp lim round t now c sink code)) = round"
  "sm_Result (out_sample (sample pp lim round t now c sink code)) = sampleResultOK \<Longrightarrow>
     out_profile (sample pp lim round t now c sink code) \<noteq> None"
proof -
  consider "c \<noteq> None" | "c = None" "sink_overflowed sink \<or> code \<noteq> ''ok''"
    | reason where "c = None" "\<not> sink_overflowed sink" "code = ''ok''" "decodeSample pp (lim_MaxSampleBytes lim) (sink_buf sink) = Inl reason"
    | p where "c = None" "\<not> sink_overflowed sink" "code = ''ok''" "decodeSample pp (lim_MaxSampleBytes lim) (sink_buf sink) = Inr p"
    by (cases "decodeSample pp (lim_MaxSampleBytes lim) (sink_buf sink)") blast+
  then show "sm_PodUID (out_sample (sample pp lim round t now c sink code)) = tg_UID t"
    "sm_Round (out_sample (sample pp lim round t now c sink code)) = round"
    "sm_Result (out_sample (sample pp lim round t now c sink code)) = sampleResultOK \<Longrightarrow>
       out_profile (sample pp lim round t now c sink code) \<noteq> None"
    using decodeSample_reason
    by (cases; auto simp: sample_def sampleResultOK_def ReasonTargetChanged_def ReasonDiscoveryUnavailable_def ReasonSampleTooLarge_def split: if_splits)+
qed

abbreviation out_uid :: "'p sampleOutcome \<Rightarrow> string" where
  "out_uid out \<equiv> sm_PodUID (out_sample out)"

lemma sampleOf_fields:
  "outcomeOf out_uid (sampleOf pp lim round)"
  "sampleOf pp lim round t out \<Longrightarrow> sm_Round (out_sample out) = round"
  "sampleOf pp lim round t out \<Longrightarrow> sm_Result (out_sample out) = sampleResultOK \<Longrightarrow> out_profile out \<noteq> None"
  unfolding outcomeOf_def sampleOf_def by (auto simp only: sample_fields(1,2) dest: sample_fields(3))

text \<open>
  C25: While a round fans out, at most \<open>maxParallel\<close> samples are in flight, no Pod is sampled twice,
  and when the results channel closes without the context having ended, every target has given
  exactly one outcome.
\<close>

theorem fanout_spec:
  assumes "(fanStep (sampleOf pp lim round))\<^sup>*\<^sup>* (fanInit maxParallel ts) s" and "distinct (map tg_UID ts)"
  shows "length (fan_busy s) + length (fan_ready s) \<le> nat maxParallel \<and>
    distinct (map out_uid (fan_done s)) \<and>
    (fanClosed s \<and> \<not> fan_ctx s \<longrightarrow> mset (map out_uid (fan_done s)) = mset (map tg_UID ts))"
proof -
  have i: "fan_inv out_uid (sampleOf pp lim round) maxParallel ts s"
    using fan_reach [OF assms(1) sampleOf_fields(1)] .
  note sub = fan_done_sub [OF i]
  have "length (fan_busy s) + length (fan_ready s) \<le> nat maxParallel" using i unfolding fan_inv_def by linarith
  moreover have "mset (map out_uid (fan_done s)) = mset (map tg_UID ts)" if "fanClosed s" "\<not> fan_ctx s"
    using i that by (simp add: fan_inv_def fan_uids_def fanClosed_def)
  ultimately show ?thesis using distinct_submset [OF sub assms(2)] by simp
qed

definition demo_target :: Target where
  "demo_target = \<lparr>tg_Namespace = ''ns'', tg_Service = ''svc'', tg_Pod = ''p'', tg_Node = ''n'', tg_PodIP = ''10.0.0.1'',
     tg_Port = 6060, tg_Version = ''v1'', tg_UID = ''u''\<rparr>"

section \<open>What reaches the decoder\<close>

lemma sinkWrite_limit: "int (length (sink_buf s)) \<le> sink_limit s \<Longrightarrow>
    int (length (sink_buf (snd (sinkWrite b s)))) \<le> sink_limit s \<and> sink_limit (snd (sinkWrite b s)) = sink_limit s"
  by (auto simp: sinkWrite_def)

lemma sinkWrites_limit: "int (length (sink_buf s)) \<le> sink_limit s \<Longrightarrow>
    int (length (sink_buf (sinkWrites bs s))) \<le> sink_limit s"
proof (induction bs arbitrary: s)
  case (Cons b bs)
  then show ?case using sinkWrite_limit [of s b] Cons.IH [of "snd (sinkWrite b s)"] by simp
qed simp

text \<open>
  C26: The profile decoder never sees more than \<open>maxSampleBytes\<close> bytes and never a gzip stream:
  a sample is decoded the same by any two decoders that agree on shorter plain input.
\<close>

theorem decoder_input_bounded:
  fixes bs
  assumes "0 \<le> lim_MaxSampleBytes lim" and "lim_MaxSampleBytes lim \<le> 268435456"
    and "\<forall>b. int (length b) \<le> lim_MaxSampleBytes lim \<longrightarrow> \<not> hasPrefix gzipMagic b \<longrightarrow> d b = d' b"
  defines "sink \<equiv> sinkWrites bs (newSampleSink (lim_MaxSampleBytes lim))"
  shows "sample (pp\<lparr>pp_decode := d\<rparr>) lim round t now confirmed sink code =
    sample (pp\<lparr>pp_decode := d'\<rparr>) lim round t now confirmed sink code"
proof -
  let ?m = "lim_MaxSampleBytes lim"
  have len: "int (length (sink_buf sink)) \<le> ?m"
    using sinkWrites_limit [of "newSampleSink ?m" bs] assms(1) by (simp add: sink_def newSampleSink_def)
  have lim: "i64 (?m + 1) = ?m + 1" using assms(1,2) by (simp add: in_i64_def)
  have "decodeSample (pp\<lparr>pp_decode := d\<rparr>) ?m (sink_buf sink) = decodeSample (pp\<lparr>pp_decode := d'\<rparr>) ?m (sink_buf sink)"
    using len assms(3) by (auto simp: decodeSample_def Let_def lim split: option.split)
  then show ?thesis by (cases confirmed) (simp_all add: sample_def)
qed


definition demo_pprof :: "nat pprof" where
  "demo_pprof = \<lparr>pp_decode = (\<lambda>b. Some (length b)), pp_merge = (\<lambda>a b. Some (a + b)), pp_compact = id,
     pp_size = (\<lambda>p. Some (int p)), pp_write = (\<lambda>p. Some (int p)), pp_gunzip = (\<lambda>_. None)\<rparr>"

lemma decoder_input_bounded_witness:
  "sample (demo_pprof\<lparr>pp_decode := \<lambda>b. Some 1\<rparr>) shippedLimits 0 demo_target 0 None
      (sinkWrites [[7]] (newSampleSink (lim_MaxSampleBytes shippedLimits))) ''ok'' =
   sample (demo_pprof\<lparr>pp_decode := \<lambda>b. if length b \<le> 16777216 then Some 1 else None\<rparr>) shippedLimits 0 demo_target 0 None
      (sinkWrites [[7]] (newSampleSink (lim_MaxSampleBytes shippedLimits))) ''ok''"
  by (rule decoder_input_bounded) (simp_all add: shippedLimits_def)


section \<open>Counting\<close>

text \<open>
  What holds of the running state after \<open>n\<close> rounds: the progress counts the manifest's samples, a
  Pod appears at most once per round, and every round that ended well has a good sample.
\<close>

definition oks :: "Sample list \<Rightarrow> nat" where
  "oks ss = length (filter (\<lambda>s. sm_Result s = sampleResultOK) ss)"

definition counted :: "Manifest \<Rightarrow> Progress \<Rightarrow> bool" where
  "counted man pr \<longleftrightarrow> prg_SamplesOK pr = int (oks (man_Samples man)) \<and>
     prg_SamplesOK pr + prg_SamplesFailed pr = int (length (man_Samples man))"

definition run_inv :: "int \<Rightarrow> nat \<Rightarrow> 'p runState \<Rightarrow> bool" where
  "run_inv want n st \<longleftrightarrow>
     counted (rs_man st) (rs_progress st) \<and>
     int (length (man_Samples (rs_man st))) \<le> int n * want \<and>
     (\<forall>r < n. \<exists>s \<in> set (man_Samples (rs_man st)). sm_Round s = int r \<and> sm_Result s = sampleResultOK) \<and>
     ((\<exists>s \<in> set (man_Samples (rs_man st)). sm_Result s = sampleResultOK) \<longrightarrow> rs_merged st \<noteq> None)"

text \<open>Absorbing a list of outcomes of one round adds at most that many samples.\<close>

definition absorbed :: "int \<Rightarrow> nat \<Rightarrow> 'p runState \<Rightarrow> int \<Rightarrow> 'p runState \<Rightarrow> int \<Rightarrow> bool" where
  "absorbed round k st ok st' ok' \<longleftrightarrow>
     (\<exists>new. man_Samples (rs_man st') = man_Samples (rs_man st) @ new \<and> length new \<le> k \<and>
        (\<forall>s \<in> set new. sm_Round s = round) \<and> ok' = ok + int (oks new)) \<and>
     (counted (rs_man st) (rs_progress st) \<longrightarrow> counted (rs_man st') (rs_progress st')) \<and>
     (rs_merged st \<noteq> None \<longrightarrow> rs_merged st' \<noteq> None) \<and> (ok' \<noteq> ok \<longrightarrow> rs_merged st' \<noteq> None) \<and>
     rs_resolved st' = rs_resolved st"

lemma mergeOutcome_props:
  assumes "mergeOutcome pp out merged = (s, merged')" and "sm_Result (out_sample out) = sampleResultOK \<longrightarrow> out_profile out \<noteq> None"
  shows "sm_Round s = sm_Round (out_sample out) \<and> (merged \<noteq> None \<longrightarrow> merged' \<noteq> None) \<and>
    (sm_Result s = sampleResultOK \<longrightarrow> merged' \<noteq> None)"
proof (cases "out_profile out")
  case None
  then show ?thesis using assms by (simp add: mergeOutcome_def)
next
  case (Some p)
  show ?thesis
  proof (cases merged)
    case None
    then show ?thesis using assms(1) by (auto simp: Some mergeOutcome_def)
  next
    case m: (Some m)
    show ?thesis
    proof (cases "pp_merge pp m p")
      case None
      then show ?thesis using assms(1) by (auto simp: Some m mergeOutcome_def ReasonIncompatibleProfile_def sampleResultOK_def)
    next
      case q: (Some q)
      show ?thesis using assms(1) by (auto simp: Some m q mergeOutcome_def)
    qed
  qed
qed

lemma absorb_absorbed:
  assumes "absorb pp lim out st ok = (f, st', ok')" and "sm_Round (out_sample out) = round"
    and "sm_Result (out_sample out) = sampleResultOK \<longrightarrow> out_profile out \<noteq> None"
  shows "absorbed round 1 st ok st' ok'"
proof -
  obtain s merged where m: "mergeOutcome pp out (rs_merged st) = (s, merged)" by (cases "mergeOutcome pp out (rs_merged st)")
  note mp = mergeOutcome_props [OF m assms(3)]
  have st': "st' = countSample s (st\<lparr>rs_merged := merged\<rparr>)" "ok' = (if sm_Result s = sampleResultOK then ok + 1 else ok)"
    using assms(1) m by (auto simp: absorb_def Let_def)
  then show ?thesis using mp assms(2) by (auto simp: absorbed_def countSample_def Let_def counted_def oks_def)
qed

lemma absorbed_trans:
  assumes "absorbed round k a ok b ok'" and "absorbed round k' b ok' c ok''"
  shows "absorbed round (k + k') a ok c ok''"
proof -
  obtain n1 where 1: "man_Samples (rs_man b) = man_Samples (rs_man a) @ n1" "length n1 \<le> k" "\<forall>s \<in> set n1. sm_Round s = round"
    "ok' = ok + int (oks n1)" using assms(1) unfolding absorbed_def by blast
  obtain n2 where 2: "man_Samples (rs_man c) = man_Samples (rs_man b) @ n2" "length n2 \<le> k'" "\<forall>s \<in> set n2. sm_Round s = round"
    "ok'' = ok' + int (oks n2)" using assms(2) unfolding absorbed_def by blast
  have "man_Samples (rs_man c) = man_Samples (rs_man a) @ (n1 @ n2) \<and> length (n1 @ n2) \<le> k + k' \<and>
      (\<forall>s \<in> set (n1 @ n2). sm_Round s = round) \<and> ok'' = ok + int (oks (n1 @ n2))"
    using 1 2 by (auto simp: oks_def)
  then show ?thesis using assms unfolding absorbed_def by (metis add.right_neutral)
qed

lemma absorbed_refl: "absorbed round k st ok st ok"
  by (auto simp: absorbed_def oks_def intro!: exI [of _ "[]"])

lemma absorbAll_absorbed:
  assumes "absorbAll pp lim outs f st ok = (f', st', ok')"
    and "\<forall>out \<in> set outs. sm_Round (out_sample out) = round \<and> (sm_Result (out_sample out) = sampleResultOK \<longrightarrow> out_profile out \<noteq> None)"
  shows "absorbed round (length outs) st ok st' ok'"
  using assms
proof (induction outs arbitrary: f st ok)
  case Nil
  then show ?case by (simp add: absorbed_refl)
next
  case (Cons out outs)
  show ?case
  proof (cases "f = []")
    case True
    obtain g st1 ok1 where a: "absorb pp lim out st ok = (g, st1, ok1)" by (cases "absorb pp lim out st ok")
    have "absorbed round 1 st ok st1 ok1" using absorb_absorbed [OF a] Cons.prems(2) by simp
    moreover have "absorbed round (length outs) st1 ok1 st' ok'" using Cons True a by simp
    ultimately show ?thesis using absorbed_trans [of round 1] by fastforce
  next
    case False
    then have "absorbed round (length outs) st ok st' ok'" using Cons by simp
    then show ?thesis using absorbed_trans [OF absorbed_refl [of round 1 st ok]] by fastforce
  qed
qed


text \<open>What the loop may rely on: the shuffle permutes and the outcomes come out of the fan-out.\<close>

definition inputs_ok :: "'p pprof \<Rightarrow> PGOLimits \<Rightarrow> Record \<Rightarrow> (nat \<Rightarrow> 'p roundInput) \<Rightarrow> bool" where
  "inputs_ok pp lim rec inp \<longleftrightarrow>
     (\<forall>round. (\<forall>ts. mset (ri_shuffle (inp round) ts) = mset ts) \<and>
        (\<forall>ts. distinct (map tg_UID ts) \<longrightarrow>
           fanned (sampleOf pp lim (int round)) (smp_MaxParallel (pol_Sampling (rc_Policy rec))) ts (ri_outs (inp round) ts)))"

abbreviation wanted :: "PGOLimits \<Rightarrow> Record \<Rightarrow> int" where
  "wanted lim rec \<equiv> Resolve (smp_Replicas (pol_Sampling (rc_Policy rec))) (lim_MaxTargetsPerRound lim)"

lemma dedupe_shuffle:
  assumes "\<forall>ts. mset (sh ts) = mset ts"
  shows "distinct (map tg_UID (sh (dedupeByUID ts)))" "set (sh (dedupeByUID ts)) \<subseteq> set ts"
proof -
  have m: "mset (sh (dedupeByUID ts)) = mset (dedupeByUID ts)" using assms by blast
  then have "mset (map tg_UID (sh (dedupeByUID ts))) = mset (map tg_UID (dedupeByUID ts))" by simp
  then show "distinct (map tg_UID (sh (dedupeByUID ts)))" using dedupeByUID_props(1) mset_eq_imp_distinct_iff by blast
  show "set (sh (dedupeByUID ts)) \<subseteq> set ts" using mset_eq_setD [OF m] dedupeByUID_props(2) by blast
qed

lemma targetsFor_props:
  assumes "targetsFor lim round rec inp st = Some (Inr (ts, st'))" and "\<forall>ts. mset (ri_shuffle inp ts) = mset ts"
  shows "distinct (map tg_UID ts)" "int (length ts) \<le> wanted lim rec"
    "\<exists>all. ri_targets inp = Inr all \<and> set ts \<subseteq> set all" "\<forall>t \<in> set ts. tg_Version t = rs_resolved st'"
    "man_Samples (rs_man st') = man_Samples (rs_man st)" "rs_progress st' = rs_progress st" "rs_merged st' = rs_merged st"
    "round = 0 \<Longrightarrow> \<exists>all. ri_targets inp = Inr all \<and> ResolveVersion all (pol_Version (rc_Policy rec)) = (rs_resolved st', [])"
    "round \<noteq> 0 \<Longrightarrow> rs_resolved st' = rs_resolved st"
proof -
  obtain all where all: "ri_targets inp = Inr all" using assms(1) by (auto simp: targetsFor_def split: sum.splits)
  obtain v r where res: "(if round = 0 then ResolveVersion all (pol_Version (rc_Policy rec)) else (rs_resolved st, [])) = (v, r)"
    by fastforce
  define kept where "kept = dedupeByUID (filterTargets all (\<lambda>t. tg_Version t = v))"
  define st1 where "st1 = (if round = 0 then st\<lparr>rs_resolved := v, rs_man := (rs_man st)\<lparr>man_ResolvedVersion := v\<rparr>\<rparr> else st)"
  have st1: "rs_resolved st1 = v" "man_Samples (rs_man st1) = man_Samples (rs_man st)" "rs_progress st1 = rs_progress st"
    "rs_merged st1 = rs_merged st" using res by (auto simp: st1_def split: if_splits)
  note sh = dedupe_shuffle [OF assms(2), of "filterTargets all (\<lambda>t. tg_Version t = v)", folded kept_def]
  have "r = []" and cut: "(if int (length (ri_shuffle inp kept)) > wanted lim rec
      then if wanted lim rec < 0 then None
           else Some (Inr (take (nat (wanted lim rec)) (ri_shuffle inp kept), st1\<lparr>rs_man := (rs_man st1)\<lparr>man_Truncated := True\<rparr>\<rparr>))
      else Some (Inr (ri_shuffle inp kept, st1))) = Some (Inr (ts, st') :: string + _)"
    using assms(1) unfolding targetsFor_def all sum.case res st1_def [symmetric] Let_def prod.case st1(1) kept_def [symmetric]
    by (simp_all split: if_splits)
  have f: "ts = take (nat (wanted lim rec)) (ri_shuffle inp kept) \<or> ts = ri_shuffle inp kept"
    "int (length ts) \<le> wanted lim rec" "rs_resolved st' = v"
    "man_Samples (rs_man st') = man_Samples (rs_man st)" "rs_progress st' = rs_progress st" "rs_merged st' = rs_merged st"
    using cut st1 by (auto split: if_splits)
  then have sub: "set ts \<subseteq> set (ri_shuffle inp kept)" using set_take_subset by fastforce
  show "distinct (map tg_UID ts)" using f(1) sh(1) by (auto simp: take_map [symmetric] distinct_take)
  show "int (length ts) \<le> wanted lim rec" by (rule f(2))
  show "\<exists>all. ri_targets inp = Inr all \<and> set ts \<subseteq> set all" using all sub sh(2) by (auto simp: filterTargets_def)
  show "\<forall>t \<in> set ts. tg_Version t = rs_resolved st'" using sub sh(2) f(3) by (auto simp: filterTargets_def)
  show "round = 0 \<Longrightarrow> \<exists>all. ri_targets inp = Inr all \<and> ResolveVersion all (pol_Version (rc_Policy rec)) = (rs_resolved st', [])"
    using all f(3) res \<open>r = []\<close> by simp
  show "round \<noteq> 0 \<Longrightarrow> rs_resolved st' = rs_resolved st" using f(3) res by simp
  show "man_Samples (rs_man st') = man_Samples (rs_man st)" "rs_progress st' = rs_progress st" "rs_merged st' = rs_merged st"
    by (rule f)+
qed

lemma targetsFor_total: "0 \<le> wanted lim rec \<Longrightarrow> targetsFor lim round rec inp st \<noteq> None"
  by (auto simp: targetsFor_def Let_def split: sum.splits prod.splits)

lemma runRound_inv:
  assumes "runRound pp lim outs st = (reason, st')" and "run_inv want n st" and "int (length outs) \<le> want"
    and "\<forall>out \<in> set outs. sm_Round (out_sample out) = int n \<and> (sm_Result (out_sample out) = sampleResultOK \<longrightarrow> out_profile out \<noteq> None)"
  shows "counted (rs_man st') (rs_progress st')" "int (length (man_Samples (rs_man st'))) \<le> int (Suc n) * want"
    "reason = [] \<Longrightarrow> run_inv want (Suc n) st'"
proof -
  obtain f ok where a: "absorbAll pp lim outs [] st 0 = (f, st', ok)" and r: "reason = [] \<Longrightarrow> ok \<noteq> 0"
    using assms(1) by (auto simp: runRound_def ReasonNoSamples_def split: prod.splits if_splits)
  note ab = absorbAll_absorbed [OF a assms(4)]
  obtain new where new: "man_Samples (rs_man st') = man_Samples (rs_man st) @ new" "length new \<le> length outs"
    "\<forall>s \<in> set new. sm_Round s = int n" "ok = int (oks new)" using ab unfolding absorbed_def by auto
  have old: "run_inv want n st" by (rule assms(2))
  show c: "counted (rs_man st') (rs_progress st')" using ab old unfolding absorbed_def run_inv_def by blast
  have "int (length (man_Samples (rs_man st))) + int (length new) \<le> int n * want + want"
    using old new(2) assms(3) unfolding run_inv_def by linarith
  then show len: "int (length (man_Samples (rs_man st'))) \<le> int (Suc n) * want" by (simp add: new(1) distrib_right)
  assume "reason = []"
  then have "ok \<noteq> 0" by (rule r)
  then have "filter (\<lambda>s. sm_Result s = sampleResultOK) new \<noteq> []" using new(4) by (auto simp: oks_def)
  then obtain s where s: "s \<in> set new" "sm_Result s = sampleResultOK" by (auto simp: filter_empty_conv)
  have good: "\<exists>s \<in> set (man_Samples (rs_man st')). sm_Round s = int k \<and> sm_Result s = sampleResultOK" if "k < Suc n" for k
  proof (cases "k = n")
    case True
    then show ?thesis using s new(1,3) by auto
  next
    case False
    then have "k < n" using that by simp
    then show ?thesis using old unfolding run_inv_def by (auto simp: new(1))
  qed
  have "rs_merged st' \<noteq> None" using ab \<open>ok \<noteq> 0\<close> unfolding absorbed_def by blast
  then show "run_inv want (Suc n) st'" using c len good unfolding run_inv_def by blast
qed

text \<open>The outcome of the loop: a failure with a counted manifest, or every round done.\<close>

definition loop_ok :: "int \<Rightarrow> nat \<Rightarrow> workResult + 'p runState \<Rightarrow> bool" where
  "loop_ok want rounds out \<longleftrightarrow> (case out of
     Inl res \<Rightarrow> wr_Object res = [] \<and> wr_Reason res \<noteq> [] \<and>
       (\<exists>man. wr_Manifest res = Some man \<and> counted man (wr_Progress res) \<and> int (length (man_Samples man)) \<le> int rounds * want)
   | Inr st \<Rightarrow> run_inv want rounds st)"

lemma loop_ok_fail:
  "counted (rs_man st) (rs_progress st) \<Longrightarrow> int (length (man_Samples (rs_man st))) \<le> int rounds * want \<Longrightarrow> reason \<noteq> [] \<Longrightarrow>
    loop_ok want rounds (Inl (failRun reason st))"
  by (simp add: loop_ok_def failRun_def)

lemma expired_reason: "expired c now rec \<noteq> [] \<Longrightarrow> expired c now rec = ReasonDeadlineExceeded"
  by (auto simp: expired_def split: option.splits if_splits)

lemma targetsFor_reason: "targetsFor lim round rec inp st = Some (Inl reason) \<Longrightarrow> reason \<noteq> []"
  by (auto simp: targetsFor_def Let_def ReasonNoTargets_def split: sum.splits prod.splits if_splits)

lemma run_inv_report: "run_inv want n (report (st\<lparr>rs_progress := (rs_progress st)\<lparr>prg_Round := x\<rparr>\<rparr>)) = run_inv want n st"
  by (simp add: run_inv_def report_def counted_def)

lemma roundLoop_ok:
  assumes "inputs_ok pp lim rec inp" and "0 \<le> wanted lim rec"
  shows "run_inv (wanted lim rec) n st \<Longrightarrow> n + left = rounds \<Longrightarrow>
    \<exists>out. roundLoop pp lim rec inp rounds left st = Some out \<and> loop_ok (wanted lim rec) rounds out"
proof (induction left arbitrary: n st)
  case 0
  then show ?case by (simp add: loop_ok_def)
next
  case (Suc left)
  let ?want = "wanted lim rec"
  have n: "rounds - Suc left = n" using Suc.prems(2) by simp
  define st1 where "st1 = report (st\<lparr>rs_progress := (rs_progress st)\<lparr>prg_Round := int n\<rparr>\<rparr>)"
  have i1: "run_inv ?want n st1" unfolding st1_def run_inv_report by (rule Suc.prems(1))
  have le: "int k * ?want \<le> int rounds * ?want" if "k \<le> rounds" for k using that assms(2) by (intro mult_right_mono) auto
  have c1: "counted (rs_man st1) (rs_progress st1)" "int (length (man_Samples (rs_man st1))) \<le> int rounds * ?want"
    using i1 le [of n] Suc.prems(2) unfolding run_inv_def by auto
  note fail1 = loop_ok_fail [OF c1]
  show ?case
  proof (cases "expired (ri_ctxErr (inp n)) (ri_now (inp n)) rec = []")
    case False
    then show ?thesis using fail1 by (simp add: n Let_def st1_def)
  next
    case live: True
    obtain t where t: "targetsFor lim n rec (inp n) st1 = Some t" using targetsFor_total [OF assms(2)] by blast
    show ?thesis
    proof (cases t)
      case (Inl reason)
      then have "reason \<noteq> []" using t targetsFor_reason by blast
      then show ?thesis using Inl live t fail1 by (simp add: n Let_def st1_def)
    next
      case (Inr r)
      obtain ts st2 where ts: "r = (ts, st2)" by (cases r)
      have perm: "\<forall>ts. mset (ri_shuffle (inp n) ts) = mset ts" using assms(1) by (simp add: inputs_ok_def)
      note tp = targetsFor_props [OF t [unfolded Inr ts] perm]
      have i2: "run_inv ?want n st2" using i1 tp(5-7) by (simp add: run_inv_def counted_def)
      note fan = fannedD [OF _ sampleOf_fields(1) tp(1)]
      have fd: "fanned (sampleOf pp lim (int n)) (smp_MaxParallel (pol_Sampling (rc_Policy rec))) ts (ri_outs (inp n) ts)"
        using assms(1) tp(1) by (simp add: inputs_ok_def)
      have outs: "\<forall>out \<in> set (ri_outs (inp n) ts). sm_Round (out_sample out) = int n \<and>
          (sm_Result (out_sample out) = sampleResultOK \<longrightarrow> out_profile out \<noteq> None)"
        using fan(3) [OF fd] sampleOf_fields(2,3) by metis
      have "int (length (ri_outs (inp n) ts)) \<le> ?want" using fan(1) [OF fd] tp(2) by linarith
      obtain reason st3 where rr: "runRound pp lim (ri_outs (inp n) ts) st2 = (reason, st3)" by fastforce
      note ri = runRound_inv [OF rr i2 \<open>int (length (ri_outs (inp n) ts)) \<le> ?want\<close> outs]
      have c3: "counted (rs_man st3) (rs_progress st3)" "int (length (man_Samples (rs_man st3))) \<le> int rounds * ?want"
        using ri(1,2) le [of "Suc n"] Suc.prems(2) by linarith+
      have "\<exists>out. roundLoop pp lim rec inp rounds left st3 = Some out \<and> loop_ok ?want rounds out" if "reason = []"
        using Suc.IH [OF ri(3) [OF that]] Suc.prems(2) by simp
      then show ?thesis using live t Inr ts rr loop_ok_fail [OF c3] by (auto simp: n Let_def st1_def ReasonDeadlineExceeded_def)
    qed
  qed
qed

text \<open>A sequential fan-out: one sampler takes the targets in order.\<close>

lemma fan_one:
  assumes "S t (f t)" and "fan_idle s = Suc n" and "fan_queue s = t # q" and "fan_busy s = []" and "fan_ready s = []"
  shows "(fanStep S)\<^sup>*\<^sup>* s (s\<lparr>fan_queue := q, fan_done := fan_done s @ [f t]\<rparr>)"
proof -
  let ?a = "s\<lparr>fan_queue := q, fan_busy := [t], fan_idle := n\<rparr>"
  let ?b = "?a\<lparr>fan_busy := [], fan_ready := [f t]\<rparr>"
  have "fanStep S s ?a" using fanStep.take [of s t q n S] assms by simp
  moreover have "fanStep S ?a ?b" using fanStep.sampled [of ?a "[]" t "[]" S "f t"] assms by simp
  moreover have "fanStep S ?b (s\<lparr>fan_queue := q, fan_done := fan_done s @ [f t]\<rparr>)"
    using fanStep.deliver [of ?b "[]" "f t" "[]" S] assms(2,4,5) by (cases s) simp
  ultimately show ?thesis by (meson converse_rtranclp_into_rtranclp r_into_rtranclp)
qed

lemma fan_seq:
  assumes "\<forall>t \<in> set ts. S t (f t)" and "fan_idle s = Suc n" and "fan_queue s = ts" and "fan_busy s = []" and "fan_ready s = []"
  shows "(fanStep S)\<^sup>*\<^sup>* s (s\<lparr>fan_queue := [], fan_done := fan_done s @ map f ts\<rparr>)"
  using assms
proof (induction ts arbitrary: s)
  case Nil
  then have "s\<lparr>fan_queue := [], fan_done := fan_done s @ map f []\<rparr> = s" by (cases s) simp
  then show ?case by simp
next
  case (Cons t ts)
  let ?s = "s\<lparr>fan_queue := ts, fan_done := fan_done s @ [f t]\<rparr>"
  have "(fanStep S)\<^sup>*\<^sup>* s ?s" using Cons.prems by (intro fan_one) auto
  moreover have "(fanStep S)\<^sup>*\<^sup>* ?s (?s\<lparr>fan_queue := [], fan_done := fan_done ?s @ map f ts\<rparr>)"
    using Cons.prems by (intro Cons.IH) auto
  ultimately show ?case by simp
qed

lemma fanned_seq:
  assumes "1 \<le> mp" and "\<forall>t. S t (f t)"
  shows "fanned S mp ts (map f ts)"
proof (cases "ts = []")
  case True
  then show ?thesis by (auto simp: fanned_def fanInit_def fanClosed_def intro!: exI [of _ "fanInit mp ([] :: Target list)"])
next
  case False
  define n where "n = nat (min mp (int (length ts))) - 1"
  have "fan_idle (fanInit mp ts :: 'b fan) = Suc n" using assms(1) False by (cases ts) (auto simp: fanInit_def n_def)
  then have "(fanStep S)\<^sup>*\<^sup>* (fanInit mp ts) ((fanInit mp ts)\<lparr>fan_queue := [], fan_done := fan_done (fanInit mp ts) @ map f ts\<rparr>)"
    using assms(2) by (intro fan_seq [where n = n]) (auto simp: fanInit_def)
  moreover have "fanClosed ((fanInit mp ts)\<lparr>fan_queue := [], fan_done := fan_done (fanInit mp ts) @ map f ts\<rparr>)"
    by (simp add: fanClosed_def fanInit_def)
  moreover have "fan_done ((fanInit mp ts)\<lparr>fan_queue := [], fan_done := fan_done (fanInit mp ts) @ map f ts\<rparr>) = map f ts"
    by (simp add: fanInit_def)
  ultimately show ?thesis unfolding fanned_def by blast
qed

section \<open>What an attempt hands back\<close>

lemma exec_Put:
  assumes "exec f (OPut name sz) w = (r, w')" and "as_ok r = None"
  shows "w' = w\<lparr>w_objs := map_put name \<lparr>oi_Name = name, oi_Size = sz, oi_ModTime = w_clock w\<rparr> (w_objs w)\<rparr>"
  using assms by (cases f) auto

lemma finishRun_result:
  assumes "run (finishRun pp lim rec st) fs w l = (res, w', l', fs')" and "rs_merged st \<noteq> None"
  shows "wr_Manifest res = Some (rs_man st) \<and> wr_Progress res = rs_progress st \<and>
    (wr_Reason res = [] \<longrightarrow> wr_Object res = artifactName (rc_ID rec) (rc_Attempt rec) \<and>
       (\<exists>oi. map_of (w_objs w') (wr_Object res) = Some oi \<and> oi_Size oi = nat (wr_Bytes res))) \<and>
    (wr_Reason res \<noteq> [] \<longrightarrow> wr_Object res = [])"
proof -
  obtain m where m: "rs_merged st = Some m" using assms(2) by blast
  let ?c = "pp_compact pp m" and ?obj = "artifactName (rc_ID rec) (rc_Attempt rec)"
  note unf = finishRun_def m Let_def
  show ?thesis
  proof (cases "\<exists>sz stored. pp_size pp ?c = Some sz \<and> sz \<le> lim_MaxMergedBytes lim \<and> pp_write pp ?c = Some stored")
    case False
    then obtain reason where "res = failRun reason st" "reason \<noteq> []" using assms(1)
      by (auto simp: unf ReasonSerializeFailed_def ReasonMergedTooLarge_def split: option.splits if_splits)
    then show ?thesis by (simp add: failRun_def)
  next
    case True
    then obtain sz stored where s: "pp_size pp ?c = Some sz" "sz \<le> lim_MaxMergedBytes lim" "pp_write pp ?c = Some stored" by blast
    obtain r w1 where e: "exec (case fs of [] \<Rightarrow> NoFault | f # _ \<Rightarrow> f) (OPut ?obj (nat stored)) w = (r, w1)" by fastforce
    show ?thesis
    proof (cases "as_ok r")
      case None
      then show ?thesis using assms(1) s e exec_Put [OF e None] by (auto simp: unf)
    next
      case (Some err)
      then show ?thesis using assms(1) s e by (auto simp: unf emit_def failRun_def ReasonArtifactStoreFailed_def)
    qed
  qed
qed

lemma run_inv_start: "run_inv want 0 (newRunState vl gw rec)"
  by (simp add: run_inv_def newRunState_def newManifest_def counted_def oks_def zeroProgress_def)

lemma run_inv_reported: "run_inv want n (report st) = run_inv want n st"
  by (simp add: run_inv_def report_def)

lemma samples_bound:
  assumes "limits_tags lim" and "within_limits (rc_Policy rec) lim" and "i64 (lim_MaxRounds lim * lim_MaxTargetsPerRound lim) \<le> maxSamplesPerCollection"
  shows "0 \<le> wanted lim rec" "smp_Rounds (pol_Sampling (rc_Policy rec)) * wanted lim rec \<le> 256" "1 \<le> smp_Rounds (pol_Sampling (rc_Policy rec))"
proof -
  let ?r = "smp_Rounds (pol_Sampling (rc_Policy rec))" and ?R = "lim_MaxRounds lim" and ?T = "lim_MaxTargetsPerRound lim"
  have b: "1 \<le> wanted lim rec" "wanted lim rec \<le> ?T" "1 \<le> ?r" "?r \<le> ?R" "?R \<le> 20" "?T \<le> 256" "1 \<le> ?T" "1 \<le> ?R"
    using assms(1,2) Resolve_bounds [of ?T "smp_Replicas (pol_Sampling (rc_Policy rec))"]
    by (auto simp: limits_tags_def within_limits_def)
  have "?R * ?T \<le> 20 * 256" using b mult_mono [of ?R 20 ?T 256] by simp
  moreover have "0 \<le> ?R * ?T" using b by simp
  ultimately have "?R * ?T \<le> 256" using assms(3) by (simp add: in_i64_def maxSamplesPerCollection_def)
  moreover have "?r * wanted lim rec \<le> ?R * ?T" using b by (intro mult_mono) auto
  ultimately show "0 \<le> wanted lim rec" "?r * wanted lim rec \<le> 256" "1 \<le> ?r" using b by simp_all
qed

text \<open>
  C24: Whatever the stores answer, an attempt never panics and hands back a result whose manifest
  holds at most 256 samples and whose progress counts them.  When it reports success, every round
  has a good sample, and the object named after the Collection and the attempt is in the store with
  the length reported; when it reports a failure it names no object.
\<close>

theorem attempt_result:
  assumes "limits_tags lim" and "within_limits (rc_Policy rec) lim"
    and "i64 (lim_MaxRounds lim * lim_MaxTargetsPerRound lim) \<le> maxSamplesPerCollection"
    and "inputs_ok pp lim rec inp" and "run (runWork pp lim versionLabel gateway rec inp) fs w l = (r, w', l', fs')"
  shows "\<exists>res man. r = Some res \<and> wr_Manifest res = Some man \<and> counted man (wr_Progress res) \<and> length (man_Samples man) \<le> 256 \<and>
    (wr_Reason res \<noteq> [] \<longrightarrow> wr_Object res = []) \<and>
    (wr_Reason res = [] \<longrightarrow>
       (\<forall>n. int n < smp_Rounds (pol_Sampling (rc_Policy rec)) \<longrightarrow>
          (\<exists>s \<in> set (man_Samples man). sm_Round s = int n \<and> sm_Result s = sampleResultOK)) \<and>
       wr_Object res = artifactName (rc_ID rec) (rc_Attempt rec) \<and>
       (\<exists>oi. map_of (w_objs w') (wr_Object res) = Some oi \<and> oi_Size oi = nat (wr_Bytes res)))"
proof -
  define rounds where "rounds = nat (smp_Rounds (pol_Sampling (rc_Policy rec)))"
  note sb = samples_bound [OF assms(1-3)]
  have rn: "int rounds = smp_Rounds (pol_Sampling (rc_Policy rec))" using sb(3) by (simp add: rounds_def)
  obtain out where out: "roundLoop pp lim rec inp rounds rounds (newRunState versionLabel gateway rec) = Some out"
    "loop_ok (wanted lim rec) rounds out" using roundLoop_ok [OF assms(4) sb(1) run_inv_start] by fastforce
  show ?thesis
  proof (cases out)
    case (Inl res)
    then have "r = Some res" using assms(5) out(1) by (simp add: runWork_def rounds_def [symmetric])
    then show ?thesis using out(2) Inl sb(2) rn by (auto simp: loop_ok_def)
  next
    case (Inr st)
    then have i: "run_inv (wanted lim rec) rounds (report st)" using out(2) by (simp add: loop_ok_def run_inv_reported)
    have "0 < rounds" using sb(3) rn by linarith
    then have "rs_merged (report st) \<noteq> None" using i unfolding run_inv_def by blast
    moreover obtain res where res: "run (finishRun pp lim rec (report st)) fs w l = (res, w', l', fs')" "r = Some res"
      using assms(5) out(1) Inr by (auto simp: runWork_def rounds_def [symmetric] run_bind split: prod.splits)
    ultimately have f: "wr_Manifest res = Some (rs_man (report st)) \<and> wr_Progress res = rs_progress (report st) \<and>
      (wr_Reason res = [] \<longrightarrow> wr_Object res = artifactName (rc_ID rec) (rc_Attempt rec) \<and>
         (\<exists>oi. map_of (w_objs w') (wr_Object res) = Some oi \<and> oi_Size oi = nat (wr_Bytes res))) \<and>
      (wr_Reason res \<noteq> [] \<longrightarrow> wr_Object res = [])" using finishRun_result by blast
    have "int (length (man_Samples (rs_man (report st)))) \<le> smp_Rounds (pol_Sampling (rc_Policy rec)) * wanted lim rec"
      using i rn unfolding run_inv_def by simp
    then have "length (man_Samples (rs_man (report st))) \<le> 256" using sb(2) by linarith
    moreover have "\<exists>s \<in> set (man_Samples (rs_man (report st))). sm_Round s = int n \<and> sm_Result s = sampleResultOK"
      if "int n < smp_Rounds (pol_Sampling (rc_Policy rec))" for n using i that rn unfolding run_inv_def by auto
    ultimately show ?thesis using f res(2) i unfolding run_inv_def by auto
  qed
qed

definition demo_input :: "nat \<Rightarrow> nat roundInput" where
  "demo_input n = \<lparr>ri_ctxErr = False, ri_now = -1, ri_targets = Inr [demo_target], ri_shuffle = id,
     ri_outs = map (\<lambda>t. sample demo_pprof shippedLimits (int n) t 0 None (sinkWrites [[7]] (newSampleSink (lim_MaxSampleBytes shippedLimits))) ''ok''),
     ri_slept = True\<rparr>"

lemma demo_inputs_ok: "inputs_ok demo_pprof shippedLimits demo_record demo_input"
  unfolding inputs_ok_def
proof (intro allI conjI impI)
  fix round ts
  show "mset (ri_shuffle (demo_input round) ts) = mset ts" by (simp add: demo_input_def)
  have "fanned (sampleOf demo_pprof shippedLimits (int round)) 4 ts
      (map (\<lambda>t. sample demo_pprof shippedLimits (int round) t 0 None (sinkWrites [[7]] (newSampleSink (lim_MaxSampleBytes shippedLimits))) ''ok'') ts)"
    unfolding sampleOf_def by (rule fanned_seq) (simp, blast)
  then show "fanned (sampleOf demo_pprof shippedLimits (int round)) (smp_MaxParallel (pol_Sampling (rc_Policy demo_record))) ts (ri_outs (demo_input round) ts)"
    by (simp add: demo_input_def demo_record_def shippedPolicy_def)
qed

text \<open>Two Pods sampled one after the other, to the end of the round.\<close>

lemma fanout_spec_witness:
  "\<exists>s. (fanStep (sampleOf demo_pprof shippedLimits 0))\<^sup>*\<^sup>* (fanInit 1 [demo_target, demo_target\<lparr>tg_UID := ''v''\<rparr>]) s \<and>
     fanClosed s \<and> length (fan_busy s) + length (fan_ready s) \<le> 1 \<and> mset (map out_uid (fan_done s)) = {#''u'', ''v''#}"
proof -
  let ?ts = "[demo_target, demo_target\<lparr>tg_UID := ''v''\<rparr>]" and ?S = "sampleOf demo_pprof shippedLimits 0"
  let ?f = "\<lambda>t. sample demo_pprof shippedLimits 0 t 0 None (sinkWrites [[7]] (newSampleSink (lim_MaxSampleBytes shippedLimits))) ''ok''"
  let ?s = "(fanInit 1 ?ts)\<lparr>fan_queue := [], fan_done := fan_done (fanInit 1 ?ts) @ map ?f ?ts\<rparr>"
  have "\<forall>t \<in> set ?ts. ?S t (?f t)" unfolding sampleOf_def by blast
  then have run: "(fanStep ?S)\<^sup>*\<^sup>* (fanInit 1 ?ts) ?s" by (rule fan_seq [where n = 0]) (simp_all add: fanInit_def)
  moreover have "fanClosed ?s" "\<not> fan_ctx ?s" by (simp_all add: fanClosed_def fanInit_def)
  moreover have "distinct (map tg_UID ?ts)" "map tg_UID ?ts = [''u'', ''v'']" by (simp_all add: demo_target_def)
  ultimately show ?thesis using fanout_spec [OF run] by (metis mset.simps nat_one_as_int nat_int)
qed

lemma attempt_result_witness:
  "\<forall>fs w l. \<exists>res man. fst (run (runWork demo_pprof shippedLimits ''v'' ''g'' demo_record demo_input) fs w l) = Some res \<and>
     wr_Manifest res = Some man \<and> length (man_Samples man) \<le> 256"
proof (intro allI)
  fix fs w l
  obtain r w' l' fs' where r: "run (runWork demo_pprof shippedLimits ''v'' ''g'' demo_record demo_input) fs w l = (r, w', l', fs')"
    by (metis prod.exhaust)
  have "limits_tags shippedLimits" "i64 (lim_MaxRounds shippedLimits * lim_MaxTargetsPerRound shippedLimits) \<le> maxSamplesPerCollection"
    by (simp_all add: limits_tags_def shippedLimits_def duration_units in_i64_def pgo_constants)
  moreover have "within_limits (rc_Policy demo_record) shippedLimits" using shippedPolicy_ok(2) by (simp add: demo_record_def)
  ultimately show "\<exists>res man. fst (run (runWork demo_pprof shippedLimits ''v'' ''g'' demo_record demo_input) fs w l) = Some res \<and>
     wr_Manifest res = Some man \<and> length (man_Samples man) \<le> 256"
    using attempt_result [OF _ _ _ demo_inputs_ok r] r by auto
qed

text \<open>
  The targets of a round are discovered Pods of one version, the resolved one; no Pod appears
  twice, and there are at most as many as the policy asks for under the ceiling.
\<close>

theorem round_targets:
  assumes "targetsFor lim round rec inp st = Some (Inr (ts, st'))" and "\<forall>xs. mset (ri_shuffle inp xs) = mset xs"
  shows "distinct (map tg_UID ts) \<and> int (length ts) \<le> wanted lim rec \<and>
    (\<exists>all. ri_targets inp = Inr all \<and> set ts \<subseteq> set all \<and>
       (round = 0 \<longrightarrow> ResolveVersion all (pol_Version (rc_Policy rec)) = (rs_resolved st', []))) \<and>
    (\<forall>t \<in> set ts. tg_Version t = rs_resolved st') \<and> (round \<noteq> 0 \<longrightarrow> rs_resolved st' = rs_resolved st)"
  using targetsFor_props [OF assms] by (cases "round = 0") auto

lemma round_targets_witness:
  "distinct (map tg_UID [demo_target]) \<and> int (length [demo_target]) \<le> wanted shippedLimits demo_record"
  using round_targets [of shippedLimits 0 demo_record "demo_input 0" "newRunState [] [] demo_record" "[demo_target]"]
  by (simp add: targetsFor_def demo_input_def demo_target_def demo_record_def shippedPolicy_def shippedLimits_def AllReplicas_def
      Resolve_def ResolveVersion_def filterTargets_def distinctVersions_def dedupeByUID_def)

text \<open>The attempt as a party of the protocol: it writes objects only.\<close>

lemma psafe_runWork:
  assumes "limits_tags lim" and "within_limits (rc_Policy rec) lim"
    and "i64 (lim_MaxRounds lim * lim_MaxTargetsPerRound lim) \<le> maxSamplesPerCollection" and "inputs_ok pp lim rec inp"
  shows "psafe U sha ids (\<lambda>r w'. \<exists>res. r = Some res \<and> result_ok rec res) (runWork pp lim versionLabel gateway rec inp) w"
proof -
  define rounds where "rounds = nat (smp_Rounds (pol_Sampling (rc_Policy rec)))"
  note sb = samples_bound [OF assms(1-3)]
  obtain out where out: "roundLoop pp lim rec inp rounds rounds (newRunState versionLabel gateway rec) = Some out"
    "loop_ok (wanted lim rec) rounds out" using roundLoop_ok [OF assms(4) sb(1) run_inv_start] by fastforce
  have failed: "result_ok rec (failRun reason st)" for reason and st :: "'a runState" by (simp add: result_ok_def failRun_def)
  have fin: "psafe U sha ids (\<lambda>r w'. \<exists>res. r = Some res \<and> result_ok rec res)
      (bind (finishRun pp lim rec st) (\<lambda>res. Ret (Some res))) w" for st
    unfolding finishRun_def Let_def using failed
    by (auto simp: result_ok_def intro!: psafe_Put psafe_emit pr.safe_Ret split: option.split)
  show ?thesis using out fin
    by (cases out) (auto simp: runWork_def rounds_def [symmetric] loop_ok_def result_ok_def intro!: pr.safe_Ret)
qed

end
