(* ===== verification/Handlers.thy ===== *)
theory Handlers
  imports Rounds
begin

text \<open>
  The handlers of the PGO routes (\<open>internal/httpapi/pgo.go\<close>, \<open>pgo_collections.go\<close> and
  \<open>pgo_policy.go\<close>), past the routing, the readiness gate, the credential and the realm: each is
  a program over the session's calls that returns the answer it writes.

  An answer keeps the status, the error code and the value the body is made of.  What a handler
  reads of its request is an argument: the header values, the body as \<open>decodeBody\<close> returned it
  (and the refusal of \<open>rejectBody\<close>, if any),
  the outcome of the token bucket and of the discovery, the random bytes of the identifier, and
  whether the client had left when the publication returned.  The audit record is not modelled.
\<close>

section \<open>Answers\<close>

datatype apiError = ApiError (ae_status: nat) (ae_code: string)

definition errCollectionInProgress :: apiError where "errCollectionInProgress = ApiError 429 ''collection_in_progress''"
definition errRateLimited :: apiError where "errRateLimited = ApiError 429 ''rate_limited''"
definition errCapacityExhausted :: apiError where "errCapacityExhausted = ApiError 429 ''capacity_exhausted''"
definition errCollectionNotCompleted :: apiError where "errCollectionNotCompleted = ApiError 409 ''collection_not_completed''"
definition errCollectionInitializing :: apiError where "errCollectionInitializing = ApiError 409 ''collection_initializing''"
definition errCollectionTerminal :: apiError where "errCollectionTerminal = ApiError 409 ''collection_terminal''"
definition errIdempotencyMismatch :: apiError where "errIdempotencyMismatch = ApiError 409 ''idempotency_mismatch''"
definition errCASContended :: apiError where "errCASContended = ApiError 503 ''pgo_unavailable''"
definition errPGOUnavailable :: apiError where "errPGOUnavailable = ApiError 503 ''pgo_unavailable''"
definition errCollectionNotFound :: apiError where "errCollectionNotFound = ApiError 404 ''collection_not_found''"
definition errArtifactGone :: apiError where "errArtifactGone = ApiError 410 ''artifact_gone''"
definition errPreconditionFailed :: apiError where "errPreconditionFailed = ApiError 412 ''precondition_failed''"
definition errPreconditionRequired :: apiError where "errPreconditionRequired = ApiError 428 ''precondition_required''"
definition errOverrideNotFound :: apiError where "errOverrideNotFound = ApiError 404 ''pgo_override_not_found''"
definition errConfigAPIDisabled :: apiError where "errConfigAPIDisabled = ApiError 403 ''config_api_disabled''"
definition invalidParameter :: apiError where "invalidParameter = ApiError 400 ''invalid_parameter''"
definition limitExceeded :: apiError where "limitExceeded = ApiError 400 ''limit_exceeded''"

lemmas api_errors = errCollectionInProgress_def errRateLimited_def errCapacityExhausted_def errCollectionNotCompleted_def
  errCollectionInitializing_def errCollectionTerminal_def errIdempotencyMismatch_def errCASContended_def
  errPGOUnavailable_def errCollectionNotFound_def errArtifactGone_def errPreconditionFailed_def
  errPreconditionRequired_def errOverrideNotFound_def errConfigAPIDisabled_def invalidParameter_def limitExceeded_def

text \<open>\<open>Refused err retry\<close> carries whether \<open>Retry-After: 1\<close> was set; \<open>Parked\<close> is a wait not yet ended.\<close>

datatype answer =
    Refused apiError bool
  | Created string State
  | Replayed string State
  | RecordBody Record nat
  | CancelledBody Record
  | Streamed Record
  | Listed "CollectionView list" "CollectionPosition option"
  | PolicyDefaults Policy "Violation list"
  | PolicyStored nat nat StoredOverride Policy "Violation list"
  | NoContent
  | ClientGone
  | Parked
  | Held duration answer

abbreviation fail :: "apiError \<Rightarrow> ('l, answer) prog" where
  "fail err \<equiv> Ret (Refused err False)"

definition storeError :: "kv_err \<Rightarrow> apiError" where
  "storeError err = (if err = ErrKeyNotFound then errCollectionNotFound else errPGOUnavailable)"

text \<open>\<open>readCollection\<close>: every failure but a missing key is one answer; the unreadable record is logged.\<close>

definition readCollection :: "string \<Rightarrow> (apiError + StoredRecord \<Rightarrow> (replica, 'a) prog) \<Rightarrow> (replica, 'a) prog" where
  "readCollection i c = ReadRecord i (\<lambda>r. case r of
       Inr st \<Rightarrow> c (Inr st)
     | Inl ErrKeyNotFound \<Rightarrow> c (Inl errCollectionNotFound)
     | Inl ErrUnavailable \<Rightarrow> c (Inl errPGOUnavailable)
     | Inl _ \<Rightarrow> emit (Logged ''collection record is not readable'') (c (Inl errPGOUnavailable)))"

section \<open>Headers\<close>

definition requestIDMaxBytes :: nat where "requestIDMaxBytes = 128"

definition echoChar :: "char \<Rightarrow> bool" where
  "echoChar c \<longleftrightarrow> (CHR ''a'' \<le> c \<and> c \<le> CHR ''z'') \<or> (CHR ''A'' \<le> c \<and> c \<le> CHR ''Z'') \<or> (CHR ''0'' \<le> c \<and> c \<le> CHR ''9'') \<or>
     c = CHR ''.'' \<or> c = CHR ''_'' \<or> c = CHR ''-''"

definition echoable :: "string \<Rightarrow> bool" where
  "echoable value \<longleftrightarrow> \<not> (value = [] \<or> length value > requestIDMaxBytes) \<and> list_all echoChar value"

definition idempotencyKey :: "string list \<Rightarrow> apiError + string" where
  "idempotencyKey values = (case values of
     [] \<Rightarrow> Inr []
   | [v] \<Rightarrow> if echoable v then Inr v else Inl invalidParameter
   | _ \<Rightarrow> Inl invalidParameter)"

definition quote :: char where "quote = CHR 0x22"

definition etagOf :: "nat \<Rightarrow> string" where
  "etagOf revision = [quote] @ showNat revision @ [quote]"

text \<open>The digits of a header that matches \<open>^"[0-9]+"$\<close>.\<close>

definition ifMatchDigits :: "string \<Rightarrow> string option" where
  "ifMatchDigits header =
     (case cutPrefix [quote] header of
        None \<Rightarrow> None
      | Some rest \<Rightarrow>
          (case cutSuffix [quote] rest of
             None \<Rightarrow> None
           | Some ds \<Rightarrow> if ds \<noteq> [] \<and> list_all isDigit ds then Some ds else None))"

definition parseIfMatch :: "string \<Rightarrow> apiError + nat option" where
  "parseIfMatch header =
     (if header = [] then Inr None
      else case ifMatchDigits header of
        None \<Rightarrow> Inl invalidParameter
      | Some ds \<Rightarrow> if readNat ds < 2 ^ 64 then Inr (Some (readNat ds)) else Inl invalidParameter)"

section \<open>Creating a Collection\<close>

datatype receiptLookup = NoBinding | Mismatch | BoundTo Record

definition receiptReads :: nat where "receiptReads = 2"

fun lookupReceipt :: "string \<Rightarrow> string \<Rightarrow> bool \<Rightarrow> nat \<Rightarrow> (apiError + receiptLookup \<Rightarrow> (replica, 'a) prog) \<Rightarrow> (replica, 'a) prog" where
  "lookupReceipt key hash clearStale 0 c = c (Inr NoBinding)"
| "lookupReceipt key hash clearStale (Suc n) c =
     ReadReceipt key (\<lambda>r. case r of
       Inl err \<Rightarrow>
         if err = ErrKeyNotFound then c (Inr NoBinding)
         else emit (Logged ''idempotency receipt is not readable'') (c (Inl errPGOUnavailable))
     | Inr (x, rv) \<Rightarrow>
         let stale = (if \<not> clearStale then c (Inr NoBinding)
               else DeleteReceipt key rv (\<lambda>d. case d of
                   None \<Rightarrow> c (Inr NoBinding)
                 | Some _ \<Rightarrow> lookupReceipt key hash clearStale n c))
         in ReadRecord (rcp_ID x) (\<lambda>j. case j of
             Inr st \<Rightarrow>
               if rc_State (sr_Record st) \<noteq> StateFailed \<or> rc_Reason (sr_Record st) \<noteq> ReasonNotPublished
               then c (Inr (if rcp_SnapshotHash x \<noteq> hash then Mismatch else BoundTo (sr_Record st)))
               else stale
           | Inl err \<Rightarrow>
               if err = ErrKeyNotFound then stale
               else emit (Logged ''collection record of an idempotency receipt is not readable'') (c (Inl errPGOUnavailable))))"

definition answerFromReceipt :: "receiptLookup \<Rightarrow> answer option" where
  "answerFromReceipt bound = (case bound of
     Mismatch \<Rightarrow> Some (Refused errIdempotencyMismatch False)
   | BoundTo rec \<Rightarrow> Some (Replayed (rc_ID rec) (rc_State rec))
   | NoBinding \<Rightarrow> None)"

definition refuseLoser :: "string \<Rightarrow> string \<Rightarrow> string \<Rightarrow> (replica, answer) prog" where
  "refuseLoser receiptKey hash key =
     (if key = [] then fail errCollectionInProgress
      else lookupReceipt receiptKey hash False receiptReads (\<lambda>b. case b of
          Inl err \<Rightarrow> fail err
        | Inr bound \<Rightarrow> (case answerFromReceipt bound of
            Some a \<Rightarrow> Ret a
          | None \<Rightarrow> Ret (Refused errCollectionInProgress True))))"

definition discoveryError :: "disc_err \<Rightarrow> apiError" where
  "discoveryError err = (case err of
     ErrServiceNotFound \<Rightarrow> ApiError 404 ''service_not_found''
   | ErrServiceSelectorless \<Rightarrow> ApiError 422 ''service_selectorless''
   | _ \<Rightarrow> ApiError 503 ''discovery_unavailable'')"

definition versionRefusal :: "string \<Rightarrow> apiError" where
  "versionRefusal reason =
     (if reason = ReasonVersionMissing then ApiError 409 ''version_missing'' else ApiError 409 ''version_conflict'')"

text \<open>
  What one create reads of its request and its surroundings; \<open>cr_token\<close> is the answer of the token
  bucket and \<open>cr_gone\<close> whether the client had left when the publication returned.
\<close>

record createRequest =
  cr_keys :: "string list"
  cr_body :: "apiError + PolicyOverride"
  cr_principal :: string
  cr_Namespace :: string
  cr_Service :: string
  cr_token :: bool
  cr_targets :: "disc_err + Target list"
  cr_random :: "8 word list"
  cr_gone :: bool

definition createInput :: "createRequest \<Rightarrow> string \<Rightarrow> nat \<Rightarrow> Policy \<Rightarrow> time \<Rightarrow> PublishInput" where
  "createInput q key configRevision snapshot now = \<lparr>
     pi_Namespace = cr_Namespace q, pi_Service = cr_Service q, pi_Origin = OriginAPI, pi_Slot = zeroTime,
     pi_ClaimBy = now + APIClaimGrace, pi_ConfigRevision = configRevision, pi_Policy = snapshot,
     pi_CreatedBy = cr_principal q, pi_IdempotencyKey = key\<rparr>"

text \<open>From the reservation on: the publication and the answer its outcome earns.\<close>

definition createPublish :: "env \<Rightarrow> createRequest \<Rightarrow> string \<Rightarrow> string \<Rightarrow> string \<Rightarrow> nat \<Rightarrow> Policy \<Rightarrow> nat \<Rightarrow> (replica, answer) prog" where
  "createPublish e q key receiptKey hash configRevision snapshot h =
     Now (\<lambda>now. bind (Publish e (cr_random q) h (createInput q key configRevision snapshot now)) (\<lambda>(i, out).
       let answer = (case out of
             Inl _ \<Rightarrow> fail errPGOUnavailable
           | Inr OutcomeBusy \<Rightarrow> refuseLoser receiptKey hash key
           | Inr OutcomeWon \<Rightarrow> Ret (Created i StatePending));
           done = (if cr_gone q then Ret ClientGone else answer)
       in case out of Inl _ \<Rightarrow> emit (Logged ''publishing an on-demand collection failed'') done | Inr _ \<Rightarrow> done))"

text \<open>The refusals that write nothing, in their order, and the reservation.\<close>

definition createAdmit :: "env \<Rightarrow> nat \<Rightarrow> createRequest \<Rightarrow> string \<Rightarrow> string \<Rightarrow> string \<Rightarrow> nat \<Rightarrow> Policy \<Rightarrow> Violation list \<Rightarrow> (replica, answer) prog" where
  "createAdmit e gen q key receiptKey hash configRevision snapshot violations =
     (if violations \<noteq> [] then fail limitExceeded
      else if \<not> cr_token q then fail errRateLimited
      else case cr_targets q of
        Inl derr \<Rightarrow> fail (discoveryError derr)
      | Inr targets \<Rightarrow>
          (case ResolveVersion targets (pol_Version snapshot) of
             (_, reason) \<Rightarrow>
               if reason \<noteq> [] then fail (versionRefusal reason)
               else inspect (\<lambda>l. case Live (rp_generation l) gen (cr_Namespace q) (cr_Service q) (rp_caches l) of
                 (isLive, ok) \<Rightarrow>
                   if \<not> ok then fail errPGOUnavailable
                   else if isLive then fail errCollectionInProgress
                   else Loc (\<lambda>l. case Reserve e gen (cr_Namespace q) (cr_Service q) l of
                       (Inl StaleCaches, l') \<Rightarrow> (l', fail errPGOUnavailable)
                     | (Inl ErrCapacityExhausted, l') \<Rightarrow> (l', fail errCapacityExhausted)
                     | (Inr h, l') \<Rightarrow> (l', createPublish e q key receiptKey hash configRevision snapshot h)))))"

definition serveCollectionCreate :: "env \<Rightarrow> nat \<Rightarrow> createRequest \<Rightarrow> (replica, answer) prog" where
  "serveCollectionCreate e gen q =
     (case idempotencyKey (cr_keys q) of
        Inl kerr \<Rightarrow> fail kerr
      | Inr key \<Rightarrow>
          (case cr_body q of
             Inl berr \<Rightarrow> fail berr
           | Inr body \<Rightarrow>
               if po_Enabled body \<noteq> None \<or> po_Schedule body \<noteq> None then fail invalidParameter
               else inspect (\<lambda>l. case Override (rp_generation l) gen (cr_Namespace q) (cr_Service q) (rp_caches l) of
                 (stored, configRevision, ok) \<Rightarrow>
                   if \<not> ok then fail errPGOUnavailable
                   else
                     let (snapshot, violations) = sessEffective e [stored, Some body];
                         receiptKey = (if key \<noteq> [] then ReceiptKey (e_sha e) (cr_principal q) (cr_Namespace q) (cr_Service q) key else []);
                         hash = (if key \<noteq> [] then e_snapHash e snapshot else []);
                         rest = createAdmit e gen q key receiptKey hash configRevision snapshot violations
                     in if key = [] then rest
                        else lookupReceipt receiptKey hash True receiptReads (\<lambda>b. case b of
                            Inl lerr \<Rightarrow> fail lerr
                          | Inr bound \<Rightarrow> (case answerFromReceipt bound of Some a \<Rightarrow> Ret a | None \<Rightarrow> rest)))))"

section \<open>Reading, waiting and listing\<close>

definition serveCollectionList :: "nat \<Rightarrow> string \<Rightarrow> string \<Rightarrow> CollectionQuery \<Rightarrow> (replica, answer) prog" where
  "serveCollectionList gen ns svc query = inspect (\<lambda>l.
     case Collections (rp_generation l) gen ns svc query (rp_caches l) of
       (views, hasMore, ok) \<Rightarrow>
         if \<not> ok then fail errPGOUnavailable
         else Ret (Listed views (if hasMore then Some (position (last views)) else None)))"

fun terminalState :: "State \<Rightarrow> bool" where
  "terminalState StateCompleted = True"
| "terminalState StateFailed = True"
| "terminalState StateCancelled = True"
| "terminalState StateExpired = True"
| "terminalState _ = False"

definition writeCollection :: "StoredRecord \<Rightarrow> answer" where
  "writeCollection st = RecordBody (sr_Record st) (sr_Revision st)"

text \<open>The ready case the \<open>select\<close> of a wait took.\<close>

datatype waitEvent = EvPulse | EvTimer | EvDrain | EvMoved | EvGone

text \<open>An answer with the header \<open>elapsed\<close> sets: how long it was held.\<close>

definition elapsed :: "time \<Rightarrow> answer \<Rightarrow> (replica, answer) prog" where
  "elapsed started a = Now (\<lambda>now. Ret (Held (now - started) a))"

fun waitLoop :: "string \<Rightarrow> State \<Rightarrow> time \<Rightarrow> bool \<Rightarrow> waitEvent list \<Rightarrow> (replica, answer) prog" where
  "waitLoop i baseline started deadline [] = readCollection i (\<lambda>r. case r of
       Inl err \<Rightarrow> elapsed started (Refused err False)
     | Inr st \<Rightarrow>
         if deadline \<or> rc_State (sr_Record st) \<noteq> baseline \<or> terminalState (rc_State (sr_Record st)) then elapsed started (writeCollection st)
         else Ret Parked)"
| "waitLoop i baseline started deadline (ev # evs) = readCollection i (\<lambda>r. case r of
       Inl err \<Rightarrow> elapsed started (Refused err False)
     | Inr st \<Rightarrow>
         if deadline \<or> rc_State (sr_Record st) \<noteq> baseline \<or> terminalState (rc_State (sr_Record st)) then elapsed started (writeCollection st)
         else (case ev of
             EvPulse \<Rightarrow> waitLoop i baseline started deadline evs
           | EvTimer \<Rightarrow> waitLoop i baseline started True evs
           | EvDrain \<Rightarrow> elapsed started (writeCollection st)
           | EvMoved \<Rightarrow> elapsed started (Refused errPGOUnavailable False)
           | EvGone \<Rightarrow> Ret ClientGone))"

definition waitForCollection :: "StoredRecord \<Rightarrow> waitEvent list \<Rightarrow> (replica, answer) prog" where
  "waitForCollection stored evs =
     Loc (\<lambda>l. case Subscribe (rc_ID (sr_Record stored)) (rp_caches l) of
       (ch, c) \<Rightarrow> (l\<lparr>rp_caches := c\<rparr>,
         Now (\<lambda>started. bind (waitLoop (rc_ID (sr_Record stored)) (rc_State (sr_Record stored)) started False evs) (\<lambda>a.
           modify (\<lambda>l. l\<lparr>rp_caches := Unsubscribe (rc_ID (sr_Record stored)) ch (rp_caches l)\<rparr>) (Ret a)))))"

definition serveCollectionRead :: "StoredRecord \<Rightarrow> duration \<Rightarrow> waitEvent list \<Rightarrow> (replica, answer) prog" where
  "serveCollectionRead stored wait evs =
     (if wait \<le> 0 then Ret (writeCollection stored) else waitForCollection stored evs)"

section \<open>Downloading\<close>

definition serveLatestCollection :: "env \<Rightarrow> nat \<Rightarrow> string \<Rightarrow> string \<Rightarrow> bool \<Rightarrow> (replica, answer) prog" where
  "serveLatestCollection e gen ns svc profile = bind (LatestCompleted e gen ns svc) (\<lambda>r. case r of
       Inl err \<Rightarrow>
         if err \<noteq> ErrKeyNotFound then emit (Logged ''the latest collection of a service is not readable'') (fail (storeError err))
         else fail (storeError err)
     | Inr stored \<Rightarrow> if profile then Ret (Streamed (sr_Record stored)) else serveCollectionRead stored 0 [])"

definition serveCollectionDownload :: "env \<Rightarrow> StoredRecord \<Rightarrow> (replica, answer) prog" where
  "serveCollectionDownload e stored =
     (let rec = sr_Record stored in
      if rc_State rec = StateCompleted then
        (let object = artifactObject rec in
         if object = [] then ExpireGoneArtifact e stored (\<lambda>_. fail errArtifactGone)
         else Open object (\<lambda>o'. case o' of
             None \<Rightarrow> Ret (Streamed rec)
           | Some err \<Rightarrow>
               if err = ErrObjectNotFound then ExpireGoneArtifact e stored (\<lambda>_. fail errArtifactGone)
               else fail (storeError err)))
      else if rc_State rec = StateExpired then fail errArtifactGone
      else fail errCollectionNotCompleted)"

section \<open>Cancelling\<close>

definition cancelAttempts :: nat where "cancelAttempts = 5"

text \<open>The attempts left of the loop; the record is the one this attempt decides from.\<close>

fun cancelLoop :: "env \<Rightarrow> string \<Rightarrow> nat \<Rightarrow> StoredRecord \<Rightarrow> (replica, answer) prog" where
  "cancelLoop e i 0 stored = fail errCASContended"
| "cancelLoop e i (Suc n) stored =
     (let rec = sr_Record stored in
      if rc_State rec = StateInitializing then fail errCollectionInitializing
      else if rc_State rec = StatePending \<or> rc_State rec = StateRunning
      then Now (\<lambda>now.
        let rec' = rec\<lparr>rc_State := StateCancelled, rc_Reason := ReasonCancelledByAPI, rc_FinishedAt := Some now\<rparr> in
        WriteRecord e rec' (sr_Revision stored) (\<lambda>r. case r of
            None \<Rightarrow> RecordTransition rec' (bind (releaseActive rec') (\<lambda>_. Ret (CancelledBody rec')))
          | Some WriteTooLarge \<Rightarrow> fail errPGOUnavailable
          | Some (WriteStore err) \<Rightarrow>
              if err = ErrRevisionMismatch
              then (if n = 0 then fail errCASContended
                    else readCollection i (\<lambda>s. case s of Inl rerr \<Rightarrow> fail rerr | Inr st \<Rightarrow> cancelLoop e i n st))
              else fail (storeError err)))
      else fail errCollectionTerminal)"

definition serveCollectionCancel :: "env \<Rightarrow> apiError option \<Rightarrow> StoredRecord \<Rightarrow> (replica, answer) prog" where
  "serveCollectionCancel e rejected stored = (case rejected of
       Some berr \<Rightarrow> fail berr
     | None \<Rightarrow> cancelLoop e (rc_ID (sr_Record stored)) cancelAttempts stored)"

section \<open>Dispatch\<close>

datatype collectionRoute = KindCollection duration "waitEvent list" | KindCollectionProfile | KindCollectionCancel "apiError option"

text \<open>\<open>servePGOCollection\<close>, from the parsed query; \<open>allows\<close> is the realm's answer for a namespace and a Service.\<close>

text \<open>An answer given before the wait begins carries the header too, at zero.\<close>

definition unheld :: "collectionRoute \<Rightarrow> answer \<Rightarrow> answer" where
  "unheld kind a = (case kind of KindCollection wait _ \<Rightarrow> if wait > 0 then Held 0 a else a | _ \<Rightarrow> a)"

definition servePGOCollection :: "env \<Rightarrow> (string \<Rightarrow> string \<Rightarrow> bool) \<Rightarrow> string \<Rightarrow> collectionRoute \<Rightarrow> (replica, answer) prog" where
  "servePGOCollection e allows i kind = readCollection i (\<lambda>r. case r of
       Inl rerr \<Rightarrow> Ret (unheld kind (Refused rerr False))
     | Inr stored \<Rightarrow>
         if \<not> allows (rc_Namespace (sr_Record stored)) (rc_Service (sr_Record stored)) then Ret (unheld kind (Refused errCollectionNotFound False))
         else (case kind of
             KindCollection wait evs \<Rightarrow> serveCollectionRead stored wait evs
           | KindCollectionProfile \<Rightarrow> serveCollectionDownload e stored
           | KindCollectionCancel rejected \<Rightarrow> serveCollectionCancel e rejected stored))"

section \<open>Policies\<close>

definition servePolicyRead :: "env \<Rightarrow> string \<Rightarrow> string \<Rightarrow> (replica, answer) prog" where
  "servePolicyRead e ns svc = ReadOverride ns svc (\<lambda>r. case r of
       Inl err \<Rightarrow>
         if err = ErrKeyNotFound then (case sessEffective e [] of (eff, vs) \<Rightarrow> Ret (PolicyDefaults eff vs))
         else fail errPGOUnavailable
     | Inr (stored, revision) \<Rightarrow>
         (case sessEffective e [st_Policy stored] of (eff, vs) \<Rightarrow> Ret (PolicyStored 200 revision stored eff vs)))"

definition policyCreated :: "nat \<Rightarrow> StoredOverride \<Rightarrow> Policy \<Rightarrow> Violation list \<Rightarrow> kv_err \<Rightarrow> write_err + nat \<Rightarrow> (replica, answer) prog" where
  "policyCreated status stored eff vs lost r = (case r of
       Inr rv \<Rightarrow> Ret (PolicyStored status rv stored eff vs)
     | Inl err \<Rightarrow> if err = WriteStore lost then fail errPreconditionFailed else fail errPGOUnavailable)"

definition servePolicyWrite :: "env \<Rightarrow> bool \<Rightarrow> string \<Rightarrow> apiError + PolicyOverride \<Rightarrow> string \<Rightarrow> string \<Rightarrow> string \<Rightarrow> (replica, answer) prog" where
  "servePolicyWrite e disabled ifMatch body prin ns svc =
     (if disabled then fail errConfigAPIDisabled
      else case parseIfMatch ifMatch of
        Inl perr \<Rightarrow> fail perr
      | Inr cond \<Rightarrow>
          (case body of
             Inl berr \<Rightarrow> fail berr
           | Inr override \<Rightarrow>
               (case sessEffective e [Some override] of
                  (eff, vs) \<Rightarrow>
                    if vs \<noteq> [] then fail limitExceeded
                    else Now (\<lambda>now.
                      let stored = \<lparr>st_Policy = Some override, st_UpdatedBy = prin, st_UpdatedAt = now\<rparr> in
                      ReadOverride ns svc (\<lambda>r. case r of
                        Inl err \<Rightarrow>
                          if err = ErrKeyNotFound
                          then (if cond \<noteq> None then fail errPreconditionFailed
                                else CreateOverride e ns svc stored (policyCreated 201 stored eff vs ErrKeyExists))
                          else fail errPGOUnavailable
                      | Inr (_, revision) \<Rightarrow>
                          (case cond of
                             None \<Rightarrow> fail errPreconditionRequired
                           | Some expected \<Rightarrow>
                               if expected \<noteq> revision then fail errPreconditionFailed
                               else UpdateOverride e ns svc stored expected (policyCreated 200 stored eff vs ErrRevisionMismatch)))))))"

definition servePolicyDelete :: "bool \<Rightarrow> apiError option \<Rightarrow> string \<Rightarrow> string \<Rightarrow> string \<Rightarrow> (replica, answer) prog" where
  "servePolicyDelete disabled rejected ifMatch ns svc =
     (if disabled then fail errConfigAPIDisabled
      else if rejected \<noteq> None then fail (the rejected)
      else case parseIfMatch ifMatch of
        Inl perr \<Rightarrow> fail perr
      | Inr cond \<Rightarrow> ReadOverride ns svc (\<lambda>r. case r of
          Inl err \<Rightarrow> if err = ErrKeyNotFound then fail errOverrideNotFound else fail errPGOUnavailable
        | Inr (_, revision) \<Rightarrow>
            (case cond of
               None \<Rightarrow> fail errPreconditionRequired
             | Some expected \<Rightarrow>
                 if expected \<noteq> revision then fail errPreconditionFailed
                 else DeleteOverride ns svc expected (\<lambda>d. case d of
                     None \<Rightarrow> Ret NoContent
                   | Some err \<Rightarrow>
                       if err = ErrRevisionMismatch \<or> err = ErrKeyNotFound then fail errPreconditionFailed
                       else fail errPGOUnavailable))))"

section \<open>The handlers keep the protocol\<close>

text \<open>A Collection whose receipt is stale: its record is gone or failed before it was published.\<close>

definition unpublished :: "world \<Rightarrow> string \<Rightarrow> bool" where
  "unpublished w i \<longleftrightarrow> jobKey i \<in> seen w \<and>
     (\<forall>r. job_at w i = Some r \<longrightarrow> rc_State r = StateFailed \<and> rc_Reason r = ReasonNotPublished)"

lemma unpublished_stable:
  assumes "unpublished w i" and "evolves sha w w'" and "inv sha w"
  shows "unpublished w' i"
proof -
  note ev = evolvesD [OF assms(2,3)]
  have "rc_State r' = StateFailed \<and> rc_Reason r' = ReasonNotPublished" if "job_at w' i = Some r'" for r'
  proof (cases "job_at w i")
    case None
    then have "jobs_lookup w' (jobKey i) = None" using ev(5) [of i] assms(1) job_at_None [OF assms(3)] by (auto simp: unpublished_def)
    then show ?thesis using that by (simp add: job_at_iff)
  next
    case (Some r)
    then have f: "rc_State r = StateFailed" "rc_Reason r = ReasonNotPublished" using assms(1) by (auto simp: unpublished_def)
    have l: "rec_leads r r'" using ev(6) [OF Some that] .
    then have "rc_State r' = StateFailed" "r' = r\<lparr>rc_State := rc_State r'\<rparr>" using f(1) by (auto simp: rec_leads_def)
    then show ?thesis using f by (metis Record.select_convs(14) Record.surjective Record.update_convs(8))
  qed
  then show ?thesis using assms(1) ev(3) by (auto simp: unpublished_def)
qed

lemma delete_stale_ok:
  assumes "inv sha w" and "hasPrefix receiptPrefix key" and "jobs_lookup w key = Some s" and "names (s_val s) = Some y"
    and "unpublished w y"
  shows "step_ok sha ids w (wrem w key)"
proof -
  obtain x where "s_val s = VReceipt x" using inv_receipt [OF assms(1-3)] by blast
  then have "receipt_at w key = Some x" "rcp_ID x = y" using assms(3,4) by (simp_all add: receipt_at_iff)
  then show ?thesis using assms(2,5) by (intro delete_receipt_ok [OF assms(1)]) (auto simp: unpublished_def published_def)
qed

lemma psafe_lookupReceipt:
  fixes P :: "world \<Rightarrow> bool"
  assumes pre: "hasPrefix receiptPrefix key"
    and stab: "\<And>w w'. P w \<Longrightarrow> inv sha w \<Longrightarrow> rely sha ids w w' \<Longrightarrow> P w'"
    and del: "\<And>w. P w \<Longrightarrow> P (wrem w key)"
    and c: "\<And>r w'. inv sha w' \<Longrightarrow> P w' \<Longrightarrow> psafe U sha ids Q (c r) w'"
  shows "inv sha w \<Longrightarrow> P w \<Longrightarrow> psafe U sha ids Q (lookupReceipt key hash clearStale n c) w"
proof (induction n arbitrary: w)
  case 0
  then show ?case using c by simp
next
  case (Suc n)
  note here = Suc.prems
  have stale: "psafe U sha ids Q (if \<not> clearStale then c (Inr NoBinding)
      else DeleteReceipt key rv (\<lambda>d. case d of None \<Rightarrow> c (Inr NoBinding) | Some _ \<Rightarrow> lookupReceipt key hash clearStale n c)) w1"
    if w1: "inv sha w1" "P w1" and nm: "entry_names y rv key w1" and un: "unpublished w1 y" for w1 rv y
  proof (cases clearStale)
    case True
    have "psafe U sha ids Q (Delete JOBS key rv (\<lambda>d. case d of None \<Rightarrow> c (Inr NoBinding) | Some _ \<Rightarrow> lookupReceipt key hash clearStale n c)) w1"
    proof (rule pr.safe_Delete, goal_cases)
      case (1 w2 err)
      then show ?case using Suc.IH stab [OF w1(2,1)] by simp
    next
      case (2 w2 w3 s)
      have "names (s_val s) = Some y"
        using entry_names_stable [OF nm rely_evolves [OF 2(1)] w1(1)] 2(3,4) by (auto simp: entry_names_def)
      moreover have "unpublished w2 y" using unpublished_stable [OF un rely_evolves [OF 2(1)] w1(1)] .
      ultimately have "step_ok sha ids w2 w3" using delete_stale_ok [OF 2(2) pre] 2(3,5) by auto
      moreover have "P w3" using del stab [OF w1(2,1) 2(1)] 2(5) by simp
      ultimately show ?case using step_okD c Suc.IH by simp
    qed
    then show ?thesis unfolding DeleteReceipt_def if_not_P [OF not_not [THEN iffD2, OF True]] .
  qed (use c w1 in simp)
  have read: "psafe U sha ids Q (ReadRecord (rcp_ID x) (\<lambda>j. case j of
        Inr st \<Rightarrow>
          if rc_State (sr_Record st) \<noteq> StateFailed \<or> rc_Reason (sr_Record st) \<noteq> ReasonNotPublished
          then c (Inr (if rcp_SnapshotHash x \<noteq> hash then Mismatch else BoundTo (sr_Record st)))
          else (if \<not> clearStale then c (Inr NoBinding)
            else DeleteReceipt key (s_rev s) (\<lambda>d. case d of None \<Rightarrow> c (Inr NoBinding) | Some _ \<Rightarrow> lookupReceipt key hash clearStale n c))
      | Inl err \<Rightarrow>
          if err = ErrKeyNotFound then (if \<not> clearStale then c (Inr NoBinding)
            else DeleteReceipt key (s_rev s) (\<lambda>d. case d of None \<Rightarrow> c (Inr NoBinding) | Some _ \<Rightarrow> lookupReceipt key hash clearStale n c))
          else emit (Logged ''collection record of an idempotency receipt is not readable'') (c (Inl errPGOUnavailable)))) w1"
    if w1: "inv sha w1" "P w1" "jobs_lookup w1 key = Some s" "s_val s = VReceipt x" for w1 s x
    unfolding ReadRecord_def
  proof (rule pr.safe_Get, goal_cases)
    case (1 w2 e)
    then show ?case using c stab [OF w1(2,1)] by simp
  next
    case (2 w2)
    have nm: "entry_names (rcp_ID x) (s_rev s) key w1" "jobKey (rcp_ID x) \<in> seen w1"
      using w1 inv_rev [OF w1(1,3)] inv_receipt [OF w1(1) pre w1(3)] by (auto simp: entry_names_def)
    have "unpublished w2 (rcp_ID x)"
      using 2(3) nm(2) evolvesD(3) [OF rely_evolves [OF 2(1)] w1(1)] by (auto simp: unpublished_def job_at_iff)
    then show ?case using stale [OF 2(2) stab [OF w1(2,1) 2(1)] entry_names_stable [OF nm(1) rely_evolves [OF 2(1)] w1(1)]] by simp
  next
    case (3 w2 t)
    have nm: "entry_names (rcp_ID x) (s_rev s) key w1"
      using w1 inv_rev [OF w1(1,3)] inv_receipt [OF w1(1) pre w1(3)] by (auto simp: entry_names_def)
    have at: "jobs_lookup w2 (jobKey (rcp_ID x)) = Some t" using 3(3) by simp
    obtain r where r: "s_val t = VJob r" using inv_job [OF 3(2) at] by blast
    have "unpublished w2 (rcp_ID x)" if "rc_State r = StateFailed" "rc_Reason r = ReasonNotPublished"
      using that at r inv_rev [OF 3(2) at] by (auto simp: unpublished_def job_at_iff)
    then show ?case
      using stale [OF 3(2) stab [OF w1(2,1) 3(1)] entry_names_stable [OF nm rely_evolves [OF 3(1)] w1(1)]]
        c [OF 3(2) stab [OF w1(2,1) 3(1)]] r by (auto split: if_split)
  qed
  have ok: "psafe U sha ids Q (c r) w1" if "rely sha ids w w1" "inv sha w1" for r w1
    using c that stab here by blast
  show ?case unfolding lookupReceipt.simps Let_def ReadReceipt_def
  proof (rule psafe_readReceipt, goal_cases)
    case (1 w1 e)
    then show ?case using ok by simp
  next
    case (2 w1)
    then show ?case using ok by simp
  next
    case (3 w1 s x)
    show ?case unfolding sum.case option.case prod.case by (rule read [OF 3(2) stab [OF here(2,1) 3(1)] 3(3,4)])
  qed
qed

lemma psafe_answer: "(\<And>a. f = Some a \<Longrightarrow> psafe U sha ids Q (Ret a) w) \<Longrightarrow> (f = None \<Longrightarrow> psafe U sha ids Q p w) \<Longrightarrow>
    psafe U sha ids Q (case f of Some a \<Rightarrow> Ret a | None \<Rightarrow> p) w"
  by (cases f) simp_all

lemma psafe_refuseLoser:
  assumes "inv sha w" and "key \<noteq> [] \<longrightarrow> hasPrefix receiptPrefix receiptKey"
  shows "psafe U sha ids (\<lambda>_ _. True) (refuseLoser receiptKey hash key) w"
proof (cases "key = []")
  case False
  then have "hasPrefix receiptPrefix receiptKey" using assms(2) by simp
  then show ?thesis using False assms(1) unfolding refuseLoser_def
    by (auto intro!: psafe_lookupReceipt [where P = "\<lambda>_. True"] split: sum.split option.split)
qed (simp add: refuseLoser_def)

definition unseen :: "string \<Rightarrow> world \<Rightarrow> bool" where
  "unseen i w \<longleftrightarrow> jobKey i \<notin> seen w"

lemma psafe_createPublish:
  assumes "inv (e_sha e) w" and "length (cr_random q) = idLength" and "newID (cr_random q) \<in> ids" and "unseen (newID (cr_random q)) w"
    and "key \<noteq> [] \<longrightarrow> hasPrefix receiptPrefix receiptKey"
  shows "psafe U (e_sha e) ids (\<lambda>_ _. True) (createPublish e q key receiptKey hash cfg snapshot h) w"
  unfolding createPublish_def
proof (rule pr.safe_Now)
  fix t
  have "psafe U (e_sha e) ids (\<lambda>_ _. True) (Publish e (cr_random q) h (createInput q key cfg snapshot t)) w"
    using assms by (intro psafe_Publish) (auto simp: unseen_def)
  then show "psafe U (e_sha e) ids (\<lambda>_ _. True) (bind (Publish e (cr_random q) h (createInput q key cfg snapshot t)) (\<lambda>(i, out).
       let answer = (case out of
             Inl _ \<Rightarrow> fail errPGOUnavailable
           | Inr OutcomeBusy \<Rightarrow> refuseLoser receiptKey hash key
           | Inr OutcomeWon \<Rightarrow> Ret (Created i StatePending));
           done = (if cr_gone q then Ret ClientGone else answer)
       in case out of Inl _ \<Rightarrow> emit (Logged ''publishing an on-demand collection failed'') done | Inr _ \<Rightarrow> done)) w"
    by (rule pr.safe_bind [OF _ _ assms(1)])
       (auto simp: Let_def intro!: psafe_refuseLoser psafe_emit assms(5) split: sum.split Outcome.split)
qed

lemma caches_create_Reserve:
  "Reserve e gen ns svc l = (r, l') \<Longrightarrow> rp_caches l' = rp_caches l \<and> rp_started l' = rp_started l"
  by (auto simp: Reserve_def Let_def split: prod.splits if_splits)

lemma unseen_rely: "unseen i w \<Longrightarrow> inv sha w \<Longrightarrow> i \<in> ids \<Longrightarrow> rely sha ids w w' \<Longrightarrow> unseen i w'"
  unfolding unseen_def by (rule rely_unseen)

lemma psafe_createAdmit:
  assumes "inv (e_sha e) w" and "length (cr_random q) = idLength" and "newID (cr_random q) \<in> ids" and "unseen (newID (cr_random q)) w"
    and "key \<noteq> [] \<longrightarrow> hasPrefix receiptPrefix receiptKey"
  shows "psafe U (e_sha e) ids (\<lambda>_ _. True) (createAdmit e gen q key receiptKey hash cfg snapshot vs) w"
proof -
  have "psafe U (e_sha e) ids (\<lambda>_ _. True) (Loc (\<lambda>l. case Reserve e gen (cr_Namespace q) (cr_Service q) l of
         (Inl StaleCaches, l') \<Rightarrow> (l', fail errPGOUnavailable)
       | (Inl ErrCapacityExhausted, l') \<Rightarrow> (l', fail errCapacityExhausted)
       | (Inr h, l') \<Rightarrow> (l', createPublish e q key receiptKey hash cfg snapshot h))) w'"
    if w': "rely (e_sha e) ids w w'" "inv (e_sha e) w'" for w'
  proof (rule pr.safe_Loc, goal_cases)
    case (1 w2 l)
    obtain r l' where r: "Reserve e gen (cr_Namespace q) (cr_Service q) l = (r, l')" by fastforce
    have "unseen (newID (cr_random q)) w2"
      using unseen_rely [OF assms(4,1,3)] rely_trans [OF w'(1) 1(1)] by blast
    then show ?case using r 1 linv_caches [of l' l] caches_create_Reserve [OF r] psafe_createPublish [OF 1(2) assms(2,3) _ assms(5)]
      by (auto split: sum.split reserve_err.split)
  qed
  then show ?thesis unfolding createAdmit_def
    by (auto intro!: pr.safe_inspect split: sum.split prod.split)
qed

lemma psafe_serveCollectionCreate:
  assumes "inv (e_sha e) w" and "length (cr_random q) = idLength" and "newID (cr_random q) \<in> ids" and "unseen (newID (cr_random q)) w"
  shows "psafe U (e_sha e) ids (\<lambda>_ _. True) (serveCollectionCreate e gen q) w"
proof -
  let ?i = "newID (cr_random q)"
  have look: "psafe U (e_sha e) ids (\<lambda>_ _. True) (lookupReceipt rk hash True receiptReads (\<lambda>b. case b of
        Inl lerr \<Rightarrow> fail lerr
      | Inr bound \<Rightarrow> (case answerFromReceipt bound of Some a \<Rightarrow> Ret a
          | None \<Rightarrow> createAdmit e gen q key rk hash cfg snapshot vs))) w'"
    if "rely (e_sha e) ids w w'" "inv (e_sha e) w'" "hasPrefix receiptPrefix rk" for w' rk hash key cfg snapshot vs
  proof (rule psafe_lookupReceipt [where P = "unseen ?i"])
    show "unseen ?i w''" if "unseen ?i w'" "inv (e_sha e) w'" "rely (e_sha e) ids w' w''" for w' w''
      using that unseen_rely assms(3) by blast
    show "unseen ?i w'" using unseen_rely [OF assms(4,1,3) that(1)] .
  qed (use that assms in \<open>auto simp: unseen_def intro!: psafe_createAdmit split: sum.split option.split\<close>)
  have admit: "psafe U (e_sha e) ids (\<lambda>_ _. True) (createAdmit e gen q [] [] hash cfg snapshot vs) w'"
    if "rely (e_sha e) ids w w'" "inv (e_sha e) w'" for w' hash cfg snapshot vs
    using that assms unseen_rely [OF assms(4,1,3) that(1)] by (intro psafe_createAdmit) auto
  show ?thesis unfolding serveCollectionCreate_def Let_def
    using look admit by (auto intro!: pr.safe_inspect split: sum.split prod.split)
qed

lemma psafe_readCollection:
  assumes "\<And>w' e. rely sha ids w w' \<Longrightarrow> inv sha w' \<Longrightarrow> psafe U sha ids Q (c (Inl e)) w'"
    and "\<And>w' st. rely sha ids w w' \<Longrightarrow> inv sha w' \<Longrightarrow> entry_is w' (sr_Record st) (sr_Revision st) \<Longrightarrow>
      job_at w' i = Some (sr_Record st) \<Longrightarrow> psafe U sha ids Q (c (Inr st)) w'"
  shows "psafe U sha ids Q (readCollection i c) w"
  unfolding readCollection_def
  by (rule psafe_ReadRecord) (use assms in \<open>auto split: kv_err.split\<close>)

lemma psafe_elapsed: "psafe U sha ids (\<lambda>_ _. True) (elapsed started a) w"
  unfolding elapsed_def by (rule pr.safe_Now) simp

lemma psafe_waitLoop: "psafe U sha ids (\<lambda>_ _. True) (waitLoop i baseline started deadline evs) w"
proof (induction evs arbitrary: deadline w)
  case Nil
  then show ?case by (auto intro!: psafe_readCollection psafe_elapsed)
next
  case (Cons ev evs)
  then show ?case by (auto intro!: psafe_readCollection psafe_elapsed split: waitEvent.split)
qed

lemma linv_subscribers:
  "linv U (l\<lparr>rp_caches := c\<rparr>) w = linv U l w"
  if "c_jobs c = c_jobs (rp_caches l)" "c_active c = c_active (rp_caches l)" "c_slots c = c_slots (rp_caches l)"
    "c_overrides c = c_overrides (rp_caches l)"
  using that by (simp add: linv_def)

lemma subscribers_only:
  "c_jobs (snd (Subscribe i c)) = c_jobs c" "c_active (snd (Subscribe i c)) = c_active c" "c_slots (snd (Subscribe i c)) = c_slots c"
  "c_overrides (snd (Subscribe i c)) = c_overrides c" "c_overrides (Unsubscribe i ch c) = c_overrides c"
  "c_jobs (Unsubscribe i ch c) = c_jobs c" "c_active (Unsubscribe i ch c) = c_active c" "c_slots (Unsubscribe i ch c) = c_slots c"
  by (simp_all add: Subscribe_def Unsubscribe_def Let_def split: option.split)

lemma psafe_waitForCollection:
  assumes "inv sha w"
  shows "psafe U sha ids (\<lambda>_ _. True) (waitForCollection stored evs) w"
  unfolding waitForCollection_def
proof (rule pr.safe_Loc, goal_cases)
  case (1 w' l)
  let ?i = "rc_ID (sr_Record stored)"
  have "psafe U sha ids (\<lambda>_ _. True) (modify (\<lambda>l. l\<lparr>rp_caches := Unsubscribe ?i ch (rp_caches l)\<rparr>) (Ret a)) w2" for ch a w2
    by (rule pr.safe_modify) (simp_all add: linv_subscribers subscribers_only)
  then have "psafe U sha ids (\<lambda>_ _. True) (Now (\<lambda>started. bind (waitLoop ?i (rc_State (sr_Record stored)) started False evs) (\<lambda>a.
      modify (\<lambda>l. l\<lparr>rp_caches := Unsubscribe ?i ch (rp_caches l)\<rparr>) (Ret a)))) w'" for ch
    using 1(2) by (intro pr.safe_Now pr.safe_bind [OF psafe_waitLoop])
  then show ?case using 1(3) subscribers_only(1-4) [of ?i "rp_caches l"] linv_subscribers [of "snd (Subscribe ?i (rp_caches l))" l]
    by (auto split: prod.split)
qed

lemma psafe_serveCollectionRead: "inv sha w \<Longrightarrow> psafe U sha ids (\<lambda>_ _. True) (serveCollectionRead stored wait evs) w"
  by (simp add: serveCollectionRead_def psafe_waitForCollection)

lemma psafe_serveLatestCollection: "inv sha w \<Longrightarrow> psafe U sha ids (\<lambda>_ _. True) (serveLatestCollection e gen ns svc profile) w"
  unfolding serveLatestCollection_def
  by (rule pr.safe_bind [OF psafe_LatestCompleted]) (auto intro!: psafe_serveCollectionRead split: sum.split)

lemma psafe_serveCollectionDownload:
  assumes "inv sha w" and "entry_is w (sr_Record stored) (sr_Revision stored)"
  shows "psafe U sha ids (\<lambda>_ _. True) (serveCollectionDownload e stored) w"
  unfolding serveCollectionDownload_def Let_def
  using assms by (auto intro!: pr.safe_Open psafe_ExpireGoneArtifact split: option.split)

lemma psafe_cancelLoop:
  "inv sha w \<Longrightarrow> entry_is w (sr_Record stored) (sr_Revision stored) \<Longrightarrow> psafe U sha ids (\<lambda>_ _. True) (cancelLoop e i n stored) w"
proof (induction n arbitrary: w stored)
  case (Suc n)
  define r where "r = sr_Record stored"
  define r' where "r' now = r\<lparr>rc_State := StateCancelled, rc_Reason := ReasonCancelledByAPI, rc_FinishedAt := Some now\<rparr>" for now
  have wr: "psafe U sha ids (\<lambda>_ _. True) (WriteRecord e (r' now) (sr_Revision stored) (\<lambda>u. case u of
          None \<Rightarrow> RecordTransition (r' now) (bind (releaseActive (r' now)) (\<lambda>_. Ret (CancelledBody (r' now))))
        | Some WriteTooLarge \<Rightarrow> fail errPGOUnavailable
        | Some (WriteStore err) \<Rightarrow>
            if err = ErrRevisionMismatch
            then (if n = 0 then fail errCASContended
                  else readCollection i (\<lambda>s. case s of Inl rerr \<Rightarrow> fail rerr | Inr st \<Rightarrow> cancelLoop e i n st))
            else fail (storeError err))) w"
    if "rc_State r = StatePending \<or> rc_State r = StateRunning" for now
  proof (rule psafe_WriteRecord [OF Suc.prems(1), of r])
    show "entry_is w r (sr_Revision stored)" using Suc.prems(2) by (simp add: r_def)
    show "rec_leads r (r' now)" using that by (auto simp: rec_leads_def r'_def)
    show "rec_ok (r' now)" if "rec_ok r" using that by (auto simp: rec_ok_def r'_def)
    show "st_step (rc_State r) (rc_State (r' now))" using that by (auto simp: r'_def)
    show "rc_State r \<noteq> StateInitializing" "rc_ID (r' now) = rc_ID r" using that by (auto simp: r'_def)
    fix err w' assume "evolves sha w w'" "inv sha w'"
    then show "psafe U sha ids (\<lambda>_ _. True) (case Some err of
          None \<Rightarrow> RecordTransition (r' now) (bind (releaseActive (r' now)) (\<lambda>_. Ret (CancelledBody (r' now))))
        | Some WriteTooLarge \<Rightarrow> fail errPGOUnavailable
        | Some (WriteStore err) \<Rightarrow>
            if err = ErrRevisionMismatch
            then (if n = 0 then fail errCASContended
                  else readCollection i (\<lambda>s. case s of Inl rerr \<Rightarrow> fail rerr | Inr st \<Rightarrow> cancelLoop e i n st))
            else fail (storeError err)) w'"
      using Suc.IH by (auto intro!: psafe_readCollection split: write_err.split)
  next
    fix w' assume w': "evolves sha w w'" "inv sha w'" "job_at w' (rc_ID r) = Some (r' now)"
    have "settled w' (rc_ID (r' now))" using w' job_at_seen [OF w'(2,3)] by (auto simp: settled_def r'_def)
    then have "psafe U sha ids (\<lambda>_ _. True) (bind (releaseActive (r' now)) (\<lambda>_. Ret (CancelledBody (r' now)))) w'"
      using w'(2) by (intro pr.safe_bind [OF psafe_releaseActive]) simp_all
    then show "psafe U sha ids (\<lambda>_ _. True) (case None of
          None \<Rightarrow> RecordTransition (r' now) (bind (releaseActive (r' now)) (\<lambda>_. Ret (CancelledBody (r' now))))
        | Some WriteTooLarge \<Rightarrow> fail errPGOUnavailable
        | Some (WriteStore err) \<Rightarrow>
            if err = ErrRevisionMismatch
            then (if n = 0 then fail errCASContended
                  else readCollection i (\<lambda>s. case s of Inl rerr \<Rightarrow> fail rerr | Inr st \<Rightarrow> cancelLoop e i n st))
            else fail (storeError err)) w'" by simp
  qed
  show ?case
  proof (cases "rc_State r = StatePending \<or> rc_State r = StateRunning")
    case True
    then have "rc_State r \<noteq> StateInitializing" by auto
    note cond = if_not_P [OF this] if_P [OF True]
    show ?thesis
      unfolding cancelLoop.simps Let_def r_def [symmetric] r'_def [symmetric] cond by (rule pr.safe_Now, rule wr [OF True])
  qed (simp add: r_def Let_def)
qed simp

lemma psafe_servePGOCollection: "psafe U sha ids (\<lambda>_ _. True) (servePGOCollection e allows i kind) w"
  unfolding servePGOCollection_def serveCollectionCancel_def
  by (auto intro!: psafe_readCollection psafe_serveCollectionRead psafe_serveCollectionDownload psafe_cancelLoop
      split: collectionRoute.split option.split)

lemma psafe_policies:
  assumes "inv sha w"
  shows "psafe U sha ids (\<lambda>_ _. True) (servePolicyRead e ns svc) w"
    "psafe U sha ids (\<lambda>_ _. True) (servePolicyWrite e disabled ifMatch body prin ns svc) w"
    "psafe U sha ids (\<lambda>_ _. True) (servePolicyDelete disabled rejected ifMatch ns svc) w"
proof -
  have created: "psafe U sha ids (\<lambda>_ _. True) (policyCreated status stored eff vs lost r) w'" for status stored eff vs lost r w'
    by (simp add: policyCreated_def split: sum.split)
  show "psafe U sha ids (\<lambda>_ _. True) (servePolicyRead e ns svc) w"
    unfolding servePolicyRead_def by (intro psafe_ReadOverride) (auto split: sum.split prod.split)
  show "psafe U sha ids (\<lambda>_ _. True) (servePolicyWrite e disabled ifMatch body prin ns svc) w"
    unfolding servePolicyWrite_def Let_def
    by (auto intro!: pr.safe_Now psafe_ReadOverride psafe_write_overrides created split: sum.split prod.split option.split)
  show "psafe U sha ids (\<lambda>_ _. True) (servePolicyDelete disabled rejected ifMatch ns svc) w"
    unfolding servePolicyDelete_def
    by (auto intro!: psafe_ReadOverride psafe_DeleteOverride split: sum.split prod.split option.split)
qed

section \<open>What the handlers answer\<close>

text \<open>
  The entity tag the gateway sends for a revision reads back as that revision, for every
  64-bit revision.
\<close>

theorem etag_roundtrip:
  "parseIfMatch (etagOf revision) = (if revision < 2 ^ 64 then Inr (Some revision) else Inl invalidParameter)"
  by (simp add: parseIfMatch_def etagOf_def ifMatchDigits_def list_all_iff showNat_digits)

lemma echoable_idempotencyKey: "idempotencyKey hs = Inr key \<longleftrightarrow> hs = [] \<and> key = [] \<or> hs = [key] \<and> echoable key"
  by (cases hs rule: list.exhaust; cases "tl hs") (auto simp: idempotencyKey_def split: list.splits if_splits)

text \<open>
  An idempotency key is accepted only as one header value of 1 to 128 safe characters, and the
  receipt it names can then be built from it; no header is the empty key.
\<close>

theorem idempotencyKey_accepts:
  "idempotencyKey hs = Inr key \<longleftrightarrow>
     hs = [] \<and> key = [] \<or> hs = [key] \<and> key \<noteq> [] \<and> length key \<le> 128 \<and> (\<forall>c \<in> set key. echoChar c)"
  by (auto simp: echoable_idempotencyKey echoable_def requestIDMaxBytes_def list_all_iff)

lemma run_lookupReceipt:
  assumes "receipt_at w key = Some x" and "job_at w (rcp_ID x) = Some r" and "\<not> (rc_State r = StateFailed \<and> rc_Reason r = ReasonNotPublished)"
  shows "run (lookupReceipt key hash clearStale (Suc n) c) [] w l =
    run (c (Inr (if rcp_SnapshotHash x \<noteq> hash then Mismatch else BoundTo r))) [] w l"
proof -
  obtain s where s: "jobs_lookup w key = Some s" "asReceipt (s_val s) = Some x" using assms(1) by (auto simp: receipt_at_def split: option.splits)
  obtain t where t: "jobs_lookup w (jobKey (rcp_ID x)) = Some t" "asJob (s_val t) = Some r" using assms(2) by (auto simp: job_at_def split: option.splits)
  show ?thesis using s t assms(3) by (auto simp: Let_def ReadReceipt_def readReceipt_def ReadRecord_def kv_get_def)
qed

text \<open>
  C15: A keyed create whose key is already bound writes nothing, whatever the caches say of the
  Service and of the ceiling: it answers the bound Collection when the effective policy hashes as
  it did, and refuses the request otherwise.
\<close>

theorem create_replays:
  assumes "idempotencyKey (cr_keys q) = Inr key" and "key \<noteq> []" and "cr_body q = Inr body" and "po_Enabled body = None" and "po_Schedule body = None"
    and "Override (rp_generation l) gen (cr_Namespace q) (cr_Service q) (rp_caches l) = (stored, rv, True)"
    and "receipt_at w (ReceiptKey (e_sha e) (cr_principal q) (cr_Namespace q) (cr_Service q) key) = Some x"
    and "job_at w (rcp_ID x) = Some r" and "\<not> (rc_State r = StateFailed \<and> rc_Reason r = ReasonNotPublished)"
  shows "run (serveCollectionCreate e gen q) [] w l =
    (if rcp_SnapshotHash x = e_snapHash e (fst (sessEffective e [stored, Some body])) then Replayed (rc_ID r) (rc_State r)
     else Refused errIdempotencyMismatch False, w, l, [])"
proof -
  obtain snap vs where v: "sessEffective e [stored, Some body] = (snap, vs)" by fastforce
  note look = run_lookupReceipt [OF assms(7-9)]
  show ?thesis
    unfolding serveCollectionCreate_def receiptReads_def numeral_2_eq_2
    using assms(1-6) v by (simp add: Let_def look answerFromReceipt_def del: lookupReceipt.simps)
qed

definition demo_create :: createRequest where
  "demo_create = \<lparr>cr_keys = [''k''], cr_body = Inr empty_override, cr_principal = ''alice'', cr_Namespace = ''ns'', cr_Service = ''svc'',
     cr_token = True, cr_targets = Inr [demo_target], cr_random = replicate 20 0, cr_gone = False\<rparr>"

abbreviation demo_key :: string where
  "demo_key \<equiv> ReceiptKey (e_sha demo_env) ''alice'' ''ns'' ''svc'' ''k''"

definition demo_bound :: world where
  "demo_bound = emptyWorld\<lparr>w_jobs := put demo_key (VReceipt \<lparr>rcp_ID = rc_ID demo_record, rcp_SnapshotHash = ''h'', rcp_CreatedAt = 0\<rparr>) 0
     (put (jobKey (rc_ID demo_record)) (VJob demo_record) 0 emptyBucket)\<rparr>"

lemma demo_bound_entries:
  "receipt_at demo_bound demo_key = Some \<lparr>rcp_ID = rc_ID demo_record, rcp_SnapshotHash = ''h'', rcp_CreatedAt = 0\<rparr>"
  "job_at demo_bound (rc_ID demo_record) = Some demo_record"
  by (simp_all add: demo_bound_def receipt_at_def job_at_def)

lemma create_replays_witness:
  "run (serveCollectionCreate demo_env 0 demo_create) [] demo_bound demo_ready =
     (Replayed (rc_ID demo_record) StateRunning, demo_bound, demo_ready, [])"
proof -
  have "idempotencyKey (cr_keys demo_create) = Inr ''k''"
    by (simp add: demo_create_def idempotencyKey_def echoable_def echoChar_def requestIDMaxBytes_def)
  moreover have "Override (rp_generation demo_ready) 0 (cr_Namespace demo_create) (cr_Service demo_create) (rp_caches demo_ready) = (None, 0, True)"
    by (simp add: Override_def)
  moreover have "rc_State demo_record = StateRunning" by (simp add: demo_record_def)
  ultimately show ?thesis
    using create_replays [of demo_create "''k''" empty_override demo_ready 0 None 0 demo_bound demo_env _ demo_record] demo_bound_entries
    by (simp add: demo_create_def demo_env_def empty_override_def)
qed

abbreviation config_lookup :: "world \<Rightarrow> string \<Rightarrow> stored option" where
  "config_lookup w k \<equiv> lookup (w_config w) k"

text \<open>What a policy write that goes through answers and stores.\<close>

definition policyWritten :: "env \<Rightarrow> string \<Rightarrow> string \<Rightarrow> StoredOverride \<Rightarrow> nat \<Rightarrow> world \<Rightarrow> answer \<times> world" where
  "policyWritten e ns svc st status w =
     (let (eff, vs) = sessEffective e [st_Policy st]
      in (PolicyStored status (Suc (b_last (w_config w))) st eff vs,
          w\<lparr>w_config := put (overrideKey ns svc) (VOverride st) (w_clock w) (w_config w)\<rparr>))"

text \<open>
  C22: A policy write is conditional on the entity tag: without a stored override it creates one and
  refuses a tag; with one it demands the tag and replaces the override exactly when the tag is its
  revision; every refusal leaves the stores as they are.
\<close>

theorem policy_write_decides:
  fixes w body prin
  defines "st \<equiv> \<lparr>st_Policy = Some body, st_UpdatedBy = prin, st_UpdatedAt = w_clock w\<rparr>"
  assumes "parseIfMatch ifMatch = Inr cond" and "Validate (Effective (e_defaults e) (Some body)) (e_limits e) = []"
    and "e_jsize e (VOverride st) \<le> maxRecordBytes"
    and "\<forall>s. config_lookup w (overrideKey ns svc) = Some s \<longrightarrow> (\<exists>old. s_val s = VOverride old)"
    and "run (servePolicyWrite e False ifMatch (Inr body) prin ns svc) [] w l = (a, w', l', fs)"
  shows "(a, w') = (case (map_option s_rev (config_lookup w (overrideKey ns svc)), cond) of
      (None, None) \<Rightarrow> policyWritten e ns svc st 201 w
    | (None, Some _) \<Rightarrow> (Refused errPreconditionFailed False, w)
    | (Some _, None) \<Rightarrow> (Refused errPreconditionRequired False, w)
    | (Some rv, Some expected) \<Rightarrow>
        if expected = rv then policyWritten e ns svc st 200 w else (Refused errPreconditionFailed False, w))"
proof -
  obtain eff vs where v: "sessEffective e [Some body] = (eff, [])" "sessEffective e [Some body] = (eff, vs)"
    using assms(3) by (simp add: sessEffective_def Let_def)
  show ?thesis
  proof (cases "config_lookup w (overrideKey ns svc)")
    case None
    then show ?thesis using assms(2,4,6) v unfolding st_def
      by (auto simp: servePolicyWrite_def ReadOverride_def kv_ops Let_def CreateOverride_def MarshalBounded_def policyCreated_def policyWritten_def split: option.split if_splits)
  next
    case (Some s)
    then obtain old where "s_val s = VOverride old" using assms(5) by blast
    then show ?thesis using Some assms(2,4,6) v unfolding st_def
      by (auto simp: servePolicyWrite_def ReadOverride_def kv_ops Let_def UpdateOverride_def MarshalBounded_def policyCreated_def policyWritten_def split: option.split if_splits)
  qed
qed

lemma demo_policy_ok [simp]: "Validate (Effective (e_defaults demo_env) (Some empty_override)) (e_limits demo_env) = []"
  using shippedPolicy_ok(2) by (simp add: demo_env_def Validate_Nil_iff)

lemma policy_write_decides_witness:
  "\<exists>a w' l' fs. run (servePolicyWrite demo_env False [] (Inr empty_override) ''alice'' ''ns'' ''svc'') [] emptyWorld newReplica = (a, w', l', fs) \<and>
     (a, w') = policyWritten demo_env ''ns'' ''svc'' \<lparr>st_Policy = Some empty_override, st_UpdatedBy = ''alice'', st_UpdatedAt = 0\<rparr> 201 emptyWorld"
proof -
  obtain a w' l' fs where run: "run (servePolicyWrite demo_env False [] (Inr empty_override) ''alice'' ''ns'' ''svc'') [] emptyWorld newReplica = (a, w', l', fs)"
    by (metis prod_cases4)
  show ?thesis
    using policy_write_decides [OF _ demo_policy_ok _ _ run] run by (simp add: parseIfMatch_def demo_env_def maxRecordBytes_def)
qed

text \<open>
  What a policy write answered is what the next read answers: the same revision, the same
  stored override and the same effective policy, on every replica.
\<close>

theorem policy_read_after_write:
  assumes "run (servePolicyWrite e disabled ifMatch body prin ns svc) [] w l = (PolicyStored status rv st eff vs, w', l', fs)"
  shows "run (servePolicyRead e ns svc) [] w' l2 = (PolicyStored 200 rv st eff vs, w', l2, [])"
  using assms
  by (auto simp: servePolicyWrite_def servePolicyRead_def ReadOverride_def kv_ops Let_def CreateOverride_def UpdateOverride_def
    MarshalBounded_def policyCreated_def split: prod.splits option.splits if_splits sum.splits)

lemma policy_read_after_write_witness:
  "\<exists>w' st eff vs. run (servePolicyRead demo_env ''ns'' ''svc'') [] w' demo_ready = (PolicyStored 200 1 st eff vs, w', demo_ready, [])"
proof -
  let ?st = "\<lparr>st_Policy = Some empty_override, st_UpdatedBy = ''alice'', st_UpdatedAt = 0\<rparr>"
  have "sessEffective demo_env [Some empty_override] = (e_defaults demo_env, [])"
    using demo_policy_ok by (simp add: sessEffective_def Let_def)
  then have "fst (run (servePolicyWrite demo_env False [] (Inr empty_override) ''alice'' ''ns'' ''svc'') [] emptyWorld newReplica) =
      PolicyStored 201 1 ?st (e_defaults demo_env) []"
    by (simp add: servePolicyWrite_def parseIfMatch_def Let_def ReadOverride_def kv_ops CreateOverride_def MarshalBounded_def
        policyCreated_def demo_env_def maxRecordBytes_def)
  then obtain w' l' fs where "run (servePolicyWrite demo_env False [] (Inr empty_override) ''alice'' ''ns'' ''svc'') [] emptyWorld newReplica =
      (PolicyStored 201 1 ?st (e_defaults demo_env) [], w', l', fs)"
    by (metis prod.collapse)
  then have "run (servePolicyRead demo_env ''ns'' ''svc'') [] w' demo_ready = (PolicyStored 200 1 ?st (e_defaults demo_env) [], w', demo_ready, [])"
    by (rule policy_read_after_write)
  then show ?thesis by blast
qed

definition cancelledRecord :: "Record \<Rightarrow> time \<Rightarrow> Record" where
  "cancelledRecord rec now = rec\<lparr>rc_State := StateCancelled, rc_Reason := ReasonCancelledByAPI, rc_FinishedAt := Some now\<rparr>"

lemma cancelledRecord_simps [simp]:
  "rc_ID (cancelledRecord rec now) = rc_ID rec" "rc_Namespace (cancelledRecord rec now) = rc_Namespace rec"
  "rc_Service (cancelledRecord rec now) = rc_Service rec"
  by (simp_all add: cancelledRecord_def)

text \<open>
  C21: A cancel by the API ends a pending or running Collection at once, whoever owns it: the record
  stored is the cancelled one and the Service's active key no longer names it; any other state is
  refused with its own code and nothing is written.
\<close>

theorem cancel_outcome:
  assumes "job_at w i = Some rec" and "rc_ID rec = i" and "allows (rc_Namespace rec) (rc_Service rec)"
    and "e_jsize e (VJob (cancelledRecord rec (w_clock w))) \<le> maxRecordBytes"
    and "run (servePGOCollection e allows i (KindCollectionCancel None)) [] w l = (a, w', l', fs)"
  shows "if live (rc_State rec)
    then a = CancelledBody (cancelledRecord rec (w_clock w)) \<and> job_at w' i = Some (cancelledRecord rec (w_clock w)) \<and>
      active_at w' (rc_Namespace rec) (rc_Service rec) \<noteq> Some i
    else a = Refused (if rc_State rec = StateInitializing then errCollectionInitializing else errCollectionTerminal) False \<and> w' = w"
proof -
  obtain s where s: "jobs_lookup w (jobKey i) = Some s" "asJob (s_val s) = Some rec" using assms(1) by (auto simp: job_at_def split: option.splits)
  let ?st = "\<lparr>sr_Record = rec, sr_Revision = s_rev s\<rparr>"
  obtain n where n: "cancelAttempts = Suc n" by (simp add: cancelAttempts_def)
  have "run (servePGOCollection e allows i (KindCollectionCancel None)) [] w l = run (cancelLoop e i (Suc n) ?st) [] w l"
    using s assms(2,3)
    by (simp add: servePGOCollection_def readCollection_def ReadRecord_def kv_get_def serveCollectionCancel_def n del: cancelLoop.simps)
  then have run: "run (cancelLoop e i (Suc n) ?st) [] w l = (a, w', l', fs)" using assms(5) by simp
  show ?thesis
  proof (cases "live (rc_State rec)")
    case False
    then show ?thesis using run by (auto simp: live_def Let_def split: if_splits)
  next
    case True
    let ?r = "cancelledRecord rec (w_clock w)" and ?w = "w\<lparr>w_jobs := put (jobKey i) (VJob (cancelledRecord rec (w_clock w))) (w_clock w) (w_jobs w)\<rparr>"
    have st: "rc_State rec \<noteq> StateInitializing" "rc_State rec = StatePending \<or> rc_State rec = StateRunning" using True by (auto simp: live_def)
    have "\<exists>l1. run (cancelLoop e i (Suc n) ?st) [] w l = run (bind (releaseActive ?r) (\<lambda>_. Ret (CancelledBody ?r))) [] ?w l1"
      using st s assms(2,4) by (auto simp: Let_def WriteRecord_def MarshalBounded_def kv_ops RecordTransition_def cancelledRecord_def)
    then obtain l1 where "run (bind (releaseActive ?r) (\<lambda>_. Ret (CancelledBody ?r))) [] ?w l1 = (a, w', l', fs)" using run by auto
    then have "a = CancelledBody ?r" "run (releaseActive ?r) [] ?w l1 = ((), w', l', fs)" by (auto simp: run_bind split: prod.splits)
    then show ?thesis using run_releaseActive [of ?r ?w l1] True assms(2) by (simp add: job_at_def)
  qed
qed

lemma cancel_outcome_witness:
  "\<exists>w' l' fs. run (servePGOCollection demo_env (\<lambda>_ _. True) (rc_ID demo_record) (KindCollectionCancel None)) [] demo_bound demo_ready =
     (CancelledBody (cancelledRecord demo_record 0), w', l', fs) \<and> job_at w' (rc_ID demo_record) = Some (cancelledRecord demo_record 0)"
proof -
  obtain a w' l' fs where run: "run (servePGOCollection demo_env (\<lambda>_ _. True) (rc_ID demo_record) (KindCollectionCancel None)) [] demo_bound demo_ready = (a, w', l', fs)"
    by (metis prod_cases4)
  have "live (rc_State demo_record)" "w_clock demo_bound = 0" by (simp_all add: demo_record_def live_def demo_bound_def)
  then show ?thesis
    using cancel_outcome [OF demo_bound_entries(2) _ _ _ run] run by (simp add: demo_env_def maxRecordBytes_def)
qed

lemma listing_rank:
  assumes "index_ok c" and "map_of (c_jobs c) (jobKey i) = Some j" and "job_ref j = ServiceRef ns svc"
    and newer: "newer = {i'. \<exists>j'. map_of (c_jobs c) (jobKey i') = Some j' \<and> job_ref j' = ServiceRef ns svc \<and>
      (cj_CreatedAt j < cj_CreatedAt j' \<or> cj_CreatedAt j = cj_CreatedAt j' \<and> i < i')}"
  shows "\<exists>ps qs. listing ns svc emptyQuery c = ps @ viewOf i j # qs \<and> length ps = card newer \<and>
    (\<forall>v \<in> set ps. \<exists>i' j'. v = viewOf i' j' \<and> i' \<in> newer \<and> map_of (c_jobs c) (jobKey i') = Some j' \<and> job_ref j' = ServiceRef ns svc)"
proof -
  let ?L = "listing ns svc emptyQuery c"
  have all: "set ?L = {viewOf i j |i j. map_of (c_jobs c) (jobKey i) = Some j \<and> job_ref j = ServiceRef ns svc}"
    by (simp add: set_listing [OF assms(1)] emptyQuery_def admits_def)
  have key: "listing_key (position (viewOf i j)) = (cj_CreatedAt j, i)" for i j by (simp add: listing_key_def position_def viewOf_def)
  obtain ps qs where L: "?L = ps @ viewOf i j # qs" using assms(2,3) all by (metis (mono_tags, lifting) mem_Collect_eq split_list)
  have sorted: "sorted_wrt (\<lambda>a b. listing_key (position b) < listing_key (position a)) (ps @ viewOf i j # qs)"
    using listing_sorted [OF assms(1), of ns svc emptyQuery] L by simp
  then have up: "\<forall>v \<in> set ps. listing_key (position (viewOf i j)) < listing_key (position v)"
    and down: "\<forall>v \<in> set qs. listing_key (position v) < listing_key (position (viewOf i j))"
    and "sorted_wrt (\<lambda>a b. listing_key (position b) < listing_key (position a)) ps"
    by (auto simp: sorted_wrt_append)
  have mem: "v \<in> set ps \<longleftrightarrow> v \<in> set ?L \<and> listing_key (position (viewOf i j)) < listing_key (position v)" for v
  proof -
    have "v \<in> set ?L \<longleftrightarrow> v \<in> set ps \<or> v = viewOf i j \<or> v \<in> set qs" by (auto simp: L)
    then show ?thesis using up down by (meson order.asym order.irrefl)
  qed
  have after: "listing_key (position (viewOf i j)) < listing_key (position (viewOf i' j')) \<longleftrightarrow>
      cj_CreatedAt j < cj_CreatedAt j' \<or> cj_CreatedAt j = cj_CreatedAt j' \<and> i < i'" for i' j' by (auto simp: key)
  have ids: "cv_ID ` set ps = newer"
  proof (intro set_eqI iffI)
    fix x assume "x \<in> cv_ID ` set ps"
    then obtain v where v: "v \<in> set ps" "x = cv_ID v" by blast
    then obtain i' j' where "v = viewOf i' j'" "map_of (c_jobs c) (jobKey i') = Some j'" "job_ref j' = ServiceRef ns svc" using mem all by blast
    then show "x \<in> newer" using v mem [of v] after unfolding newer by auto
  next
    fix x assume "x \<in> newer"
    then obtain j' where "viewOf x j' \<in> set ?L" "listing_key (position (viewOf i j)) < listing_key (position (viewOf x j'))"
      unfolding newer all after by blast
    then have "viewOf x j' \<in> set ps" using mem by blast
    then show "x \<in> cv_ID ` set ps" by (metis image_eqI viewOf_id)
  qed
  have "distinct (map cv_ID ?L)"
    unfolding listing_def using distinct_views [OF index_okD(4) [OF assms(1), of "ServiceRef ns svc"], of c emptyQuery]
    by (simp add: distinct_map_sortFunc keysOf_def)
  then have "distinct (map cv_ID ps)" unfolding L by simp
  then have "length ps = card newer" using ids by (metis distinct_card length_map list.set_map)
  moreover have "\<exists>i' j'. v = viewOf i' j' \<and> i' \<in> newer \<and> map_of (c_jobs c) (jobKey i') = Some j' \<and> job_ref j' = ServiceRef ns svc" if "v \<in> set ps" for v
  proof -
    have "v \<in> set ?L" using that mem by blast
    then obtain i' j' where v: "v = viewOf i' j'" "map_of (c_jobs c) (jobKey i') = Some j'" "job_ref j' = ServiceRef ns svc"
      unfolding all by blast
    moreover have "i' \<in> newer" using ids that v(1) by (metis image_eqI viewOf_id)
    ultimately show ?thesis by blast
  qed
  ultimately show ?thesis using L by blast
qed

lemma latestWalk_skips: "\<forall>v \<in> set ps. cv_State v \<noteq> StateCompleted \<Longrightarrow> latestWalk e (ps @ vs) = latestWalk e vs"
  by (induction ps) simp_all

lemma run_latestWalk_intact:
  assumes "job_at w (cv_ID v) = Some r" and "cv_State v = StateCompleted" and "rc_State r = StateCompleted"
    and "artifactObject r \<noteq> []" and "map_of (w_objs w) (artifactObject r) \<noteq> None"
  shows "\<exists>rv. run (latestWalk e (v # vs)) [] w l = (Inr \<lparr>sr_Record = r, sr_Revision = rv\<rparr>, w, l, [])"
  using assms by (auto simp: job_at_def ReadRecord_def kv_get_def split: option.splits)

text \<open>
  C23: The latest-Collection route serves the newest completed Collection of a Service exactly when
  fewer than 100 Collections of the Service are newer.  It looks no further than the newest page of
  the listing, which is cut before the states are looked at: with 100 newer ones, whatever
  their states, it answers that there is none, although the record is completed and its
  artifact is in the store.
\<close>

theorem latest_sees_only_the_page:
  assumes "index_ok (rp_caches l)" and "syncedLocked (rp_generation l) gen [cacheJobs] (rp_caches l)"
    and cached: "map_of (c_jobs (rp_caches l)) (jobKey i) = Some j" "job_ref j = ServiceRef ns svc" "cj_State j = StateCompleted"
    and newest: "\<forall>i' j'. map_of (c_jobs (rp_caches l)) (jobKey i') = Some j' \<and> job_ref j' = ServiceRef ns svc \<and> cj_State j' = StateCompleted \<longrightarrow>
      cj_CreatedAt j' < cj_CreatedAt j \<or> cj_CreatedAt j' = cj_CreatedAt j \<and> i' \<le> i"
    and stored: "job_at w i = Some r" "rc_State r = StateCompleted" "artifactObject r \<noteq> []" "map_of (w_objs w) (artifactObject r) \<noteq> None"
    and newer: "newer = {i'. \<exists>j'. map_of (c_jobs (rp_caches l)) (jobKey i') = Some j' \<and> job_ref j' = ServiceRef ns svc \<and>
      (cj_CreatedAt j < cj_CreatedAt j' \<or> cj_CreatedAt j = cj_CreatedAt j' \<and> i < i')}"
  shows "run (serveLatestCollection e gen ns svc True) [] w l =
    (if card newer < 100 then Streamed r else Refused errCollectionNotFound False, w, l, [])"
proof -
  let ?page = "take 100 (listing ns svc emptyQuery (rp_caches l))"
  have page: "Collections (rp_generation l) gen ns svc emptyQuery (rp_caches l) = (?page, int (length (listing ns svc emptyQuery (rp_caches l))) > 100, True)"
    using assms(2) by (auto simp: Collections_def MaxListCollections_def Let_def emptyQuery_def)
  obtain ps qs where L: "listing ns svc emptyQuery (rp_caches l) = ps @ viewOf i j # qs" "length ps = card newer"
    and ps: "\<forall>v \<in> set ps. \<exists>i' j'. v = viewOf i' j' \<and> i' \<in> newer \<and> map_of (c_jobs (rp_caches l)) (jobKey i') = Some j' \<and> job_ref j' = ServiceRef ns svc"
    using listing_rank [OF assms(1) cached(1,2) newer] by blast
  have skip: "\<forall>v \<in> set ps. cv_State v \<noteq> StateCompleted"
    using ps newest newer by (fastforce simp: viewOf_def)
  have walk: "run (serveLatestCollection e gen ns svc True) [] w l =
      run (bind (latestWalk e ?page) (\<lambda>r. case r of
         Inl err \<Rightarrow> if err \<noteq> ErrKeyNotFound then emit (Logged ''the latest collection of a service is not readable'') (fail (storeError err)) else fail (storeError err)
       | Inr stored \<Rightarrow> Ret (Streamed (sr_Record stored)))) [] w l"
    using page by (simp add: serveLatestCollection_def LatestCompleted_def run_bind cong: sum.case_cong)
  show ?thesis
  proof (cases "card newer < 100")
    case True
    then obtain vs where "?page = ps @ viewOf i j # vs" using L by (cases "100 - length ps") simp_all
    moreover obtain rv where "run (latestWalk e (viewOf i j # vs)) [] w l = (Inr \<lparr>sr_Record = r, sr_Revision = rv\<rparr>, w, l, [])"
      using run_latestWalk_intact [of w "viewOf i j" r e vs l] stored cached(3) by (auto simp: viewOf_def)
    ultimately show ?thesis using walk True latestWalk_skips [OF skip] by (simp add: run_bind)
  next
    case False
    then have "?page = take 100 ps" using L by simp
    moreover have "latestWalk e (take 100 ps) = Ret (Inl ErrKeyNotFound)"
      using latestWalk_skips [of "take 100 ps" e "[]"] skip in_set_takeD [of _ 100 ps] by auto
    ultimately show ?thesis using walk False by (simp add: storeError_def)
  qed
qed

text \<open>A Service whose one completed Collection, with its artifact in the store, is older than \<open>n\<close> failed ones.\<close>

definition crowd_id :: "nat \<Rightarrow> string" where
  "crowd_id k = replicate 18 (CHR ''0'') @ [idAlphabet ! (k div 10), idAlphabet ! (k mod 10)]"

definition crowd_job :: "nat \<Rightarrow> cachedJob" where
  "crowd_job k = (sample_job (1 + int k))\<lparr>cj_State := StateFailed\<rparr>"

fun crowd :: "nat \<Rightarrow> Caches" where
  "crowd 0 = insertJob (jobKey (rc_ID demo_record)) (sample_job 0) (rp_caches demo_ready)"
| "crowd (Suc n) = insertJob (jobKey (crowd_id n)) (crowd_job n) (crowd n)"

definition crowd_record :: Record where
  "crowd_record = demo_record\<lparr>rc_State := StateCompleted, rc_Artifact := Some \<lparr>art_Object = ''a'', art_Bytes = 1\<rparr>\<rparr>"

definition crowd_world :: world where
  "crowd_world = emptyWorld\<lparr>w_jobs := put (jobKey (rc_ID demo_record)) (VJob crowd_record) 0 emptyBucket,
     w_objs := [(''a'', \<lparr>oi_Name = ''a'', oi_Size = 1, oi_ModTime = 0\<rparr>)]\<rparr>"

lemma crowd_id_inj: "a < 100 \<Longrightarrow> b < 100 \<Longrightarrow> crowd_id a = crowd_id b \<longleftrightarrow> a = b"
proof
  assume ab: "a < 100" "b < 100" and "crowd_id a = crowd_id b"
  then have "idAlphabet ! (a div 10) = idAlphabet ! (b div 10)" "idAlphabet ! (a mod 10) = idAlphabet ! (b mod 10)"
    by (simp_all add: crowd_id_def)
  moreover have "a div 10 < 32" "b div 10 < 32" "a mod 10 < 32" "b mod 10 < 32" using ab pos_mod_bound by (simp_all add: less_mult_imp_div_less order.strict_trans [OF mod_less_divisor])
  ultimately have "a div 10 = b div 10" "a mod 10 = b mod 10" using nth_eq_iff_index_eq [OF idAlphabet_distinct] by simp_all
  then show "a = b" by (metis div_mult_mod_eq)
qed simp

lemma replicate_eq_ends: "replicate 18 a @ [x, y] \<noteq> replicate 20 b" if "a \<noteq> b"
proof
  assume "replicate 18 a @ [x, y] = replicate 20 b"
  then have "(replicate 18 a @ [x, y]) ! 0 = replicate 20 b ! 0" by (rule arg_cong)
  then show False using that by (simp add: nth_append)
qed

lemma crowd_id_valid: "k < 100 \<Longrightarrow> ValidID (crowd_id k)"
  and crowd_id_other: "crowd_id k \<noteq> rc_ID demo_record"
proof -
  assume "k < 100"
  then have "k div 10 < 32" "k mod 10 < 32" by (simp_all add: less_mult_imp_div_less order.strict_trans [OF mod_less_divisor])
  moreover have "isIDChar (CHR ''0'')" by code_simp
  ultimately show "ValidID (crowd_id k)"
    by (simp add: crowd_id_def ValidID_def idLength_def isIDChar_iff list_all_iff)
next
  show "crowd_id k \<noteq> rc_ID demo_record" by (simp add: crowd_id_def demo_record_def replicate_eq_ends)
qed

lemma crowd_jobs:
  "n \<le> 100 \<Longrightarrow> map_of (c_jobs (crowd n)) (jobKey i) = Some j \<longleftrightarrow>
     i = rc_ID demo_record \<and> j = sample_job 0 \<or> (\<exists>k < n. i = crowd_id k \<and> j = crowd_job k)"
proof (induction n)
  case (Suc n)
  have "crowd_id k \<noteq> crowd_id n" if "k < n" for k using crowd_id_inj [of k n] that Suc.prems by simp
  moreover have "map_of (c_jobs (crowd (Suc n))) (jobKey i) = Some j \<longleftrightarrow> (if i = crowd_id n then j = crowd_job n else map_of (c_jobs (crowd n)) (jobKey i) = Some j)"
    by auto
  ultimately show ?case using Suc crowd_id_other [of n] by (auto simp: less_Suc_eq)
qed auto

lemma synced_insertJob: "syncedLocked cur gen kinds (insertJob key job c) = syncedLocked cur gen kinds c"
  by (simp add: syncedLocked_def insertJob_def Let_def)

lemma crowd_ok: "n \<le> 100 \<Longrightarrow> index_ok (crowd n) \<and> syncedLocked 0 0 [cacheJobs] (crowd n)"
proof (induction n)
  case 0
  have "ValidID (rc_ID demo_record)" by code_simp
  moreover have "index_ok (rp_caches demo_ready)" by (simp add: index_ok_def keysOf_def)
  ultimately have "index_ok (crowd 0)" by (auto intro!: index_ok_insertJob)
  then show ?case by (simp add: synced_insertJob)
next
  case (Suc n)
  have "map_of (c_jobs (crowd n)) (jobKey (crowd_id n)) = None"
  proof (rule ccontr)
    assume "map_of (c_jobs (crowd n)) (jobKey (crowd_id n)) \<noteq> None"
    then obtain k where "k < n" "crowd_id n = crowd_id k" using crowd_jobs [of n "crowd_id n"] crowd_id_other [of n] Suc.prems by auto
    then show False using crowd_id_inj [of n k] Suc.prems by simp
  qed
  then have "index_ok (crowd (Suc n))" using Suc crowd_id_valid [of n] by (auto intro!: index_ok_insertJob)
  then show ?case using Suc by (simp add: synced_insertJob)
qed

lemma latest_sees_only_the_page_witness:
  "run (serveLatestCollection demo_env 0 ''ns'' ''svc'' True) [] crowd_world (demo_ready\<lparr>rp_caches := crowd 99\<rparr>) =
     (Streamed crowd_record, crowd_world, demo_ready\<lparr>rp_caches := crowd 99\<rparr>, []) \<and>
   run (serveLatestCollection demo_env 0 ''ns'' ''svc'' True) [] crowd_world (demo_ready\<lparr>rp_caches := crowd 100\<rparr>) =
     (Refused errCollectionNotFound False, crowd_world, demo_ready\<lparr>rp_caches := crowd 100\<rparr>, [])"
proof -
  let ?i = "rc_ID demo_record" and ?j = "sample_job 0"
  have refs: "job_ref (sample_job t) = ServiceRef ''ns'' ''svc''" "job_ref (crowd_job k) = ServiceRef ''ns'' ''svc''" for t k
    by (simp_all add: job_ref_def sample_job_def crowd_job_def)
  have stored: "job_at crowd_world ?i = Some crowd_record" "rc_State crowd_record = StateCompleted" "artifactObject crowd_record \<noteq> []"
    "map_of (w_objs crowd_world) (artifactObject crowd_record) \<noteq> None"
    by (simp_all add: crowd_world_def crowd_record_def job_at_def artifactObject_def)
  have main: "run (serveLatestCollection demo_env 0 ''ns'' ''svc'' True) [] crowd_world (demo_ready\<lparr>rp_caches := crowd n\<rparr>) =
      (if n < 100 then Streamed crowd_record else Refused errCollectionNotFound False, crowd_world, demo_ready\<lparr>rp_caches := crowd n\<rparr>, [])"
    if n: "n \<le> 100" for n
  proof -
    let ?l = "demo_ready\<lparr>rp_caches := crowd n\<rparr>"
    define newer where "newer = {i'. \<exists>j'. map_of (c_jobs (rp_caches ?l)) (jobKey i') = Some j' \<and> job_ref j' = ServiceRef ''ns'' ''svc'' \<and>
      (cj_CreatedAt ?j < cj_CreatedAt j' \<or> cj_CreatedAt ?j = cj_CreatedAt j' \<and> ?i < i')}"
    have "newer = crowd_id ` {..<n}"
      unfolding newer_def using crowd_jobs [OF n] refs by (auto simp: sample_job_def crowd_job_def)
    moreover have "inj_on crowd_id {..<n}" using crowd_id_inj n by (auto simp: inj_on_def)
    ultimately have card: "card newer = n" by (simp add: card_image)
    have "map_of (c_jobs (rp_caches ?l)) (jobKey ?i) = Some ?j" "cj_State ?j = StateCompleted"
      using crowd_jobs [OF n] by (simp_all add: sample_job_def)
    moreover have "\<forall>i' j'. map_of (c_jobs (rp_caches ?l)) (jobKey i') = Some j' \<and> job_ref j' = ServiceRef ''ns'' ''svc'' \<and> cj_State j' = StateCompleted \<longrightarrow>
        cj_CreatedAt j' < cj_CreatedAt ?j \<or> cj_CreatedAt j' = cj_CreatedAt ?j \<and> i' \<le> ?i"
      using crowd_jobs [OF n] by (auto simp: crowd_job_def)
    ultimately show ?thesis
      using latest_sees_only_the_page [of ?l 0 ?i ?j "''ns''" "''svc''" crowd_world crowd_record newer demo_env] crowd_ok [OF n] refs stored newer_def card
      by simp
  qed
  show ?thesis using main [of 99] main [of 100] by simp
qed

end
