(* ===== verification/Sweeper.thy ===== *)
theory Sweeper
  imports Worker Publisher
begin

text \<open>
  The sweeper of one replica (\<open>internal/pgo/sweeper.go\<close>): one pass over the caches and one
  listing of the artifact bucket, made of independent conditional writes: expired artifacts,
  retired records with their receipts, spent slot keys, orphaned objects, active keys whose
  Collection has ended, stranded probes and, on one pass in sixty, the receipts the retention
  rule did not reach.
\<close>

section \<open>Constants and helpers\<close>

definition receiptReconcileEvery :: nat where "receiptReconcileEvery = 60"
definition orphanAge :: duration where "orphanAge = 10 * minute"

fun retirable :: "State \<Rightarrow> bool" where
  "retirable StateExpired = True"
| "retirable StateFailed = True"
| "retirable StateCancelled = True"
| "retirable _ = False"

definition objectNames :: "ObjectInfo list \<Rightarrow> string list" where
  "objectNames objects = map oi_Name objects"

definition namedArtifacts :: "(string \<times> cachedJob) list \<Rightarrow> string list" where
  "namedArtifacts jobs =
     List.map_filter (\<lambda>(_, job). if cj_State job = StateCompleted \<and> cj_Artifact job \<noteq> [] then Some (cj_Artifact job) else None) jobs"

definition sortedObjects :: "ObjectInfo list \<Rightarrow> ObjectInfo list" where
  "sortedObjects objects = sortFunc (\<lambda>a b. compare3 (oi_Name a) (oi_Name b)) objects"

definition sortedKeys :: "(string \<times> 'v) list \<Rightarrow> string list" where
  "sortedKeys m = sortFunc compare3 (map fst m)"

definition sortedRefs :: "(serviceRef \<times> 'v) list \<Rightarrow> serviceRef list" where
  "sortedRefs m = sortFunc
     (\<lambda>a b. let c = compare3 (ref_Namespace a) (ref_Namespace b) in
        if c \<noteq> 0 then c else compare3 (ref_Service a) (ref_Service b)) (map fst m)"

section \<open>Expiry\<close>

definition dropArtifact :: "string \<Rightarrow> (bool \<Rightarrow> (replica, 'a) prog) \<Rightarrow> (replica, 'a) prog" where
  "dropArtifact object c =
     (if object = [] then c True
      else Drop object (\<lambda>d. case d of
          Some _ \<Rightarrow> emit (Logged ''deleting an expired artifact failed'') (c False)
        | None \<Rightarrow> emit (SweeperDelete ''artifact'') (c True)))"

definition objectGone :: "string \<Rightarrow> (bool \<Rightarrow> ('l, 'a) prog) \<Rightarrow> ('l, 'a) prog" where
  "objectGone object c = Open object (\<lambda>d. c (d = Some ErrObjectNotFound))"

definition flipExpired :: "env \<Rightarrow> string \<Rightarrow> cachedJob \<Rightarrow> (replica, unit) prog" where
  "flipExpired e key job = Get JOBS key (\<lambda>r. case r of
     Inl _ \<Rightarrow> Ret ()
   | Inr s \<Rightarrow> (case asJob (s_val s) of
       None \<Rightarrow> emit (Logged ''collection record is not readable'') (Ret ())
     | Some rec0 \<Rightarrow>
         if rc_State rec0 \<noteq> StateCompleted then Ret ()
         else let rec = rec0\<lparr>rc_State := StateExpired\<rparr> in
           case MarshalBounded (e_jsize e) (VJob rec) of
             Inl _ \<Rightarrow> emit (Logged ''serialize expired record'') (Ret ())
           | Inr value \<Rightarrow> Update JOBS key value (cj_Revision job) (\<lambda>u. case u of
               Inl err \<Rightarrow> if err \<noteq> ErrRevisionMismatch
                          then emit (Logged ''expired flip failed'') (emit (StoreFailure ''expire'') (Ret ()))
                          else Ret ()
             | Inr _ \<Rightarrow> logTransition rec (emit (CountCollection StateExpired) (Ret ())))))"

definition expire :: "env \<Rightarrow> (string \<times> cachedJob) list \<Rightarrow> ObjectInfo list \<Rightarrow> bool \<Rightarrow> time \<Rightarrow> (replica, unit) prog" where
  "expire e jobs objects listed' now =
     forEach (\<lambda>key. case map_of jobs key of
         None \<Rightarrow> Ret ()
       | Some job \<Rightarrow>
           if cj_State job \<noteq> StateCompleted then Ret ()
           else if (case cj_ExpiresAt job of None \<Rightarrow> False | Some t \<Rightarrow> t + skewMargin < now)
             then dropArtifact (cj_Artifact job) (\<lambda>ok. if ok then flipExpired e key job else Ret ())
           else if listed' \<and> cj_Artifact job \<noteq> [] \<and> \<not> List.member (objectNames objects) (cj_Artifact job)
             then objectGone (cj_Artifact job) (\<lambda>g. if g then flipExpired e key job else Ret ())
           else Ret ())
       (sortedKeys jobs)"

section \<open>Retention\<close>

definition dropReceipt :: "env \<Rightarrow> Record \<Rightarrow> (replica, unit) prog" where
  "dropReceipt e rec =
     (let key = ReceiptKey (e_sha e) (rc_CreatedBy rec) (rc_Namespace rec) (rc_Service rec) (rc_IdempotencyKey rec) in
      readReceipt key (\<lambda>r. case r of
        Inr (Some (x, rv)) \<Rightarrow>
          if rcp_ID x \<noteq> rc_ID rec then Ret ()
          else Delete JOBS key rv (\<lambda>d. case d of
              Some _ \<Rightarrow> emit (Logged ''deleting an idempotency receipt failed'') (Ret ())
            | None \<Rightarrow> Ret ())
      | _ \<Rightarrow> Ret ()))"

definition retireOne :: "env \<Rightarrow> time \<Rightarrow> string \<Rightarrow> cachedJob \<Rightarrow> (replica, unit) prog" where
  "retireOne e now key job =
     (case cj_FinishedAt job of
        None \<Rightarrow> Ret ()
      | Some finished \<Rightarrow>
          if \<not> retirable (cj_State job) then Ret ()
          else if \<not> finished + (e_jobRetention e + skewMargin) < now then Ret ()
          else (case cutPrefix jobPrefix key of
             None \<Rightarrow> Ret ()
           | Some i \<Rightarrow> readJob i (\<lambda>r.
               Delete JOBS key (cj_Revision job) (\<lambda>d. case d of
                 Some _ \<Rightarrow> Ret ()
               | None \<Rightarrow> emit (SweeperDelete ''record'')
                   (case r of
                      Inr (Some rec) \<Rightarrow> if rc_IdempotencyKey rec \<noteq> [] then dropReceipt e rec else Ret ()
                    | _ \<Rightarrow> Ret ())))))"

definition retire :: "env \<Rightarrow> (string \<times> cachedJob) list \<Rightarrow> time \<Rightarrow> (replica, unit) prog" where
  "retire e cached now =
     forEach (\<lambda>key. case map_of cached key of None \<Rightarrow> Ret () | Some job \<Rightarrow> retireOne e now key job) (sortedKeys cached)"

definition sweepSlots :: "time \<Rightarrow> (replica, unit) prog" where
  "sweepSlots now = inspect (\<lambda>l.
     let slots = slotEntries (rp_caches l) in
     forEach (\<lambda>key. case map_of slots key of
         None \<Rightarrow> Ret ()
       | Some slot \<Rightarrow>
           if \<not> csl_RetainUntil slot + skewMargin < now then Ret ()
           else Delete JOBS key (csl_Revision slot) (\<lambda>d. case d of
               Some _ \<Rightarrow> Ret () | None \<Rightarrow> emit (SweeperDelete ''slot'') (Ret ())))
       (sortedKeys slots))"

section \<open>Orphans, active keys, probes, receipts\<close>

definition orphanOne :: "(string \<times> cachedJob) list \<Rightarrow> time \<Rightarrow> ObjectInfo \<Rightarrow> (replica, unit) prog" where
  "orphanOne jobs now ob =
     (if List.member (namedArtifacts jobs) (oi_Name ob) then Ret ()
      else if \<not> oi_ModTime ob + (orphanAge + skewMargin) < now then Ret ()
      else (case collectionOf (oi_Name ob) of
         None \<Rightarrow> Ret ()
       | Some i \<Rightarrow> readJob i (\<lambda>r. case r of
           Inl _ \<Rightarrow> Ret ()
         | Inr jr \<Rightarrow>
             if (case jr of None \<Rightarrow> False | Some rec \<Rightarrow>
                   \<not> terminal (rc_State rec) \<or>
                   (case rc_Artifact rec of None \<Rightarrow> False | Some a \<Rightarrow> art_Object a = oi_Name ob))
             then Ret ()
             else Drop (oi_Name ob) (\<lambda>d. case d of
                 Some _ \<Rightarrow> emit (Logged ''deleting an orphaned artifact failed'') (Ret ())
               | None \<Rightarrow> emit (SweeperDelete ''orphan'') (Ret ())))))"

definition sweepOrphans :: "(string \<times> cachedJob) list \<Rightarrow> ObjectInfo list \<Rightarrow> time \<Rightarrow> (replica, unit) prog" where
  "sweepOrphans jobs objects now = forEach (orphanOne jobs now) (sortedObjects objects)"

definition sweepActive :: "(replica, unit) prog" where
  "sweepActive = inspect (\<lambda>l.
     let active = activeEntries (rp_caches l) in
     forEach (\<lambda>ref. case map_of active ref of
         None \<Rightarrow> Ret ()
       | Some a \<Rightarrow> readJob (ca_ID a) (\<lambda>r. case r of
           Inl _ \<Rightarrow> Ret ()
         | Inr jr \<Rightarrow>
             if (case jr of None \<Rightarrow> False | Some rec \<Rightarrow> \<not> terminal (rc_State rec)) then Ret ()
             else Delete JOBS (activeKey (ref_Namespace ref) (ref_Service ref)) (ca_Revision a) (\<lambda>d. case d of
                 Some _ \<Rightarrow> Ret () | None \<Rightarrow> emit (SweeperDelete ''active'') (Ret ()))))
       (sortedRefs active))"

definition sweepProbeKeys :: "time \<Rightarrow> bname \<Rightarrow> (replica, unit) prog" where
  "sweepProbeKeys now n = Keys n probeKeyPrefix (\<lambda>r. case r of
     Inl _ \<Rightarrow> emit (Logged ''listing probe keys failed'') (emit (StoreFailure ''probe_list'') (Ret ()))
   | Inr keys \<Rightarrow> forEach (\<lambda>key. Get n key (\<lambda>g. case g of
         Inl _ \<Rightarrow> Ret ()
       | Inr s \<Rightarrow>
           if \<not> s_created s + (orphanAge + skewMargin) < now then Ret ()
           else Delete n key (s_rev s) (\<lambda>d. case d of
               Some _ \<Rightarrow> Ret () | None \<Rightarrow> emit (SweeperDelete ''probe'') (Ret ()))))
       (sortFunc compare3 keys))"

definition sweepProbes :: "ObjectInfo list \<Rightarrow> bool \<Rightarrow> time \<Rightarrow> (replica, unit) prog" where
  "sweepProbes objects listed' now =
     bind (forEach (sweepProbeKeys now) [CONFIG, JOBS]) (\<lambda>_.
       if \<not> listed' then Ret ()
       else forEach (\<lambda>ob.
           if \<not> hasPrefix probeObjectPrefix (oi_Name ob) then Ret ()
           else if \<not> oi_ModTime ob + (orphanAge + skewMargin) < now then Ret ()
           else Drop (oi_Name ob) (\<lambda>d. case d of
               Some _ \<Rightarrow> Ret () | None \<Rightarrow> emit (SweeperDelete ''probe'') (Ret ())))
         (sortedObjects objects))"

definition reconcileReceipts :: "env \<Rightarrow> time \<Rightarrow> (replica, unit) prog" where
  "reconcileReceipts e now = Keys JOBS receiptPrefix (\<lambda>r. case r of
     Inl _ \<Rightarrow> emit (Logged ''listing idempotency receipts failed'') (Ret ())
   | Inr keys \<Rightarrow> forEach (\<lambda>key. readReceipt key (\<lambda>g. case g of
         Inr (Some (x, rv)) \<Rightarrow>
           if \<not> rcp_CreatedAt x + (e_jobRetention e + skewMargin) < now then Ret ()
           else readJob (rcp_ID x) (\<lambda>j. case j of
               Inr None \<Rightarrow> Delete JOBS key rv (\<lambda>_. Ret ())
             | _ \<Rightarrow> Ret ())
       | _ \<Rightarrow> Ret ()))
       (sortFunc compare3 keys))"

section \<open>One pass\<close>

text \<open>The steps of a pass behind its one listing, in their order.\<close>

definition sweepSteps :: "env \<Rightarrow> (string \<times> cachedJob) list \<Rightarrow> ObjectInfo list \<Rightarrow> bool \<Rightarrow> nat \<Rightarrow> time \<Rightarrow> (replica, unit) prog" where
  "sweepSteps e jobs objects listed' sweeps now =
     bind (expire e jobs objects listed' now) (\<lambda>_.
     bind (retire e jobs now) (\<lambda>_.
     bind (sweepSlots now) (\<lambda>_.
     bind (if listed' then sweepOrphans jobs objects now else Ret ()) (\<lambda>_.
     bind sweepActive (\<lambda>_.
     bind (sweepProbes objects listed' now) (\<lambda>_.
     if sweeps mod receiptReconcileEvery = 0 then reconcileReceipts e now else Ret ()))))))"

definition sweep :: "env \<Rightarrow> (replica, unit) prog" where
  "sweep e = inspect (\<lambda>l.
     if \<not> barrier l then Ret ()
     else modify (\<lambda>l. l\<lparr>rp_sweeps := rp_sweeps l + 1\<rparr>) (Now (\<lambda>now. inspect (\<lambda>l.
       let jobs = jobEntries (rp_caches l); sweeps = rp_sweeps l in
       Listing (\<lambda>lr. case lr of
           Inl _ \<Rightarrow> emit (Logged ''listing the artifact bucket failed'') (sweepSteps e jobs [] False sweeps now)
         | Inr objects \<Rightarrow> sweepSteps e jobs objects True sweeps now)))))"

section \<open>The sweeper keeps the protocol\<close>

lemma psafe_dropArtifact:
  "(\<And>b w'. evolves sha w w' \<Longrightarrow> inv sha w' \<Longrightarrow> psafe U sha ids Q (c b) w') \<Longrightarrow> inv sha w \<Longrightarrow>
   psafe U sha ids Q (dropArtifact ob c) w"
  using evolves_refl by (auto simp: dropArtifact_def intro!: psafe_Drop split: option.split)

lemma psafe_flipExpired:
  assumes inv: "inv sha w" and rv: "cj_Revision job \<le> last_rev w" and key: "key = jobKey i"
  shows "psafe U sha ids (\<lambda>_ _. True) (flipExpired e key job) w"
  unfolding flipExpired_def
proof (rule pr.safe_Get, goal_cases)
  case (3 w' s)
  then obtain r where r: "s_val s = VJob r" "rc_ID r = i" "rec_ok r" using inv_job key by fastforce
  let ?r = "r\<lparr>rc_State := StateExpired\<rparr>"
  have "psafe U sha ids (\<lambda>_ _. True) (Update JOBS key (VJob ?r) (cj_Revision job) (\<lambda>u. case u of
      Inl err \<Rightarrow> if err \<noteq> ErrRevisionMismatch
                 then emit (Logged ''expired flip failed'') (emit (StoreFailure ''expire'') (Ret ())) else Ret ()
    | Inr _ \<Rightarrow> logTransition ?r (emit (CountCollection StateExpired) (Ret ())))) w'" if st: "rc_State r = StateCompleted"
  proof (rule psafe_Update, goal_cases)
    case (2 w2 s2)
    have "cj_Revision job \<le> last_rev w'" using rv evolvesD(2) [OF rely_evolves [OF 3(1)] inv] by simp
    then have "jobs_lookup w' key = Some s2" using kept_entry [OF rely_evolves [OF 2(1)] 3(2) 2(3)] 2(4) by simp
    then have at: "job_at w2 i = Some r" using 2(3) 3(3) r key by (simp add: job_at_iff)
    have "rec_leads r ?r" "rec_ok ?r" using st r by (auto simp: rec_leads_def rec_ok_def)
    then have "step_ok sha ids w2 (wput w2 key (VJob ?r))"
      using st unfolding key by (intro update_job_ok [OF 2(2) at]) auto
    then show ?case by simp
  qed simp
  then show ?case using r by (simp add: MarshalBounded_def Let_def)
qed simp_all

lemma psafe_expire:
  assumes "inv sha w" and "\<forall>k j. map_of jobs k = Some j \<longrightarrow> cj_Revision j \<le> last_rev w \<and> (\<exists>i. k = jobKey i)"
  shows "psafe U sha ids (\<lambda>_ _. True) (expire e jobs objects li now) w"
proof -
  have flip: "psafe U sha ids (\<lambda>_ _. True) (flipExpired e k j) w'"
    if "map_of jobs k = Some j" "evolves sha w w'" "inv sha w'" for k j w'
  proof -
    note m = that(1)
    obtain i where "k = jobKey i" "cj_Revision j \<le> last_rev w" using assms(2) m by blast
    then show ?thesis using psafe_flipExpired [OF that(3)] evolvesD(2) [OF that(2) assms(1)] by auto
  qed
  show ?thesis unfolding expire_def
  proof (rule pr.safe_forEach [OF _ assms(1)], goal_cases)
    case (1 k w')
    then show ?case using flip evolves_trans [OF 1(2)]
      by (auto simp: objectGone_def intro!: psafe_dropArtifact pr.safe_Open split: option.split)
  qed
qed

lemma psafe_dropReceipt:
  assumes "inv (e_sha e) w" and "settled w (rc_ID rec)" and "job_at w (rc_ID rec) = None"
  shows "psafe U (e_sha e) ids (\<lambda>_ _. True) (dropReceipt e rec) w"
  unfolding dropReceipt_def Let_def
proof (rule psafe_readReceipt, goal_cases)
  case (3 w' s x)
  let ?k = "ReceiptKey (e_sha e) (rc_CreatedBy rec) (rc_Namespace rec) (rc_Service rec) (rc_IdempotencyKey rec)"
  have "psafe U (e_sha e) ids (\<lambda>_ _. True) (Delete JOBS ?k (s_rev s) (\<lambda>d. case d of
      Some _ \<Rightarrow> emit (Logged ''deleting an idempotency receipt failed'') (Ret ()) | None \<Rightarrow> Ret ())) w'"
    if id: "rcp_ID x = rc_ID rec"
  proof (rule psafe_Delete_any, goal_cases)
    case (1 w2 s2)
    have "s2 = s" using same_entry [OF 1(1) 3(2,3) 1(3,4)] .
    moreover have "jobs_lookup w2 (jobKey (rc_ID rec)) = None"
      using evolvesD(5) [OF evolves_trans [OF rely_evolves [OF 3(1)] 1(1)] assms(1)] assms job_at_None [OF assms(1)]
      by (auto simp: settled_def)
    ultimately show ?case
      using 1 3(4) id by (intro delete_receipt_ok [OF 1(2)]) (auto simp: receipt_at_iff job_at_iff)
  qed (auto split: option.split)
  then show ?case by simp
qed simp_all

lemma psafe_retireOne:
  assumes inv: "inv (e_sha e) w" and tr: "truthful_job w key job" and key: "key = jobKey i"
  shows "psafe U (e_sha e) ids (\<lambda>_ _. True) (retireOne e now key job) w"
proof -
  have "psafe U (e_sha e) ids (\<lambda>_ _. True) (Delete JOBS key (cj_Revision job) (\<lambda>d. case d of
        Some _ \<Rightarrow> Ret ()
      | None \<Rightarrow> emit (SweeperDelete ''record'') (case r of
            Inr (Some rec) \<Rightarrow> if rc_IdempotencyKey rec \<noteq> [] then dropReceipt e rec else Ret ()
          | _ \<Rightarrow> Ret ()))) w'"
    if st: "retirable (cj_State job)" and w': "rely (e_sha e) ids w w'" "inv (e_sha e) w'"
      and id: "\<And>rec. r = Inr (Some rec) \<Longrightarrow> rc_ID rec = i" for r w'
  proof (rule psafe_Delete, goal_cases)
    case (2 w2 s)
    have ev: "evolves (e_sha e) w w2" using w'(1) 2(1) rely_evolves evolves_trans by blast
    have "s_rev s \<le> last_rev w" using tr 2(4) by (simp add: truthful_job_def)
    then have "jobs_lookup w key = Some s" using kept_entry [OF ev inv 2(3)] by simp
    then obtain rec0 where "s_val s = VJob rec0" "job = cachedOf rec0 (s_rev s)"
      using tr 2(4) by (auto simp: truthful_job_def)
    then have "disposable (rc_State rec0)" "job_at w2 i = Some rec0"
      using st 2(3) key by (cases "rc_State rec0"; simp add: cachedOf_def job_at_iff)+
    then have ok: "step_ok (e_sha e) ids w2 (wrem w2 key)" unfolding key by (intro delete_job_ok [OF 2(2)]) auto
    have "settled (wrem w2 key) i" "job_at (wrem w2 key) i = None"
      using inv_rev [OF 2(2,3)] key by (auto simp: settled_def)
    then have "psafe U (e_sha e) ids (\<lambda>_ _. True) (dropReceipt e rec) (wrem w2 key)" if "r = Inr (Some rec)" for rec
      using that id ok psafe_dropReceipt [of e "wrem w2 key" rec] by (simp add: step_ok_def)
    then show ?case using ok by (auto split: sum.split option.split)
  qed simp
  note del = this
  have cut: "cutPrefix jobPrefix key = Some i" by (simp add: key jobKey_def)
  have "psafe U (e_sha e) ids (\<lambda>_ _. True) (readJob i (\<lambda>r. Delete JOBS key (cj_Revision job) (\<lambda>d. case d of
        Some _ \<Rightarrow> Ret ()
      | None \<Rightarrow> emit (SweeperDelete ''record'') (case r of
            Inr (Some rec) \<Rightarrow> if rc_IdempotencyKey rec \<noteq> [] then dropReceipt e rec else Ret ()
          | _ \<Rightarrow> Ret ())))) w" if st: "retirable (cj_State job)"
  proof (rule psafe_readJob, goal_cases)
    case (1 w' err)
    then show ?case using del [OF st 1, of "Inl err"] by simp
  next
    case (2 w')
    then show ?case using del [OF st 2(1,2), of "Inr None"] by simp
  next
    case (3 w' r)
    then show ?case using del [OF st 3(1,2), of "Inr (Some r)"] job_at_seen [OF 3(2,3)] by simp
  qed
  then show ?thesis by (auto simp: retireOne_def cut split: option.split)
qed

lemma psafe_retire:
  assumes "inv (e_sha e) w" and "\<forall>k j. map_of jobs k = Some j \<longrightarrow> truthful_job w k j \<and> (\<exists>i. k = jobKey i)"
  shows "psafe U (e_sha e) ids (\<lambda>_ _. True) (retire e jobs now) w"
  unfolding retire_def
proof (rule pr.safe_forEach [OF _ assms(1)], goal_cases)
  case (1 k w')
  have "truthful_job w' k j" if "truthful_job w k j" for j
    using that evolvesD(2) [OF 1(2) assms(1)] kept_entry [OF 1(2) assms(1)] unfolding truthful_job_def
    by (metis le_trans)
  then have "psafe U (e_sha e) ids (\<lambda>_ _. True) (retireOne e now k j) w'" if "map_of jobs k = Some j" for j
    using assms(2) that psafe_retireOne [OF 1(3)] by blast
  then show ?case by (auto split: option.split)
qed

lemma psafe_sweepSlots:
  assumes "inv sha w"
  shows "psafe U sha ids (\<lambda>_ _. True) (sweepSlots now) w"
  unfolding sweepSlots_def Let_def
proof (rule pr.safe_inspect, rule pr.safe_forEach, goal_cases)
  case (1 w' l k w2)
  have "other_key k" if "map_of (c_slots (rp_caches l)) k = Some s" for s
    using 1(3) that by (auto simp: linv_def intro: other_slot)
  then show ?case by (auto intro!: psafe_Delete_any delete_other_ok split: option.split)
qed

lemma psafe_sweepOrphans:
  assumes "inv sha w"
  shows "psafe U sha ids (\<lambda>_ _. True) (sweepOrphans jobs objects now) w"
  unfolding sweepOrphans_def orphanOne_def
  by (rule pr.safe_forEach [OF _ assms]) (auto intro!: psafe_readJob psafe_Drop split: option.split)

lemma psafe_sweepActive:
  assumes "inv sha w"
  shows "psafe U sha ids (\<lambda>_ _. True) sweepActive w"
  unfolding sweepActive_def Let_def
proof (rule pr.safe_inspect, rule pr.safe_forEach, goal_cases)
  case (1 w' l ref w2)
  let ?k = "activeKey (ref_Namespace ref) (ref_Service ref)"
  have tr: "truthful_active w2 ref a" if "map_of (c_active (rp_caches l)) ref = Some a" for a
    using that linv_stable [OF 1(3,5,2)] by (simp add: linv_def)
  have "psafe U sha ids (\<lambda>_ _. True) (Delete JOBS ?k (ca_Revision a) (\<lambda>d. case d of
      Some _ \<Rightarrow> Ret () | None \<Rightarrow> emit (SweeperDelete ''active'') (Ret ()))) w3"
    if a: "truthful_active w2 ref a" and w3: "rely sha ids w2 w3" "inv sha w3" "settled w3 (ca_ID a)" for a w3
  proof (rule psafe_Delete_any, goal_cases)
    case (1 w4 s)
    have ev: "evolves sha w2 w4" using w3(1) 1(1) rely_evolves evolves_trans by blast
    have "s_rev s \<le> last_rev w2" using a 1(4) by (simp add: truthful_active_def)
    then have "jobs_lookup w2 ?k = Some s" using kept_entry [OF ev \<open>inv sha w2\<close> 1(3)] by simp
    then obtain v where "s_val s = VActive v" "av_ID v = ca_ID a" using a 1(4) by (auto simp: truthful_active_def)
    then have "active_at w4 (ref_Namespace ref) (ref_Service ref) = Some (ca_ID a)" using 1(3) by (auto simp: active_at_iff)
    then show ?case using settled_stable [OF w3(3) 1(1) w3(2)] by (intro delete_active_ok [OF 1(2)]) (auto simp: settled_def)
  qed (auto split: option.split)
  note del = this
  have "psafe U sha ids (\<lambda>_ _. True) (readJob (ca_ID a) (\<lambda>r. case r of
         Inl _ \<Rightarrow> Ret ()
       | Inr jr \<Rightarrow>
           if (case jr of None \<Rightarrow> False | Some rec \<Rightarrow> \<not> terminal (rc_State rec)) then Ret ()
           else Delete JOBS ?k (ca_Revision a) (\<lambda>d. case d of
               Some _ \<Rightarrow> Ret () | None \<Rightarrow> emit (SweeperDelete ''active'') (Ret ())))) w2"
    if a: "truthful_active w2 ref a" for a
  proof (rule psafe_readJob, goal_cases)
    case (2 w3)
    have "jobKey (ca_ID a) \<in> seen w3"
      using a evolvesD(3) [OF rely_evolves [OF 2(1)] \<open>inv sha w2\<close>] by (auto simp: truthful_active_def)
    then have "settled w3 (ca_ID a)" using 2(3) by (simp add: settled_def job_at_iff)
    then show ?case using del [OF a 2(1,2)] by simp
  next
    case (3 w3 r)
    then show ?case using del [OF a 3(1,2)] settled_now [OF 3(2,3)] by simp
  qed simp
  then show ?case using tr by (auto split: option.split)
qed

lemma psafe_probe_delete:
  assumes "n = JOBS \<Longrightarrow> other_key k" and "\<And>d w'. inv sha w' \<Longrightarrow> psafe U sha ids Q (c d) w'"
  shows "psafe U sha ids Q (Delete n k x c) w"
proof (cases n)
  case CONFIG
  show ?thesis unfolding CONFIG
    using config_ok assms(2) by (intro pr.safe_Delete) auto
next
  case JOBS
  then show ?thesis using assms by (auto intro!: psafe_Delete_any delete_other_ok)
qed

lemma psafe_probe_keys:
  assumes "inv sha w"
  shows "psafe U sha ids (\<lambda>_ _. True) (sweepProbeKeys now n) w"
proof -
  have "psafe U sha ids (\<lambda>_ _. True) (forEach (\<lambda>key. Get n key (\<lambda>g. case g of
         Inl _ \<Rightarrow> Ret ()
       | Inr s \<Rightarrow>
           if \<not> s_created s + (orphanAge + skewMargin) < now then Ret ()
           else Delete n key (s_rev s) (\<lambda>d. case d of
               Some _ \<Rightarrow> Ret () | None \<Rightarrow> emit (SweeperDelete ''probe'') (Ret ())))) keys) w'"
    if "inv sha w'" "\<forall>k \<in> set keys. hasPrefix probeKeyPrefix k" for keys w'
  proof (rule pr.safe_forEach [OF _ that(1)], goal_cases)
    case (1 k w2)
    then show ?case using that(2) other_probe
      by (intro pr.safe_Get) (auto intro!: psafe_probe_delete split: option.split)
  qed
  note loop = this
  show ?thesis unfolding sweepProbeKeys_def
  proof (rule pr.safe_read, goal_cases)
    case (1 w' r)
    then show ?case by (auto simp: kv_keys_def intro!: loop)
  qed simp
qed

lemma psafe_sweepProbes:
  assumes "inv sha w"
  shows "psafe U sha ids (\<lambda>_ _. True) (sweepProbes objects li now) w"
  unfolding sweepProbes_def
proof (rule pr.safe_bind [OF _ _ assms], rule pr.safe_forEach [OF _ assms], goal_cases)
  case (1 n w')
  then show ?case by (simp add: psafe_probe_keys)
next
  case (2 a w')
  then show ?case by (auto intro!: pr.safe_forEach psafe_Drop split: option.split)
qed

lemma psafe_reconcileReceipts:
  assumes "inv (e_sha e) w"
  shows "psafe U (e_sha e) ids (\<lambda>_ _. True) (reconcileReceipts e now) w"
proof -
  have del: "psafe U (e_sha e) ids (\<lambda>_ _. True) (Delete JOBS k rv (\<lambda>_. Ret ())) w'"
    if iw: "inv (e_sha e) w'" and pre: "hasPrefix receiptPrefix k" and nm: "entry_names y rv k w'"
      and gone: "jobKey y \<in> seen w'" "jobs_lookup w' (jobKey y) = None"
    for k rv y w'
  proof (rule psafe_Delete_any, goal_cases)
    case (1 w2 s)
    have "names (s_val s) = Some y" using entry_names_stable [OF nm 1(1) iw] 1(3,4) by (auto simp: entry_names_def)
    then obtain x where "receipt_at w2 k = Some x" "rcp_ID x = y"
      using inv_receipt [OF 1(2) pre 1(3)] 1(3) by (auto simp: receipt_at_iff)
    moreover have "jobs_lookup w2 (jobKey y) = None" using evolvesD(5) [OF 1(1) iw gone] .
    ultimately show ?case using pre by (intro delete_receipt_ok [OF 1(2)]) (auto simp: job_at_iff)
  qed simp
  have one: "psafe U (e_sha e) ids (\<lambda>_ _. True) (readReceipt k (\<lambda>g. case g of
       Inr (Some (x, rv)) \<Rightarrow>
         if \<not> rcp_CreatedAt x + (e_jobRetention e + skewMargin) < now then Ret ()
         else readJob (rcp_ID x) (\<lambda>j. case j of Inr None \<Rightarrow> Delete JOBS k rv (\<lambda>_. Ret ()) | _ \<Rightarrow> Ret ())
     | _ \<Rightarrow> Ret ())) w'" if "inv (e_sha e) w'" and pre: "hasPrefix receiptPrefix k" for k w'
  proof (rule psafe_readReceipt, goal_cases)
    case (3 w2 s x)
    have nm: "entry_names (rcp_ID x) (s_rev s) k w2" "jobKey (rcp_ID x) \<in> seen w2"
      using 3 inv_rev [OF 3(2,3)] inv_receipt [OF 3(2) pre 3(3)] by (auto simp: entry_names_def)
    have "psafe U (e_sha e) ids (\<lambda>_ _. True) (Delete JOBS k (s_rev s) (\<lambda>_. Ret ())) w3"
      if "rely (e_sha e) ids w2 w3" "inv (e_sha e) w3" "jobs_lookup w3 (jobKey (rcp_ID x)) = None" for w3
      using del [OF that(2) pre _ _ that(3)] entry_names_stable [OF nm(1) rely_evolves [OF that(1)] 3(2)]
        evolvesD(3) [OF rely_evolves [OF that(1)] 3(2)] nm(2) by blast
    then show ?case by (auto intro!: psafe_readJob)
  qed simp_all
  show ?thesis unfolding reconcileReceipts_def
  proof (rule pr.safe_read, goal_cases)
    case (1 w' r)
    then show ?case by (auto simp: kv_keys_def intro!: pr.safe_forEach one)
  qed simp
qed

lemma psafe_sweepSteps:
  assumes w: "inv (e_sha e) w" "linv U l w" "jobs = c_jobs (rp_caches l)"
  shows "psafe U (e_sha e) ids (\<lambda>_ _. True) (sweepSteps e jobs objects li sweeps now) w"
proof -
  have tr: "\<forall>k j. map_of jobs k = Some j \<longrightarrow> truthful_job w2 k j \<and> (\<exists>i. k = jobKey i)"
    if "evolves (e_sha e) w w2" for w2
    using linv_stable [OF w(2) that w(1)] w(3) unfolding linv_def by blast
  have "\<forall>k j. map_of jobs k = Some j \<longrightarrow> cj_Revision j \<le> last_rev w \<and> (\<exists>i. k = jobKey i)"
    using tr [OF evolves_refl] unfolding truthful_job_def by blast
  note ex = psafe_expire [OF w(1) this]
  have orphans: "psafe U (e_sha e) ids (\<lambda>_ _. True) (if li then sweepOrphans jobs objects now else Ret ()) w2"
    if "inv (e_sha e) w2" for w2 using that by (simp add: psafe_sweepOrphans)
  have receipts: "psafe U (e_sha e) ids (\<lambda>_ _. True)
      (if sweeps mod receiptReconcileEvery = 0 then reconcileReceipts e now else Ret ()) w2"
    if "inv (e_sha e) w2" for w2 using that by (simp add: psafe_reconcileReceipts)
  show ?thesis unfolding sweepSteps_def
    by (rule pr.safe_bind [OF ex _ w(1)], rule pr.safe_bind [OF psafe_retire], assumption, erule tr,
        rule pr.safe_bind [OF psafe_sweepSlots], assumption, rule pr.safe_bind [OF orphans], assumption,
        rule pr.safe_bind [OF psafe_sweepActive], assumption, rule pr.safe_bind [OF psafe_sweepProbes], assumption,
        rule receipts)
qed

lemma psafe_sweep:
  assumes "inv (e_sha e) w"
  shows "psafe U (e_sha e) ids (\<lambda>_ _. True) (sweep e) w"
  unfolding sweep_def Let_def
proof (rule pr.safe_inspect, goal_cases)
  case (1 w' l)
  show ?case
  proof (cases "barrier l")
    case True
    show ?thesis unfolding if_not_P [OF not_not [THEN iffD2, OF True]]
    proof (rule psafe_modify, simp, rule pr.safe_Now, rule pr.safe_inspect, rule pr.safe_read, goal_cases)
      case (1 now w2 l2 w3 r)
      then have "linv U l2 w3" using linv_stable rely_evolves by blast
      then show ?case using psafe_sweepSteps [OF 1(5)] by (simp split: sum.split)
    qed simp
  qed simp
qed

end
