(* ===== verification/Scheduler.thy ===== *)
theory Scheduler
  imports Sweeper
begin

text \<open>
  The scheduler of one replica (\<open>internal/pgo/scheduler.go\<close>): one tick over every Service with
  a stored override.  Slots and offsets are in \<open>Keys\<close>, the sorted order of the Services in
  \<open>Sweeper\<close>.

  A tick may publish one Collection per Service; \<open>rnd ref\<close> is the bytes \<open>crypto/rand\<close> gives the
  publication of that Service.  The encoding of a slot value does not fail for the times a clock
  gives.
\<close>

section \<open>Constants\<close>

definition slotRetentionMargin :: duration where "slotRetentionMargin = 24 * hour"
definition createdBySchedule :: string where "createdBySchedule = ''schedule''"
definition slotWon :: string where "slotWon = ''won''"
definition slotLost :: string where "slotLost = ''lost''"
definition slotBusy :: string where "slotBusy = ''busy''"
definition slotCapacity :: string where "slotCapacity = ''capacity''"

section \<open>Reported violations\<close>

definition logViolations :: "serviceRef \<Rightarrow> nat \<Rightarrow> Violation list \<Rightarrow> replica \<Rightarrow> replica" where
  "logViolations ref rv violations l =
     (if map_of (rp_loggedViolations l) ref = Some rv then l
      else l\<lparr>rp_loggedViolations := map_put ref rv (rp_loggedViolations l),
             rp_events := rp_events l @ map (\<lambda>v. Logged (''policy exceeds a ceiling: '' @ v_Field v)) violations\<rparr>)"

definition forgetStaleViolations :: "(serviceRef \<times> cachedOverride) list \<Rightarrow> replica \<Rightarrow> replica" where
  "forgetStaleViolations overrides l =
     l\<lparr>rp_loggedViolations := filter (\<lambda>(ref, _). map_of overrides ref \<noteq> None) (rp_loggedViolations l)\<rparr>"

section \<open>One Service\<close>

definition createSlot :: "serviceRef \<Rightarrow> time \<Rightarrow> duration \<Rightarrow> nat \<Rightarrow> (bool \<Rightarrow> (replica, 'a) prog) \<Rightarrow> (replica, 'a) prog" where
  "createSlot ref slot every h c =
     Create JOBS (slotKey (ref_Namespace ref) (ref_Service ref) slot)
       (VSlot \<lparr>sv_RetainUntil = slot + (every + slotRetentionMargin)\<rparr>) (\<lambda>r. case r of
         Inr _ \<Rightarrow> c True
       | Inl err \<Rightarrow>
           if err = ErrKeyExists then Release h (emit (ScheduleSlot slotLost) (c False))
           else Release h (emit (Logged ''slot create failed'') (c False)))"

definition schedulePublication :: "env \<Rightarrow> 8 word list \<Rightarrow> serviceRef \<Rightarrow> nat \<Rightarrow> Policy \<Rightarrow> time \<Rightarrow> time \<Rightarrow> nat \<Rightarrow> (replica, unit) prog" where
  "schedulePublication e buf ref rv policy slot now h =
     bind (Publish e buf h \<lparr>pi_Namespace = ref_Namespace ref, pi_Service = ref_Service ref, pi_Origin = OriginSchedule,
             pi_Slot = slot, pi_ClaimBy = now + sch_Every (pol_Schedule policy), pi_ConfigRevision = rv,
             pi_Policy = policy, pi_CreatedBy = createdBySchedule, pi_IdempotencyKey = []\<rparr>)
       (\<lambda>(_, r). case r of
          Inl _ \<Rightarrow> emit (Logged ''publication after winning a slot failed'') (Ret ())
        | Inr OutcomeBusy \<Rightarrow> emit (ScheduleSlot slotBusy) (Ret ())
        | Inr OutcomeWon \<Rightarrow> emit (ScheduleSlot slotWon) (Ret ()))"

definition considerService :: "env \<Rightarrow> (serviceRef \<Rightarrow> 8 word list) \<Rightarrow> nat \<Rightarrow> time \<Rightarrow> serviceRef \<Rightarrow> cachedOverride \<Rightarrow> (replica, unit) prog" where
  "considerService e rnd gen now ref stored =
     (let policy = Effective (e_defaults e) (st_Policy (cov_Stored stored)) in
      if \<not> pol_Enabled policy then Ret ()
      else if Validate policy (e_limits e) \<noteq> []
        then modify (logViolations ref (cov_Revision stored) (Validate policy (e_limits e))) (Ret ())
      else
        let every = sch_Every (pol_Schedule policy);
            slot = slotFor now every
        in if now < slot + offset (ref_Namespace ref) (ref_Service ref) slot (sch_Jitter (pol_Schedule policy)) then Ret ()
           else inspect (\<lambda>l.
             case Live (rp_generation l) gen (ref_Namespace ref) (ref_Service ref) (rp_caches l) of
               (_, False) \<Rightarrow> Ret ()
             | (True, True) \<Rightarrow> emit (ScheduleSlot slotBusy) (Ret ())
             | (False, True) \<Rightarrow>
                 Loc (\<lambda>l. case Reserve e gen (ref_Namespace ref) (ref_Service ref) l of
                     (Inl ErrCapacityExhausted, l1) \<Rightarrow> (l1, emit (ScheduleSlot slotCapacity) (Ret ()))
                   | (Inl StaleCaches, l1) \<Rightarrow> (l1, Ret ())
                   | (Inr h, l1) \<Rightarrow> (l1, createSlot ref slot every h (\<lambda>won.
                       if won then schedulePublication e (rnd ref) ref (cov_Revision stored) policy slot now h
                       else Ret ())))))"

section \<open>One tick\<close>

definition tick :: "env \<Rightarrow> (serviceRef \<Rightarrow> 8 word list) \<Rightarrow> (replica, unit) prog" where
  "tick e rnd = inspect (\<lambda>l.
     if \<not> barrier l then Ret ()
     else let gen = rp_generation l in
       bind ReleaseResolved (\<lambda>_. Now (\<lambda>now. inspect (\<lambda>l.
         let overrides = overrideSnapshot (rp_caches l) in
         modify (forgetStaleViolations overrides)
           (forEach (\<lambda>ref. case map_of overrides ref of
               None \<Rightarrow> Ret ()
             | Some stored \<Rightarrow> considerService e rnd gen now ref stored)
             (sortedRefs overrides))))))"

section \<open>The scheduler keeps the protocol\<close>

lemma caches_logViolations [simp]:
  "rp_caches (logViolations ref rv vs l) = rp_caches l" "rp_started (logViolations ref rv vs l) = rp_started l"
  by (simp_all add: logViolations_def)

lemma caches_forget [simp]:
  "rp_caches (forgetStaleViolations os l) = rp_caches l" "rp_started (forgetStaleViolations os l) = rp_started l"
  by (simp_all add: forgetStaleViolations_def)

lemma caches_Reserve:
  "rp_caches (snd (Reserve e gen ns svc l)) = rp_caches l" "rp_started (snd (Reserve e gen ns svc l)) = rp_started l"
  by (simp_all add: Reserve_def Let_def split_def)

lemma slotKey_other: "other_key (slotKey ns svc t)"
  by (intro other_slot) (simp add: slotKey_def hasPrefix_iff)

text \<open>A slot key is no key of the protocol, and creating it sees no identifier.\<close>

lemma psafe_createSlot:
  assumes inv: "inv sha w" and fresh: "\<forall>i \<in> ids. jobKey i \<notin> seen w"
    and c: "\<And>b w'. inv sha w' \<Longrightarrow> \<forall>i \<in> ids. jobKey i \<notin> seen w' \<Longrightarrow> psafe U sha ids Q (c b) w'"
  shows "psafe U sha ids Q (createSlot ref slot every h c) w"
  unfolding createSlot_def
proof (rule pr.safe_Create, goal_cases)
  case (1 w' err)
  then have "\<forall>i \<in> ids. jobKey i \<notin> seen w'" using fresh rely_unseen [OF _ inv] by blast
  then show ?case using c 1 by auto
next
  case (2 w' s)
  then have "\<forall>i \<in> ids. jobKey i \<notin> seen w'" using fresh rely_unseen [OF _ inv] by blast
  then show ?case using c 2 by auto
next
  case (3 w' w'')
  then have "\<forall>i \<in> ids. jobKey i \<notin> seen w'" using fresh rely_unseen [OF _ inv] by blast
  then have "\<forall>i \<in> ids. jobKey i \<notin> seen w''" using 3 by auto
  then show ?case using c step_okD [OF put_other_ok [OF 3(2) slotKey_other]] 3 by auto
qed

lemma psafe_schedulePublication:
  assumes "inv (e_sha e) w" and "length buf = idLength" and "newID buf \<in> ids" and "jobKey (newID buf) \<notin> seen w"
  shows "psafe U (e_sha e) ids (\<lambda>_ _. True) (schedulePublication e buf ref rv policy slot now h) w"
  unfolding schedulePublication_def
  by (rule pr.safe_bind [OF psafe_Publish [OF assms] _ assms(1)]) (auto split: sum.split Outcome.split)

lemma psafe_consider:
  assumes inv: "inv (e_sha e) w" and len: "length (rnd ref) = idLength" and fresh: "jobKey (newID (rnd ref)) \<notin> seen w"
  shows "psafe U (e_sha e) {newID (rnd ref)} (\<lambda>_ _. True) (considerService e rnd gen now ref stored) w"
proof -
  let ?ids = "{newID (rnd ref)}"
  have slot: "psafe U (e_sha e) ?ids (\<lambda>_ _. True) (createSlot ref slot every h (\<lambda>won.
      if won then schedulePublication e (rnd ref) ref rv policy slot now h else Ret ())) w'"
    if "rely (e_sha e) ?ids w w'" "inv (e_sha e) w'" for w' slot every h rv policy
    using that rely_unseen [OF that(1) inv] fresh len
    by (intro psafe_createSlot) (auto intro!: psafe_schedulePublication)
  have "psafe U (e_sha e) ?ids (\<lambda>_ _. True) (Loc (\<lambda>l. case Reserve e gen ns svc l of
        (Inl ErrCapacityExhausted, l1) \<Rightarrow> (l1, emit (ScheduleSlot slotCapacity) (Ret ()))
      | (Inl StaleCaches, l1) \<Rightarrow> (l1, Ret ())
      | (Inr h, l1) \<Rightarrow> (l1, createSlot ref slot every h (\<lambda>won.
          if won then schedulePublication e (rnd ref) ref rv policy slot now h else Ret ())))) w'"
    if "rely (e_sha e) ?ids w w'" for w' ns svc slot every rv policy
  proof (rule pr.safe_Loc, goal_cases)
    case (1 w2 l)
    have "linv U (snd (Reserve e gen ns svc l)) w2"
      using 1(3) linv_caches [OF caches_Reserve] by blast
    moreover have "rely (e_sha e) ?ids w w2" using that 1(1) rely_trans by blast
    ultimately show ?case using slot 1(2)
      by (cases "Reserve e gen ns svc l") (auto split: sum.split reserve_err.split)
  qed
  then show ?thesis unfolding considerService_def Let_def
    by (auto intro!: pr.safe_inspect psafe_modify split: prod.split bool.split)
qed

lemma psafe_consider_all:
  assumes "inv (e_sha e) w" and "distinct refs" and "inj_on (\<lambda>r. newID (rnd r)) (set refs)"
    and "\<forall>r \<in> set refs. length (rnd r) = idLength \<and> newID (rnd r) \<in> ids \<and> jobKey (newID (rnd r)) \<notin> seen w"
  shows "psafe U (e_sha e) ids (\<lambda>_ _. True) (forEach (\<lambda>ref. case map_of os ref of
      None \<Rightarrow> Ret () | Some stored \<Rightarrow> considerService e rnd gen now ref stored) refs) w"
  using assms
proof (induction refs arbitrary: w)
  case (Cons ref refs)
  have "psafe U (e_sha e) ids (\<lambda>a w'. True \<and> rely (e_sha e) (ids - {newID (rnd ref)}) w w')
      (case map_of os ref of None \<Rightarrow> Ret () | Some stored \<Rightarrow> considerService e rnd gen now ref stored) w"
    using Cons.prems by (intro psafe_frame) (auto intro!: psafe_consider split: option.split)
  moreover have "psafe U (e_sha e) ids (\<lambda>_ _. True) (forEach (\<lambda>ref. case map_of os ref of
      None \<Rightarrow> Ret () | Some stored \<Rightarrow> considerService e rnd gen now ref stored) refs) w'"
    if "inv (e_sha e) w'" "rely (e_sha e) (ids - {newID (rnd ref)}) w w'" for w'
  proof (rule Cons.IH [OF that(1)])
    have "newID (rnd r) \<noteq> newID (rnd ref)" if "r \<in> set refs" for r
      using Cons.prems(2,3) that by (auto simp: inj_on_def)
    then show "\<forall>r \<in> set refs. length (rnd r) = idLength \<and> newID (rnd r) \<in> ids \<and> jobKey (newID (rnd r)) \<notin> seen w'"
      using Cons.prems(1,4) rely_unseen [OF that(2)] by auto
  qed (use Cons.prems in auto)
  ultimately show ?case using Cons.prems(1) by (auto intro!: pr.safe_bind)
qed simp

lemma distinct_snapshot: "distinct (map fst (overrideSnapshot c))"
proof -
  have "distinct (map fst (fold (\<lambda>(key, o') out. case splitServiceKey overridePrefix key of
             None \<Rightarrow> out | Some (ns, svc) \<Rightarrow> map_put (ServiceRef ns svc) o' out) os m))"
    if "distinct (map fst m)" for os and m :: "(serviceRef \<times> cachedOverride) list"
    using that by (induction os arbitrary: m) (auto split: option.split prod.split)
  then show ?thesis by (simp add: overrideSnapshot_def)
qed

lemma snapshot_refs:
  assumes "linv U l w"
  shows "fst ` set (overrideSnapshot (rp_caches l)) \<subseteq> U"
proof -
  have "fst ` set (fold (\<lambda>(key, o') out. case splitServiceKey overridePrefix key of
             None \<Rightarrow> out | Some (ns, svc) \<Rightarrow> map_put (ServiceRef ns svc) o' out) os m) \<subseteq> U"
    if "\<forall>k \<in> fst ` set os. \<forall>ns svc. splitServiceKey overridePrefix k = Some (ns, svc) \<longrightarrow> ServiceRef ns svc \<in> U"
      "fst ` set m \<subseteq> U" for os and m :: "(serviceRef \<times> cachedOverride) list"
    using that
  proof (induction os arbitrary: m)
    case (Cons a os)
    have "fst ` set (map_put r o' m) \<subseteq> U" if "r \<in> U" for r o'
      using that Cons.prems(2) dom_update [of r o' m] by (auto simp: dom_map_of_conv_image_fst [symmetric])
    then show ?case using Cons by (auto split: option.split prod.split)
  qed simp
  then show ?thesis using assms by (simp add: overrideSnapshot_def linv_def)
qed

lemma psafe_ReleaseResolved_none: "inv sha w \<Longrightarrow> psafe U sha {} (\<lambda>_ _. True) ReleaseResolved w"
  by (rule psafe_ReleaseResolved)

lemma psafe_tick:
  assumes inv: "inv (e_sha e) w" and rnd: "inj_on (\<lambda>r. newID (rnd r)) U"
    and fresh: "\<forall>r \<in> U. length (rnd r) = idLength \<and> newID (rnd r) \<in> ids \<and> jobKey (newID (rnd r)) \<notin> seen w"
  shows "psafe U (e_sha e) ids (\<lambda>_ _. True) (tick e rnd) w"
proof -
  have body: "psafe U (e_sha e) ids (\<lambda>_ _. True) (Now (\<lambda>now. inspect (\<lambda>l.
         let overrides = overrideSnapshot (rp_caches l) in
         modify (forgetStaleViolations overrides)
           (forEach (\<lambda>ref. case map_of overrides ref of None \<Rightarrow> Ret () | Some stored \<Rightarrow> considerService e rnd gen now ref stored)
             (sortedRefs overrides))))) w'"
    if w': "rely (e_sha e) ids w w'" for w' gen
    unfolding Let_def
  proof (rule pr.safe_Now, rule pr.safe_inspect, rule psafe_modify, simp, rule psafe_consider_all, goal_cases)
    case (1 now w2 l)
    then show ?case by simp
  next
    case (2 now w2 l)
    then show ?case using distinct_snapshot by (simp add: sortedRefs_def)
  next
    case (3 now w2 l)
    then show ?case using rnd snapshot_refs [OF 3(3)] by (auto simp: sortedRefs_def intro: inj_on_subset)
  next
    case (4 now w2 l)
    then have "rely (e_sha e) ids w w2" using w' rely_trans by blast
    then show ?case using fresh rely_unseen [OF _ inv] snapshot_refs [OF 4(3)] by (auto simp: sortedRefs_def)
  qed
  have "psafe U (e_sha e) ids (\<lambda>_ _. True) (bind ReleaseResolved (\<lambda>_. Now (\<lambda>now. inspect (\<lambda>l.
         let overrides = overrideSnapshot (rp_caches l) in
         modify (forgetStaleViolations overrides)
           (forEach (\<lambda>ref. case map_of overrides ref of None \<Rightarrow> Ret () | Some stored \<Rightarrow> considerService e rnd gen now ref stored)
             (sortedRefs overrides)))))) w'"
    if w': "rely (e_sha e) ids w w'" "inv (e_sha e) w'" for w' gen
  proof (rule pr.safe_bind [OF psafe_frame [OF psafe_ReleaseResolved_none [OF w'(2)], of ids] _ w'(2)])
    fix w2 assume "True \<and> rely (e_sha e) (ids - {}) w' w2"
    then have "rely (e_sha e) ids w w2" using w'(1) rely_trans by simp
    then show "psafe U (e_sha e) ids (\<lambda>_ _. True) (Now (\<lambda>now. inspect (\<lambda>l.
         let overrides = overrideSnapshot (rp_caches l) in
         modify (forgetStaleViolations overrides)
           (forEach (\<lambda>ref. case map_of overrides ref of None \<Rightarrow> Ret () | Some stored \<Rightarrow> considerService e rnd gen now ref stored)
             (sortedRefs overrides))))) w2" by (rule body)
  qed simp
  then show ?thesis unfolding tick_def Let_def by (auto intro!: pr.safe_inspect)
qed

end
