(* ===== verification/System.thy ===== *)
theory System
  imports Handlers Scheduler Sweeper
begin

text \<open>
  The whole system: any number of replicas, each with its own memory, and any number of goroutines
  that run the programs of the other theories, interleaved call by call over one pair of stores.

  A thread owns the identifiers its program may publish under; \<open>crypto/rand\<close> is taken to give no
  identifier twice, so a thread starts with identifiers no other thread owns and no record ever
  had.  Every call may fail with or without being applied, the clock may jump anywhere, a watch
  may deliver anything the bucket ever held, a replica may lose its view, stop, or crash.

  \<open>U\<close> is the set of Services of the cluster and \<open>es\<close> gives each replica's configuration; they
  share one SHA-256.
\<close>

section \<open>Configurations\<close>

record thread =
  th_replica :: nat
  th_ids :: "string set"
  th_prog :: "(replica, unit) prog"

text \<open>\<open>sys_past\<close> is the sequence of worlds so far; only the watches read it.\<close>

record system =
  sys_world :: world
  sys_mem :: "nat \<Rightarrow> replica"
  sys_threads :: "thread list"
  sys_past :: "world list"

definition initial :: system where
  "initial = \<lparr>sys_world = emptyWorld, sys_mem = (\<lambda>_. newReplica), sys_threads = [], sys_past = [emptyWorld]\<rparr>"

definition forget :: "('l, 'a) prog \<Rightarrow> ('l, unit) prog" where
  "forget p = bind p (\<lambda>_. Ret ())"

text \<open>What a replica may start at any time, with the identifiers it draws.\<close>

inductive entry :: "serviceRef set \<Rightarrow> env \<Rightarrow> string set \<Rightarrow> (replica, unit) prog \<Rightarrow> bool" for U e where
  scan: "entry U e {} (scan e)"
| sweep: "entry U e {} (sweep e)"
| tick: "inj_on (\<lambda>r. newID (rnd r)) U \<Longrightarrow> \<forall>r \<in> U. length (rnd r) = idLength \<Longrightarrow>
    entry U e ((\<lambda>r. newID (rnd r)) ` U) (tick e rnd)"
| create: "length (cr_random q) = idLength \<Longrightarrow> entry U e {newID (cr_random q)} (forget (serveCollectionCreate e gen q))"
| collection: "entry U e {} (forget (servePGOCollection e allows i kind))"
| latest: "entry U e {} (forget (serveLatestCollection e gen ns svc profile))"
| listing: "entry U e {} (forget (serveCollectionList gen ns svc query))"
| policy_read: "entry U e {} (forget (servePolicyRead e ns svc))"
| policy_write: "entry U e {} (forget (servePolicyWrite e disabled ifMatch body prin ns svc))"
| policy_delete: "entry U e {} (forget (servePolicyDelete disabled rejected ifMatch ns svc))"
| cutoff: "entry U e {} (runCutoff h n)"

text \<open>
  What a watch delivers: the value and revision a key of the jobs bucket had in some world so far,
  or its absence; the override of a Service of the cluster; or the marker of a finished replay.
\<close>

definition delivers :: "serviceRef set \<Rightarrow> world \<Rightarrow> cacheKind \<Rightarrow> Entry \<Rightarrow> bool" where
  "delivers U u kind en \<longleftrightarrow> e_Synced en \<or>
     (if kind = cacheOverrides
      then (\<forall>ns svc. splitServiceKey overridePrefix (e_Key en) = Some (ns, svc) \<longrightarrow> ServiceRef ns svc \<in> U)
      else (case jobs_lookup u (e_Key en) of
          None \<Rightarrow> e_Value en = None
        | Some s \<Rightarrow> e_Value en = Some (s_val s) \<and> e_Revision en = s_rev s))"

inductive sysStep :: "serviceRef set \<Rightarrow> (nat \<Rightarrow> env) \<Rightarrow> system \<Rightarrow> system \<Rightarrow> bool" for U es where
  call: "n < length (sys_threads s) \<Longrightarrow> th_prog (sys_threads s ! n) = Call op k \<Longrightarrow> exec f op (sys_world s) = (r, w') \<Longrightarrow>
    sysStep U es s (s\<lparr>sys_world := w', sys_threads := (sys_threads s)[n := (sys_threads s ! n)\<lparr>th_prog := k r\<rparr>],
                       sys_past := w' # sys_past s\<rparr>)"
| critical: "n < length (sys_threads s) \<Longrightarrow> th_prog (sys_threads s ! n) = Loc g \<Longrightarrow> m = th_replica (sys_threads s ! n) \<Longrightarrow>
    g (sys_mem s m) = (l', p) \<Longrightarrow>
    sysStep U es s (s\<lparr>sys_mem := (sys_mem s)(m := l'), sys_threads := (sys_threads s)[n := (sys_threads s ! n)\<lparr>th_prog := p\<rparr>]\<rparr>)"
| start: "entry U (es m) ids p \<Longrightarrow> \<forall>i \<in> ids. jobKey i \<notin> seen (sys_world s) \<Longrightarrow> \<forall>t \<in> set (sys_threads s). th_ids t \<inter> ids = {} \<Longrightarrow>
    sysStep U es s (s\<lparr>sys_threads := sys_threads s @ [\<lparr>th_replica = m, th_ids = ids, th_prog = p\<rparr>]\<rparr>)"
| own: "(h, rec, rv) \<in> set (rp_started (sys_mem s m)) \<Longrightarrow> \<forall>res. EvResult res \<in> set evs \<longrightarrow> result_ok rec res \<Longrightarrow>
    sysStep U es s (s\<lparr>sys_threads := sys_threads s @ [\<lparr>th_replica = m, th_ids = {}, th_prog = ownerThread (es m) h rec rv evs\<rparr>]\<rparr>)"
| deliver: "u \<in> set (sys_past s) \<Longrightarrow> delivers U u kind en \<Longrightarrow>
    sysStep U es s (s\<lparr>sys_mem := (sys_mem s)(m := (sys_mem s m)\<lparr>rp_caches := apply_entry kind en (rp_caches (sys_mem s m))\<rparr>)\<rparr>)"
| reconnect: "sysStep U es s (s\<lparr>sys_mem := (sys_mem s)(m := (sys_mem s m)\<lparr>rp_generation := gen, rp_connSynced := b, rp_viewOK := v,
      rp_caches := startAttempt (rp_caches (sys_mem s m))\<rparr>)\<rparr>)"
| stop: "sysStep U es s (s\<lparr>sys_mem := (sys_mem s)(m := stopWork (sys_mem s m))\<rparr>)"
| clock: "sysStep U es s (s\<lparr>sys_world := (sys_world s)\<lparr>w_clock := t\<rparr>\<rparr>)"
| crash: "sysStep U es s (s\<lparr>sys_mem := (sys_mem s)(m := newReplica), sys_threads := filter (\<lambda>t. th_replica t \<noteq> m) (sys_threads s)\<rparr>)"

definition reachable :: "serviceRef set \<Rightarrow> (nat \<Rightarrow> env) \<Rightarrow> system \<Rightarrow> bool" where
  "reachable U es s \<longleftrightarrow> (sysStep U es)\<^sup>*\<^sup>* initial s"

inductive_cases sysStepE: "sysStep U es s s'"

section \<open>Starting a program\<close>

lemma psafe_forget: "psafe U sha ids (\<lambda>_ _. True) p w \<Longrightarrow> inv sha w \<Longrightarrow> psafe U sha ids (\<lambda>_ _. True) (forget p) w"
  unfolding forget_def by (rule pr.safe_bind) simp_all

lemma psafe_entry:
  assumes "entry U e ids p" and "inv (e_sha e) w" and "\<forall>i \<in> ids. jobKey i \<notin> seen w"
  shows "psafe U (e_sha e) ids (\<lambda>_ _. True) p w"
  using assms(1)
proof cases
  case scan
  then show ?thesis using psafe_scan [OF assms(2)] by simp
next
  case sweep
  then show ?thesis using psafe_sweep [OF assms(2)] by simp
next
  case (tick rnd)
  then show ?thesis using assms(3) by (auto intro!: psafe_tick [OF assms(2)])
next
  case (create q gen)
  then show ?thesis using assms by (auto intro!: psafe_forget psafe_serveCollectionCreate simp: unseen_def)
next
  case (listing gen ns svc query)
  have "psafe U (e_sha e) ids (\<lambda>_ _. True) (serveCollectionList gen ns svc query) w"
    unfolding serveCollectionList_def by (rule pr.safe_inspect) (auto split: prod.split)
  then show ?thesis using listing psafe_forget [OF _ assms(2)] by simp
qed (use assms(2) psafe_policies psafe_servePGOCollection psafe_serveLatestCollection psafe_runCutoff in \<open>auto intro!: psafe_forget\<close>)

section \<open>Deliveries keep the memory truthful\<close>

lemma jobs_deleteJob_wf: "wf_map (c_jobs c) \<Longrightarrow> wf_map (c_jobs (deleteJob k c))"
  by (simp add: deleteJob_def Let_def split: option.split)

lemma jobs_insertJob_wf: "wf_map (c_jobs c) \<Longrightarrow> wf_map (c_jobs (insertJob k j c))"
  by (simp add: insertJob_def Let_def)

lemma applyJob_others [simp]:
  "c_active (applyJob en c) = c_active c" "c_slots (applyJob en c) = c_slots c" "c_overrides (applyJob en c) = c_overrides c"
  by (simp_all add: applyJob_def deleteJob_def insertJob_def Let_def split: option.split)

lemma pulse_others [simp]:
  "c_jobs (pulseSubscribers k c) = c_jobs c" "c_active (pulseSubscribers k c) = c_active c"
  "c_slots (pulseSubscribers k c) = c_slots c" "c_overrides (pulseSubscribers k c) = c_overrides c"
  by (simp_all add: pulseSubscribers_def split: option.split)

lemma applyJob_cases:
  obtains (same) "applyJob en c = c" | (gone) "map_of (c_jobs (applyJob en c)) = (map_of (c_jobs c))(e_Key en := None)"
  | (put) i rec where "e_Key en = jobKey i" "ValidID i" "e_Value en = Some (VJob rec)"
      "map_of (c_jobs (applyJob en c)) = (map_of (c_jobs c))(e_Key en \<mapsto> cachedOf rec (e_Revision en))"
proof (cases "cutPrefix jobPrefix (e_Key en)")
  case None
  then show thesis using same by (simp add: applyJob_def)
next
  case (Some i)
  then have key: "e_Key en = jobKey i" by (simp add: cutPrefix_Some jobKey_def)
  show thesis
  proof (cases "ValidID i")
    case False
    then show thesis using Some same by (simp add: applyJob_def)
  next
    case valid: True
    show thesis
    proof (cases "\<exists>rec. e_Value en = Some (VJob rec)")
      case True
      then obtain rec where v: "e_Value en = Some (VJob rec)" by blast
      show thesis using put [OF key valid v] Some valid v by (auto simp: applyJob_def Let_def split: option.split)
    next
      case False
      then have "applyJob en c = deleteJob (e_Key en) c"
        using Some valid by (cases "e_Value en") (auto simp: applyJob_def split: option.split)
      then show thesis using gone by simp
    qed
  qed
qed

lemma applyJob_wf: "wf_map (c_jobs c) \<Longrightarrow> wf_map (c_jobs (applyJob en c))"
  by (auto simp: applyJob_def Let_def intro!: jobs_insertJob_wf jobs_deleteJob_wf split: option.split)

text \<open>The part of \<open>linv\<close> that speaks of the caches.\<close>

definition caches_true :: "serviceRef set \<Rightarrow> Caches \<Rightarrow> world \<Rightarrow> bool" where
  "caches_true U c w \<longleftrightarrow>
     (\<forall>k j. map_of (c_jobs c) k = Some j \<longrightarrow> truthful_job w k j \<and> (\<exists>i. k = jobKey i \<and> ValidID i)) \<and>
     (\<forall>ref a. map_of (c_active c) ref = Some a \<longrightarrow> truthful_active w ref a) \<and>
     wf_map (c_jobs c) \<and>
     (\<forall>k s. map_of (c_slots c) k = Some s \<longrightarrow> hasPrefix slotPrefix k) \<and>
     (\<forall>k \<in> fst ` set (c_overrides c). \<forall>ns svc. splitServiceKey overridePrefix k = Some (ns, svc) \<longrightarrow> ServiceRef ns svc \<in> U)"

lemma linv_caches_true:
  "linv U l w \<longleftrightarrow> caches_true U (rp_caches l) w \<and> (\<forall>(h, r, rv) \<in> set (rp_started l). entry_is w r rv \<and> claimed r)"
  unfolding linv_def caches_true_def by blast

lemma caches_true_fields:
  "c_jobs c' = c_jobs c \<Longrightarrow> c_active c' = c_active c \<Longrightarrow> c_slots c' = c_slots c \<Longrightarrow> c_overrides c' = c_overrides c \<Longrightarrow>
    caches_true U c' w = caches_true U c w"
  by (simp add: caches_true_def)

lemma caches_true_reset: "caches_true U c w \<Longrightarrow> caches_true U (reset kind c) w"
  by (cases kind) (simp_all add: caches_true_def)

lemma truthful_from_past:
  assumes "inv sha u" and "evolves sha u w" and "jobs_lookup u k = Some s"
  shows "s_rev s \<le> last_rev w" "jobs_lookup w k = Some t \<Longrightarrow> s_rev t = s_rev s \<Longrightarrow> t = s"
  using inv_rev [OF assms(1,3)] evolvesD(2) [OF assms(2,1)] same_entry [OF assms(2,1,3)] by auto

lemma caches_true_job:
  assumes "caches_true U c w" and "inv sha u" and "evolves sha u w"
    and "case jobs_lookup u (e_Key en) of None \<Rightarrow> e_Value en = None | Some s \<Rightarrow> e_Value en = Some (s_val s) \<and> e_Revision en = s_rev s"
  shows "caches_true U (applyJob en c) w"
proof (cases rule: applyJob_cases [of en c])
  case same
  then show ?thesis using assms(1) by simp
next
  case gone
  then show ?thesis using assms(1) applyJob_wf [of c en] by (auto simp: caches_true_def split: if_splits)
next
  case (put i rec)
  then obtain s where s: "jobs_lookup u (e_Key en) = Some s" "s_val s = VJob rec" "e_Revision en = s_rev s"
    using assms(4) by (cases "jobs_lookup u (e_Key en)") auto
  have "cj_Revision (cachedOf rec (s_rev s)) = s_rev s" by (simp add: cachedOf_def)
  then have "truthful_job w (e_Key en) (cachedOf rec (e_Revision en))"
    unfolding truthful_job_def using truthful_from_past [OF assms(2,3) s(1)] s by auto
  then show ?thesis using put assms(1) applyJob_wf [of c en] by (auto simp: caches_true_def split: if_splits)
qed

lemma caches_true_active:
  assumes "caches_true U c w" and "inv sha u" and "evolves sha u w"
    and "case jobs_lookup u (e_Key en) of None \<Rightarrow> e_Value en = None | Some s \<Rightarrow> e_Value en = Some (s_val s) \<and> e_Revision en = s_rev s"
  shows "caches_true U (applyActive en c) w"
proof (cases "\<exists>ns svc a. splitServiceKey activePrefix (e_Key en) = Some (ns, svc) \<and> e_Value en = Some (VActive a)")
  case False
  have del: "caches_true U (c\<lparr>c_active := map_del ref (c_active c)\<rparr>) w" for ref
    using assms(1) by (auto simp: caches_true_def)
  have "asActive v = None" if "splitServiceKey activePrefix (e_Key en) = Some (ns, svc)" "e_Value en = Some v" for ns svc v
    using False that by (cases "asActive v") auto
  then show ?thesis using assms(1) del by (auto simp: applyActive_def Let_def split: option.split)
next
  case True
  then obtain ns svc a where a: "splitServiceKey activePrefix (e_Key en) = Some (ns, svc)" "e_Value en = Some (VActive a)" by blast
  then have key: "e_Key en = activeKey ns svc" by (simp add: splitServiceKey_Some activeKey_def)
  obtain s where s: "jobs_lookup u (activeKey ns svc) = Some s" "s_val s = VActive a" "e_Revision en = s_rev s"
    using assms(4) a(2) key by (cases "jobs_lookup u (e_Key en)") auto
  have "jobKey (av_ID a) \<in> seen w" using inv_active [OF assms(2) s(1)] s(2) evolvesD(3) [OF assms(3,2)] by auto
  then have "truthful_active w (ServiceRef ns svc) \<lparr>ca_ID = av_ID a, ca_Revision = e_Revision en, ca_Created = e_Created en\<rparr>"
    unfolding truthful_active_def using truthful_from_past [OF assms(2,3) s(1)] s by auto
  then show ?thesis using a assms(1) by (auto simp: caches_true_def applyActive_def Let_def split: if_splits)
qed

lemma caches_true_slot: "caches_true U c w \<Longrightarrow> caches_true U (applySlot en c) w"
  by (auto simp: caches_true_def applySlot_def split: option.split if_splits)

lemma caches_true_overrides:
  assumes "caches_true U c w" and "fst ` set os \<subseteq> insert k (fst ` set (c_overrides c))"
    and "\<forall>ns svc. splitServiceKey overridePrefix k = Some (ns, svc) \<longrightarrow> ServiceRef ns svc \<in> U"
  shows "caches_true U (c\<lparr>c_overrides := os\<rparr>) w"
proof -
  have "\<forall>ns svc. splitServiceKey overridePrefix k' = Some (ns, svc) \<longrightarrow> ServiceRef ns svc \<in> U" if "k' \<in> fst ` set os" for k'
    using assms that unfolding caches_true_def by blast
  then show ?thesis using assms(1) unfolding caches_true_def by simp
qed

lemma caches_true_override:
  assumes "caches_true U c w" and "\<forall>ns svc. splitServiceKey overridePrefix (e_Key en) = Some (ns, svc) \<longrightarrow> ServiceRef ns svc \<in> U"
  shows "caches_true U (applyOverride en c) w"
proof -
  have "fst ` set (map_put k v m) \<subseteq> insert k (fst ` set m)" "fst ` set (map_del k m) \<subseteq> insert k (fst ` set m)"
    for k and v :: cachedOverride and m
    by (auto simp: dom_map_of_conv_image_fst [symmetric])
  note ov = caches_true_overrides [OF assms(1) this(1) assms(2)] caches_true_overrides [OF assms(1) this(2) assms(2)]
  show ?thesis using assms(1) ov by (simp add: applyOverride_def split: option.split)
qed

lemma caches_true_apply:
  assumes "caches_true U c w" and "inv sha u" and "evolves sha u w" and "delivers U u kind en"
  shows "caches_true U (apply_entry kind en c) w"
proof -
  define c1 where "c1 = (if e_Generation en \<noteq> c_gen c kind
      then reset kind (c\<lparr>c_gen := (c_gen c)(kind := e_Generation en), c_synced := (c_synced c)(kind := False)\<rparr>) else c)"
  have c1: "caches_true U c1 w" using assms(1) caches_true_fields [of "c\<lparr>c_gen := g, c_synced := y\<rparr>" c for g y]
    by (simp add: c1_def caches_true_reset)
  have step: "apply_entry kind en c = (if e_Synced en then c1\<lparr>c_synced := (c_synced c1)(kind := True)\<rparr>
      else case kind of
          cacheOverrides \<Rightarrow> applyOverride en c1
        | cacheJobs \<Rightarrow> (pulseSubscribers (e_Key en) (applyJob en c1))\<lparr>c_jobPulse := True\<rparr>
        | cacheActive \<Rightarrow> applyActive en c1
        | cacheSlots \<Rightarrow> applySlot en c1)" unfolding apply_entry_def c1_def Let_def by (rule refl)
  show ?thesis
  proof (cases "e_Synced en")
    case True
    then show ?thesis using c1 by (simp add: step caches_true_def)
  next
    case False
    note d = assms(4) [unfolded delivers_def]
    have jobs: "caches_true U (applyJob en c1) w" if "kind = cacheJobs"
      using caches_true_job [OF c1 assms(2,3)] d False that by simp
    have pulse: "caches_true U ((pulseSubscribers (e_Key en) (applyJob en c1))\<lparr>c_jobPulse := True\<rparr>) w" if "kind = cacheJobs"
      using jobs [OF that] by (simp add: caches_true_def)
    show ?thesis unfolding step
      using False d pulse caches_true_override [OF c1, of en] caches_true_active [OF c1 assms(2,3), of en] caches_true_slot [OF c1, of en]
      by (cases kind) simp_all
  qed
qed

section \<open>The invariant of the system\<close>

definition disjoint_ids :: "thread list \<Rightarrow> bool" where
  "disjoint_ids ts \<longleftrightarrow> (\<forall>i < length ts. \<forall>j < length ts. i \<noteq> j \<longrightarrow> th_ids (ts ! i) \<inter> th_ids (ts ! j) = {})"

definition sys_inv :: "serviceRef set \<Rightarrow> (string \<Rightarrow> string) \<Rightarrow> system \<Rightarrow> bool" where
  "sys_inv U sha s \<longleftrightarrow>
     inv sha (sys_world s) \<and> (\<forall>m. linv U (sys_mem s m) (sys_world s)) \<and>
     (\<forall>t \<in> set (sys_threads s). psafe U sha (th_ids t) (\<lambda>_ _. True) (th_prog t) (sys_world s)) \<and>
     disjoint_ids (sys_threads s) \<and>
     (\<forall>u \<in> set (sys_past s). inv sha u \<and> evolves sha u (sys_world s))"

lemma linv_new: "linv U newReplica w"
  by (simp add: linv_def newReplica_def NewCaches_def)

lemma inv_empty: "inv sha emptyWorld"
  by (simp add: inv_def typed_entries_def live_active_def keyed_bound_def receipts_match_def job_at_def active_at_def receipt_at_def
      lookup_def emptyWorld_def emptyBucket_def)

lemma sys_inv_initial: "sys_inv U sha initial"
  by (simp add: sys_inv_def initial_def inv_empty linv_new disjoint_ids_def evolves_refl)

lemma disjoint_update: "disjoint_ids ts \<Longrightarrow> n < length ts \<Longrightarrow> th_ids t = th_ids (ts ! n) \<Longrightarrow> disjoint_ids (ts[n := t])"
  by (auto simp: disjoint_ids_def nth_list_update)

lemma disjoint_snoc: "disjoint_ids ts \<Longrightarrow> \<forall>u \<in> set ts. th_ids u \<inter> th_ids t = {} \<Longrightarrow> disjoint_ids (ts @ [t])"
  by (auto simp: disjoint_ids_def nth_append less_Suc_eq)

lemma disjoint_sorted: "disjoint_ids ts \<longleftrightarrow> sorted_wrt (\<lambda>a b. th_ids a \<inter> th_ids b = {}) ts"
proof
  assume "disjoint_ids ts"
  then show "sorted_wrt (\<lambda>a b. th_ids a \<inter> th_ids b = {}) ts" by (simp add: disjoint_ids_def sorted_wrt_iff_nth_less)
next
  assume s: "sorted_wrt (\<lambda>a b. th_ids a \<inter> th_ids b = {}) ts"
  have "th_ids (ts ! i) \<inter> th_ids (ts ! j) = {}" if "i < length ts" "j < length ts" "i \<noteq> j" for i j
  proof (cases "i < j")
    case True
    then show ?thesis using s that by (simp add: sorted_wrt_iff_nth_less)
  next
    case False
    then have "th_ids (ts ! j) \<inter> th_ids (ts ! i) = {}" using s that by (simp add: sorted_wrt_iff_nth_less)
    then show ?thesis by (simp add: Int_commute)
  qed
  then show "disjoint_ids ts" by (simp add: disjoint_ids_def)
qed

lemma disjoint_filter: "disjoint_ids ts \<Longrightarrow> disjoint_ids (filter P ts)"
  by (simp add: disjoint_sorted sorted_wrt_filter)

text \<open>A step of one thread is a step the others rely on.\<close>

lemma others_rely:
  assumes "disjoint_ids ts" and "i < length ts" and "j < length ts" and "i \<noteq> j" and "guar sha (th_ids (ts ! i)) w w'"
  shows "rely sha (th_ids (ts ! j)) w w'"
proof -
  have "th_ids (ts ! j) \<subseteq> - th_ids (ts ! i)" using assms(1-4) by (auto simp: disjoint_ids_def)
  then show ?thesis using assms(5) rely_mono by (auto simp: guar_def)
qed

lemma threads_step:
  assumes "\<forall>t \<in> set ts. psafe U sha (th_ids t) (\<lambda>_ _. True) (th_prog t) w" and "n < length ts"
    and "psafe U sha (th_ids (ts ! n)) (\<lambda>_ _. True) p w'" and "\<And>j. j < length ts \<Longrightarrow> j \<noteq> n \<Longrightarrow> rely sha (th_ids (ts ! j)) w w'"
  shows "\<forall>t \<in> set (ts[n := (ts ! n)\<lparr>th_prog := p\<rparr>]). psafe U sha (th_ids t) (\<lambda>_ _. True) (th_prog t) w'"
proof
  fix t assume "t \<in> set (ts[n := (ts ! n)\<lparr>th_prog := p\<rparr>])"
  then obtain j where j: "j < length ts" "t = ts[n := (ts ! n)\<lparr>th_prog := p\<rparr>] ! j" by (auto simp: in_set_conv_nth)
  show "psafe U sha (th_ids t) (\<lambda>_ _. True) (th_prog t) w'"
  proof (cases "j = n")
    case True
    then show ?thesis using j assms(3) by simp
  next
    case False
    then have "psafe U sha (th_ids (ts ! j)) (\<lambda>_ _. True) (th_prog (ts ! j)) w'"
      using assms(1) j(1) pr.safe_mono assms(4) [OF j(1)] by fastforce
    then show ?thesis using j False by simp
  qed
qed

lemma clock_ok:
  "inv sha (w\<lparr>w_clock := t\<rparr>) = inv sha w" "rely sha ids w (w\<lparr>w_clock := t\<rparr>)"
proof -
  show i: "inv sha (w\<lparr>w_clock := t\<rparr>) = inv sha w"
    by (simp add: inv_def typed_entries_def live_active_def keyed_bound_def receipts_match_def job_at_def active_at_def receipt_at_def)
  have "evolves1 w (w\<lparr>w_clock := t\<rparr>)" "leaves ids w (w\<lparr>w_clock := t\<rparr>)"
    by (auto simp: evolves1_def leaves_def job_at_def)
  then show "rely sha ids w (w\<lparr>w_clock := t\<rparr>)" using i by (simp add: rely_def evolves_def)
qed

lemma sys_inv_call:
  assumes "sys_inv U sha s" and "n < length (sys_threads s)" and "th_prog (sys_threads s ! n) = Call op k"
    and "exec f op (sys_world s) = (r, w')"
  shows "guar sha (th_ids (sys_threads s ! n)) (sys_world s) w'"
    "sys_inv U sha (s\<lparr>sys_world := w', sys_threads := (sys_threads s)[n := (sys_threads s ! n)\<lparr>th_prog := k r\<rparr>], sys_past := w' # sys_past s\<rparr>)"
proof -
  let ?w = "sys_world s" and ?t = "sys_threads s ! n"
  have iw: "inv sha ?w" and th: "\<forall>t \<in> set (sys_threads s). psafe U sha (th_ids t) (\<lambda>_ _. True) (th_prog t) ?w"
    using assms(1) by (simp_all add: sys_inv_def)
  have "psafe U sha (th_ids ?t) (\<lambda>_ _. True) (Call op k) ?w" using th assms(2,3) nth_mem by fastforce
  then have st: "guar sha (th_ids ?t) ?w w'" "inv sha w'" "psafe U sha (th_ids ?t) (\<lambda>_ _. True) (k r) w'"
    using iw assms(4) rely_refl unfolding safe_Call_iff by blast+
  show "guar sha (th_ids ?t) ?w w'" by (rule st(1))
  have ev: "evolves sha ?w w'" using pr.G_E [OF st(1)] .
  have "\<forall>t \<in> set ((sys_threads s)[n := ?t\<lparr>th_prog := k r\<rparr>]). psafe U sha (th_ids t) (\<lambda>_ _. True) (th_prog t) w'"
    using threads_step [OF th assms(2) st(3)] others_rely [OF _ assms(2) _ _ st(1)] assms(1) by (auto simp: sys_inv_def)
  moreover have "linv U (sys_mem s m) w'" for m using assms(1) linv_stable [OF _ ev iw] by (simp add: sys_inv_def)
  moreover have "inv sha u \<and> evolves sha u w'" if "u \<in> set (w' # sys_past s)" for u
    using that assms(1) st(2) ev evolves_trans evolves_refl by (auto simp: sys_inv_def)
  ultimately show "sys_inv U sha (s\<lparr>sys_world := w', sys_threads := (sys_threads s)[n := ?t\<lparr>th_prog := k r\<rparr>], sys_past := w' # sys_past s\<rparr>)"
    using assms(1,2) st(2) by (simp add: sys_inv_def disjoint_update)
qed

lemma sys_inv_mem:
  assumes "sys_inv U sha s" and "linv U l' (sys_world s)"
  shows "sys_inv U sha (s\<lparr>sys_mem := (sys_mem s)(m := l')\<rparr>)"
  using assms by (simp add: sys_inv_def)

lemma sys_inv_spawn:
  assumes "sys_inv U sha s" and "psafe U sha ids (\<lambda>_ _. True) p (sys_world s)" and "\<forall>t \<in> set (sys_threads s). th_ids t \<inter> ids = {}"
  shows "sys_inv U sha (s\<lparr>sys_threads := sys_threads s @ [\<lparr>th_replica = m, th_ids = ids, th_prog = p\<rparr>]\<rparr>)"
  using assms disjoint_snoc [of "sys_threads s" "\<lparr>th_replica = m, th_ids = ids, th_prog = p\<rparr>"] by (simp add: sys_inv_def)

lemma sys_inv_step:
  assumes "sysStep U es s s'" and "\<forall>m. e_sha (es m) = sha" and "sys_inv U sha s"
  shows "sys_inv U sha s'"
  using assms(1)
proof cases
  case (call n op k f r w')
  then show ?thesis using sys_inv_call [OF assms(3)] by blast
next
  case (critical n g m l' p)
  let ?t = "sys_threads s ! n"
  have "psafe U sha (th_ids ?t) (\<lambda>_ _. True) (Loc g) (sys_world s)" using assms(3) critical nth_mem by (fastforce simp: sys_inv_def)
  moreover have "linv U (sys_mem s m) (sys_world s)" "inv sha (sys_world s)" using assms(3) by (simp_all add: sys_inv_def)
  ultimately have "linv U l' (sys_world s)" "psafe U sha (th_ids ?t) (\<lambda>_ _. True) p (sys_world s)"
    using critical(5) rely_refl unfolding safe_Loc_iff by (metis fst_conv snd_conv)+
  moreover from this have "\<forall>t \<in> set ((sys_threads s)[n := ?t\<lparr>th_prog := p\<rparr>]). psafe U sha (th_ids t) (\<lambda>_ _. True) (th_prog t) (sys_world s)"
    using threads_step [OF _ critical(2)] rely_refl assms(3) by (auto simp: sys_inv_def)
  ultimately show ?thesis using critical assms(3) by (simp add: sys_inv_def disjoint_update)
next
  case (start m ids p)
  have "psafe U (e_sha (es m)) ids (\<lambda>_ _. True) p (sys_world s)"
    using psafe_entry [OF start(2) _ start(3)] assms(2,3) by (simp add: sys_inv_def)
  then show ?thesis using start(1,4) assms(2) sys_inv_spawn [OF assms(3)] by simp
next
  case (own h rec rv m evs)
  have "entry_is (sys_world s) rec rv \<and> claimed rec" using own(2) assms(3) unfolding sys_inv_def linv_caches_true by blast
  then have "psafe U sha {} (\<lambda>_ _. True) (ownerThread (es m) h rec rv evs) (sys_world s)"
    using own(3) assms(3) by (intro psafe_ownerThread) (auto simp: sys_inv_def)
  then show ?thesis using own(1) sys_inv_spawn [OF assms(3)] by simp
next
  case (deliver u kind en m)
  have "inv sha u" "evolves sha u (sys_world s)" "linv U (sys_mem s m) (sys_world s)" using deliver(2) assms(3) by (auto simp: sys_inv_def)
  then have "linv U ((sys_mem s m)\<lparr>rp_caches := apply_entry kind en (rp_caches (sys_mem s m))\<rparr>) (sys_world s)"
    using caches_true_apply [OF _ _ _ deliver(3)] unfolding linv_caches_true by simp
  then show ?thesis using deliver(1) sys_inv_mem [OF assms(3)] by simp
next
  case (reconnect m gen b v)
  have "linv U (sys_mem s m) (sys_world s)" using assms(3) by (simp add: sys_inv_def)
  then show ?thesis using reconnect by (auto intro!: sys_inv_mem [OF assms(3)] simp: linv_caches_true caches_true_def startAttempt_def)
next
  case (stop m)
  have "linv U (sys_mem s m) (sys_world s)" using assms(3) by (simp add: sys_inv_def)
  then have "linv U (stopWork (sys_mem s m)) (sys_world s)" using linv_caches [of "stopWork (sys_mem s m)" "sys_mem s m"] by (simp add: stopWork_def)
  then show ?thesis using stop sys_inv_mem [OF assms(3)] by simp
next
  case (clock t)
  let ?w = "(sys_world s)\<lparr>w_clock := t\<rparr>"
  have iw: "inv sha (sys_world s)" using assms(3) by (simp add: sys_inv_def)
  have ev: "evolves sha (sys_world s) ?w" using clock_ok(2) rely_evolves by blast
  have "\<forall>u \<in> set (sys_threads s). psafe U sha (th_ids u) (\<lambda>_ _. True) (th_prog u) ?w"
    using assms(3) pr.safe_mono [OF _ clock_ok(2)] unfolding sys_inv_def by blast
  then show ?thesis unfolding clock(1) using assms(3) clock_ok(1) linv_stable [OF _ ev iw] evolves_trans [OF _ ev]
    by (simp add: sys_inv_def)
next
  case (crash m)
  then show ?thesis using assms(3) linv_new by (auto simp: sys_inv_def disjoint_filter)
qed

lemma reachable_inv:
  assumes "reachable U es s" and "\<forall>m. e_sha (es m) = sha"
  shows "sys_inv U sha s"
  using assms(1) unfolding reachable_def
proof (induction rule: rtranclp_induct)
  case (step s s')
  then show ?case using sys_inv_step assms(2) by blast
qed (rule sys_inv_initial)

end
