(* ===== verification/Routing.thy ===== *)
theory Routing
  imports Discovery Collection_Record
begin

text \<open>
  Which handler answers a path and whom it answers: the route table with its matching
  (\<open>internal/httpapi/routes.go\<close>), the classification of the routes (\<open>server.go\<close>), the realm check
  (\<open>realm.go\<close>) and the lists a realm sees (\<open>listing.go\<close>).

  \<open>lbl\<close> is \<open>validation.IsDNS1123Label\<close> of the Kubernetes library, read as a predicate.
\<close>

section \<open>Routes\<close>

datatype routeKind = kindTargets | kindProfile | kindPGOPolicy | kindCollections | kindCollection | kindCollectionProfile
  | kindCollectionCancel | kindCollectionLatest | kindCollectionLatestProfile | kindNamespaces | kindServices | kindCatalog
  | kindWhoami | kindLimits | kindAuth | kindAuthLogin | kindAuthCallback | kindAuthLogout | kindOpenAPI | kindConsole

fun isAuthRoute :: "routeKind \<Rightarrow> bool" where
  "isAuthRoute k \<longleftrightarrow> k = kindAuthLogin \<or> k = kindAuthCallback \<or> k = kindAuthLogout"

fun isPGO :: "routeKind \<Rightarrow> bool" where
  "isPGO k \<longleftrightarrow> k = kindPGOPolicy \<or> k = kindCollections \<or> k = kindCollection \<or> k = kindCollectionProfile \<or>
     k = kindCollectionCancel \<or> k = kindCollectionLatest \<or> k = kindCollectionLatestProfile"

fun isPGOWrite :: "routeKind \<Rightarrow> bool" where
  "isPGOWrite k \<longleftrightarrow> k = kindCollections \<or> k = kindCollectionCancel"

fun isCollectionScoped :: "routeKind \<Rightarrow> bool" where
  "isCollectionScoped k \<longleftrightarrow> k = kindCollection \<or> k = kindCollectionProfile \<or> k = kindCollectionCancel"

fun isListing :: "routeKind \<Rightarrow> bool" where
  "isListing k \<longleftrightarrow> k = kindNamespaces \<or> k = kindServices \<or> k = kindCatalog \<or> k = kindWhoami \<or> k = kindLimits"

record route =
  rt_kind :: routeKind
  rt_namespace :: string
  rt_service :: string
  rt_profile :: string
  rt_collection :: string

record routeDecl =
  dc_Template :: string
  dc_Kind :: routeKind
  dc_Methods :: "string list"

definition MethodGet :: string where "MethodGet = ''GET''"
definition MethodPost :: string where "MethodPost = ''POST''"
definition MethodPut :: string where "MethodPut = ''PUT''"
definition MethodDelete :: string where "MethodDelete = ''DELETE''"
definition MethodHead :: string where "MethodHead = ''HEAD''"

abbreviation decl :: "string \<Rightarrow> routeKind \<Rightarrow> string list \<Rightarrow> routeDecl" where
  "decl t k ms \<equiv> \<lparr>dc_Template = t, dc_Kind = k, dc_Methods = ms\<rparr>"

definition routeTable :: "routeDecl list" where
  "routeTable = [
     decl ''/v1/namespaces/{namespace}/services/{service}/targets'' kindTargets [MethodGet],
     decl ''/v1/namespaces/{namespace}/services/{service}/profiles/{profile}'' kindProfile [MethodGet],
     decl ''/v1/namespaces/{namespace}/services/{service}/pgo'' kindPGOPolicy [MethodGet, MethodPut, MethodDelete],
     decl ''/v1/namespaces/{namespace}/services/{service}/collections'' kindCollections [MethodGet, MethodPost],
     decl ''/v1/namespaces/{namespace}/services/{service}/collections/latest'' kindCollectionLatest [MethodGet],
     decl ''/v1/namespaces/{namespace}/services/{service}/collections/latest/profile'' kindCollectionLatestProfile [MethodGet],
     decl ''/v1/collections/{id}'' kindCollection [MethodGet],
     decl ''/v1/collections/{id}/profile'' kindCollectionProfile [MethodGet],
     decl ''/v1/collections/{id}/cancel'' kindCollectionCancel [MethodPost],
     decl ''/v1/namespaces'' kindNamespaces [MethodGet],
     decl ''/v1/namespaces/{namespace}/services'' kindServices [MethodGet],
     decl ''/v1/catalog'' kindCatalog [MethodGet],
     decl ''/v1/whoami'' kindWhoami [MethodGet],
     decl ''/v1/limits'' kindLimits [MethodGet],
     decl ''/v1/auth'' kindAuth [MethodGet],
     decl ''/v1/openapi.json'' kindOpenAPI [MethodGet],
     decl ''/auth/login'' kindAuthLogin [MethodGet],
     decl ''/auth/callback'' kindAuthCallback [MethodGet],
     decl ''/auth/logout'' kindAuthLogout [MethodGet],
     decl ''/ui/'' kindConsole [MethodGet, MethodHead],
     decl ''/ui/{file}'' kindConsole [MethodGet, MethodHead],
     decl ''/'' kindConsole [MethodGet, MethodHead]]"

text \<open>\<open>strings.Split\<close> and \<open>strings.Join\<close> at one byte.\<close>

fun splitOn :: "char \<Rightarrow> string \<Rightarrow> string list" where
  "splitOn c [] = [[]]"
| "splitOn c (x # xs) = (if x = c then [] # splitOn c xs
     else (case splitOn c xs of [] \<Rightarrow> [[x]] | p # ps \<Rightarrow> (x # p) # ps))"

fun joinWith :: "char \<Rightarrow> string list \<Rightarrow> string" where
  "joinWith c [] = []"
| "joinWith c [p] = p"
| "joinWith c (p # ps) = p @ c # joinWith c ps"

abbreviation slash :: char where "slash \<equiv> CHR ''/''"

definition trimSuffix :: "string \<Rightarrow> string \<Rightarrow> string" where
  "trimSuffix s suf = (case cutSuffix suf s of None \<Rightarrow> s | Some r \<Rightarrow> r)"

definition paramNamespace :: string where "paramNamespace = ''namespace''"
definition paramService :: string where "paramService = ''service''"
definition paramProfile :: string where "paramProfile = ''profile''"
definition paramID :: string where "paramID = ''id''"
definition paramFile :: string where "paramFile = ''file''"

lemmas params = paramNamespace_def paramService_def paramProfile_def paramID_def paramFile_def

definition capture :: "(string \<Rightarrow> bool) \<Rightarrow> route \<Rightarrow> string \<Rightarrow> string \<Rightarrow> route option" where
  "capture lbl rt name value =
     (if value = [] then None
      else if name = paramNamespace then (if \<not> lbl value then None else Some (rt\<lparr>rt_namespace := value\<rparr>))
      else if name = paramService then (if \<not> lbl value then None else Some (rt\<lparr>rt_service := value\<rparr>))
      else if name = paramProfile then Some (rt\<lparr>rt_profile := value\<rparr>)
      else if name = paramID then (if \<not> ValidID value then None else Some (rt\<lparr>rt_collection := value\<rparr>))
      else if name = paramFile then Some rt
      else None)"

text \<open>The loop of \<open>bind\<close> over the parts of the template.\<close>

fun bindParts :: "(string \<Rightarrow> bool) \<Rightarrow> route \<Rightarrow> string list \<Rightarrow> string list \<Rightarrow> route option" where
  "bindParts lbl rt [] segments = (if segments = [] then Some rt else None)"
| "bindParts lbl rt (part # parts) [] = None"
| "bindParts lbl rt (part # parts) (seg # segments) =
     (case cutPrefix ''{'' part of
        None \<Rightarrow> if seg \<noteq> part then None else bindParts lbl rt parts segments
      | Some rest \<Rightarrow>
          let name = trimSuffix rest ''}'' in
          if name = paramFile then capture lbl rt name (joinWith slash (seg # segments))
          else (case capture lbl rt name seg of None \<Rightarrow> None | Some rt' \<Rightarrow> bindParts lbl rt' parts segments))"

definition emptyRoute :: "routeKind \<Rightarrow> route" where
  "emptyRoute k = \<lparr>rt_kind = k, rt_namespace = [], rt_service = [], rt_profile = [], rt_collection = []\<rparr>"

definition bindRoute :: "(string \<Rightarrow> bool) \<Rightarrow> routeDecl \<Rightarrow> string \<Rightarrow> route option" where
  "bindRoute lbl d path = bindParts lbl (emptyRoute (dc_Kind d)) (splitOn slash (dc_Template d)) (splitOn slash path)"

fun matchIn :: "(string \<Rightarrow> bool) \<Rightarrow> routeDecl list \<Rightarrow> string \<Rightarrow> (route \<times> routeDecl) option" where
  "matchIn lbl [] path = None"
| "matchIn lbl (d # ds) path = (case bindRoute lbl d path of Some rt \<Rightarrow> Some (rt, d) | None \<Rightarrow> matchIn lbl ds path)"

definition matchRoute :: "(string \<Rightarrow> bool) \<Rightarrow> string \<Rightarrow> (route \<times> routeDecl) option" where
  "matchRoute lbl path = matchIn lbl routeTable path"

section \<open>Realms\<close>

record RealmPGO =
  rp_Read :: bool
  rp_Collect :: bool
  rp_Configure :: bool

record Realm =
  rl_Namespaces :: "string list"
  rl_Services :: "string list"
  rl_Profiles :: "string list"
  rl_PGO :: RealmPGO

definition wildcard :: string where "wildcard = ''*''"

definition listAllows :: "string list \<Rightarrow> string \<Rightarrow> bool" where
  "listAllows xs value \<longleftrightarrow> List.member xs wildcard \<or> List.member xs value"

definition pgoAllows :: "RealmPGO \<Rightarrow> routeKind \<Rightarrow> string \<Rightarrow> bool" where
  "pgoAllows p kind method =
     (if kind = kindPGOPolicy then (if method = MethodGet then rp_Read p else rp_Configure p)
      else if kind = kindCollections then (if method = MethodGet then rp_Read p else rp_Collect p)
      else if kind = kindCollection \<or> kind = kindCollectionProfile \<or> kind = kindCollectionLatest \<or> kind = kindCollectionLatestProfile
        then rp_Read p
      else if kind = kindCollectionCancel then rp_Collect p
      else True)"

definition realmAllows :: "Realm \<Rightarrow> route \<Rightarrow> string \<Rightarrow> bool" where
  "realmAllows r rt method =
     (if isListing (rt_kind rt) then rt_kind rt \<noteq> kindServices \<or> listAllows (rl_Namespaces r) (rt_namespace rt)
      else if \<not> listAllows (rl_Namespaces r) (rt_namespace rt) \<or> \<not> listAllows (rl_Services r) (rt_service rt) then False
      else if rt_kind rt = kindProfile \<and> \<not> listAllows (rl_Profiles r) (rt_profile rt) then False
      else if isPGO (rt_kind rt) \<and> \<not> pgoAllows (rl_PGO r) (rt_kind rt) method then False
      else True)"

definition filterCatalog :: "Realm \<Rightarrow> (string \<times> string) list \<Rightarrow> (string \<times> string) list" where
  "filterCatalog realm refs = filter (\<lambda>(ns, name). listAllows (rl_Namespaces realm) ns \<and> listAllows (rl_Services realm) name) refs"

text \<open>\<open>slices.Sort\<close> and \<open>slices.Compact\<close>.\<close>

fun compact :: "'a list \<Rightarrow> 'a list" where
  "compact (a # b # xs) = (if a = b then compact (b # xs) else a # compact (b # xs))"
| "compact xs = xs"

definition servicesOf :: "(string \<times> string) list \<Rightarrow> string list" where
  "servicesOf refs = sortFunc compare3 (map snd refs)"

definition catalogOf :: "(string \<times> string) list \<Rightarrow> (string \<times> string) list" where
  "catalogOf refs = map (\<lambda>(ns, name). (ns, name)) refs"

definition namespacesOf :: "(string \<times> string) list \<Rightarrow> string list" where
  "namespacesOf refs = compact (sortFunc compare3 (map fst refs))"

section \<open>Splitting and joining\<close>

lemma splitOn_nonempty [simp]: "splitOn c s \<noteq> []"
  by (induction s) (auto split: list.split)

lemma splitOn_free: "c \<notin> set s \<Longrightarrow> splitOn c s = [s]"
  by (induction s) auto

lemma splitOn_append: "c \<notin> set s \<Longrightarrow> splitOn c (s @ c # t) = s # splitOn c t"
  by (induction s) auto

lemma splitOn_parts: "p \<in> set (splitOn c s) \<Longrightarrow> c \<notin> set p"
proof (induction s arbitrary: p)
  case (Cons x xs)
  then show ?case by (cases "splitOn c xs") (auto split: if_splits)
qed simp

lemma split_join: "ps \<noteq> [] \<Longrightarrow> (\<forall>p \<in> set ps. c \<notin> set p) \<Longrightarrow> splitOn c (joinWith c ps) = ps"
  by (induction c ps rule: joinWith.induct) (auto simp: splitOn_free splitOn_append)

lemma join_split: "joinWith c (splitOn c s) = s"
proof (induction s)
  case (Cons x xs)
  obtain p ps where "splitOn c xs = p # ps" by (meson list.exhaust splitOn_nonempty)
  then show ?case using Cons by (cases ps) auto
qed simp

section \<open>The table is unambiguous\<close>

text \<open>
  The parts of a template: a literal segment, a parameter of one segment, the remainder.
  \<open>apart\<close> decides that no list of segments satisfies two templates.
\<close>

definition isParam :: "string \<Rightarrow> bool" where
  "isParam part \<longleftrightarrow> hasPrefix ''{'' part"

definition isFile :: "string \<Rightarrow> bool" where
  "isFile part \<longleftrightarrow> (case cutPrefix ''{'' part of None \<Rightarrow> False | Some rest \<Rightarrow> trimSuffix rest ''}'' = paramFile)"

fun apart :: "string list \<Rightarrow> string list \<Rightarrow> bool" where
  "apart [] [] = False"
| "apart [] (q # qs) = True"
| "apart (p # ps) [] = True"
| "apart (p # ps) (q # qs) =
     (if isFile p \<or> isFile q then isFile p \<and> q = [] \<and> qs = [] \<or> isFile q \<and> p = [] \<and> ps = []
      else \<not> isParam p \<and> \<not> isParam q \<and> p \<noteq> q \<or> apart ps qs)"

lemma capture_nonempty: "capture lbl rt name value = Some rt' \<Longrightarrow> value \<noteq> []"
  by (auto simp: capture_def)

lemma joinWith_Nil: "joinWith c ps = [] \<longleftrightarrow> ps = [] \<or> ps = [[]]"
  by (cases "(c, ps)" rule: joinWith.cases) auto

lemma not_isParam: "\<not> isParam part \<longleftrightarrow> cutPrefix ''{'' part = None"
  by (simp add: isParam_def hasPrefix_def)

lemma bindParts_literal:
  assumes "bindParts lbl rt (part # parts) (seg # segs) = Some r" and "\<not> isParam part"
  shows "seg = part" "bindParts lbl rt parts segs = Some r"
  using assms by (auto simp: not_isParam split: if_splits)

lemma bindParts_next:
  assumes "bindParts lbl rt (part # parts) (seg # segs) = Some r" and "\<not> isFile part"
  shows "\<exists>rt'. bindParts lbl rt' parts segs = Some r"
  using assms by (auto simp: isFile_def Let_def split: option.splits if_splits)

lemma bindParts_file:
  assumes "bindParts lbl rt (part # parts) (seg # segs) = Some r" and "isFile part"
  shows "\<not> (seg = [] \<and> segs = [])"
  using assms capture_nonempty by (fastforce simp: isFile_def Let_def joinWith_Nil split: option.splits)

lemma apart_sound:
  "apart ps qs \<Longrightarrow> bindParts lbl rt ps segs = Some a \<Longrightarrow> bindParts lbl' rt' qs segs = Some b \<Longrightarrow> False"
proof (induction ps qs arbitrary: rt rt' segs rule: apart.induct)
  case (4 p ps q qs)
  from 4(3) obtain s ss where segs: "segs = s # ss" by (cases segs) auto
  show ?case
  proof (cases "isFile p \<or> isFile q")
    case True
    have lit: "\<not> isParam []" by (simp add: isParam_def hasPrefix_def)
    have nil: "ss = []" if "bindParts lbl rt [] ss = Some r" for lbl rt r using that by (auto split: if_splits)
    show ?thesis using 4(2-) True segs bindParts_file bindParts_literal [OF _ lit] nil by (metis apart.simps(4))
  next
    case False
    then show ?thesis using 4 segs bindParts_next bindParts_literal by (metis apart.simps(4))
  qed
qed (auto split: if_splits)

lemma table_apart: "sorted_wrt (\<lambda>d d'. apart (splitOn slash (dc_Template d)) (splitOn slash (dc_Template d'))) routeTable"
  by code_simp

lemma matchIn_unambiguous:
  "sorted_wrt (\<lambda>d d'. apart (splitOn slash (dc_Template d)) (splitOn slash (dc_Template d'))) ds \<Longrightarrow>
    d \<in> set ds \<Longrightarrow> bindRoute lbl d path = Some rt \<Longrightarrow> matchIn lbl ds path = Some (rt, d)"
proof (induction ds)
  case (Cons e ds)
  show ?case
  proof (cases "e = d")
    case False
    then have "d \<in> set ds" using Cons.prems(2) by simp
    moreover have "bindRoute lbl e path = None"
      using Cons.prems(1,3) calculation apart_sound unfolding bindRoute_def by (cases "bindRoute lbl e path") (fastforce simp: bindRoute_def)+
    ultimately show ?thesis using Cons by simp
  qed (use Cons.prems in simp)
qed simp

lemma matchIn_Some: "matchIn lbl ds path = Some (rt, d) \<Longrightarrow> d \<in> set ds \<and> bindRoute lbl d path = Some rt"
  by (induction ds) (auto split: option.splits)

text \<open>
  C34: The order of the route table decides nothing: a path that a declaration of the table binds
  is matched to that declaration and no other.
\<close>

theorem routes_unambiguous:
  "matchRoute lbl path = Some (rt, d) \<longleftrightarrow> d \<in> set routeTable \<and> bindRoute lbl d path = Some rt"
  using matchIn_unambiguous [OF table_apart] matchIn_Some by (metis matchRoute_def)

lemma capture_kind: "capture lbl rt name v = Some rt' \<Longrightarrow> rt_kind rt' = rt_kind rt"
  by (auto simp: capture_def split: if_splits)

lemma bindParts_kind: "bindParts lbl rt parts segs = Some rt' \<Longrightarrow> rt_kind rt' = rt_kind rt"
proof (induction parts arbitrary: rt segs)
  case (Cons part parts)
  obtain seg rest where segs: "segs = seg # rest" using Cons.prems by (cases segs) auto
  show ?case
  proof (cases "isParam part")
    case False
    then show ?thesis using Cons.IH Cons.prems bindParts_literal(2) segs by metis
  next
    case True
    then obtain name where name: "cutPrefix ''{'' part = Some name" using not_isParam by auto
    show ?thesis
    proof (cases "trimSuffix name ''}'' = paramFile")
      case True
      then have "capture lbl rt paramFile (joinWith slash (seg # rest)) = Some rt'" using Cons.prems segs name by simp
      then show ?thesis by (rule capture_kind)
    next
      case False
      then obtain rt1 where "capture lbl rt (trimSuffix name ''}'') seg = Some rt1" "bindParts lbl rt1 parts rest = Some rt'"
        using Cons.prems segs name by (simp split: option.splits)
      then show ?thesis using Cons.IH capture_kind by metis
    qed
  qed
qed (simp split: if_splits)

lemma bindRoute_kind: "bindRoute lbl d path = Some rt \<Longrightarrow> rt_kind rt = dc_Kind d"
  unfolding bindRoute_def by (drule bindParts_kind) (simp add: emptyRoute_def)

section \<open>Paths and routes\<close>

text \<open>The path a declaration stands for at given values, and the route it should resolve to.\<close>

definition paramOf :: "string \<Rightarrow> string option" where
  "paramOf part = map_option (\<lambda>rest. trimSuffix rest ''}'') (cutPrefix ''{'' part)"

definition renderPath :: "(string \<Rightarrow> string) \<Rightarrow> routeDecl \<Rightarrow> string" where
  "renderPath v d = joinWith slash (map (\<lambda>part. case paramOf part of None \<Rightarrow> part | Some name \<Rightarrow> v name) (splitOn slash (dc_Template d)))"

definition namedRoute :: "(string \<Rightarrow> string) \<Rightarrow> routeDecl \<Rightarrow> route" where
  "namedRoute v d =
     (let has = (\<lambda>name. Some name \<in> set (map paramOf (splitOn slash (dc_Template d))));
          val = (\<lambda>name. if has name then v name else [])
      in \<lparr>rt_kind = dc_Kind d, rt_namespace = val paramNamespace, rt_service = val paramService,
          rt_profile = val paramProfile, rt_collection = val paramID\<rparr>)"

definition fillRoute :: "(string \<Rightarrow> string) \<Rightarrow> string list \<Rightarrow> route \<Rightarrow> route" where
  "fillRoute v parts rt =
     (let val = (\<lambda>name old. if Some name \<in> set (map paramOf parts) then v name else old)
      in rt\<lparr>rt_namespace := val paramNamespace (rt_namespace rt), rt_service := val paramService (rt_service rt),
            rt_profile := val paramProfile (rt_profile rt), rt_collection := val paramID (rt_collection rt)\<rparr>)"

definition namesOK :: "(string \<Rightarrow> bool) \<Rightarrow> (string \<Rightarrow> string) \<Rightarrow> bool" where
  "namesOK lbl v \<longleftrightarrow> lbl (v paramNamespace) \<and> lbl (v paramService) \<and> ValidID (v paramID) \<and>
     (\<forall>name \<in> {paramNamespace, paramService, paramProfile, paramID}. v name \<noteq> [] \<and> slash \<notin> set (v name))"

lemma params_distinct [simp]:
  "paramNamespace \<noteq> paramService" "paramNamespace \<noteq> paramProfile" "paramNamespace \<noteq> paramID" "paramNamespace \<noteq> paramFile"
  "paramService \<noteq> paramProfile" "paramService \<noteq> paramID" "paramService \<noteq> paramFile"
  "paramProfile \<noteq> paramID" "paramProfile \<noteq> paramFile" "paramID \<noteq> paramFile"
  by (simp_all add: params)

lemma fillRoute_Cons: "fillRoute v parts (fillRoute v [part] rt) = fillRoute v (part # parts) rt"
  by (simp add: fillRoute_def Let_def)

lemma bindParts_param:
  assumes "namesOK lbl v" and "paramOf part = Some name" and "name \<in> {paramNamespace, paramService, paramProfile, paramID}"
  shows "bindParts lbl rt (part # parts) (v name # segs) = bindParts lbl (fillRoute v [part] rt) parts segs"
proof -
  obtain rest where rest: "cutPrefix ''{'' part = Some rest" "trimSuffix rest ''}'' = name" using assms(2) by (auto simp: paramOf_def)
  have "capture lbl rt name (v name) = Some (fillRoute v [part] rt)"
    using assms(1,3) by (elim insertE) (simp_all add: capture_def namesOK_def fillRoute_def assms(2) params_distinct [symmetric])
  then show ?thesis using rest assms(3) by (auto simp: params_distinct [symmetric])
qed

lemma bindParts_fill:
  assumes "namesOK lbl v" and "\<forall>part \<in> set parts. paramOf part \<in> {None, Some paramNamespace, Some paramService, Some paramProfile, Some paramID}"
  shows "bindParts lbl rt parts (map (\<lambda>part. case paramOf part of None \<Rightarrow> part | Some name \<Rightarrow> v name) parts) = Some (fillRoute v parts rt)"
  using assms(2)
proof (induction parts arbitrary: rt)
  case Nil
  then show ?case by (simp add: fillRoute_def)
next
  case (Cons part parts)
  show ?case
  proof (cases "paramOf part")
    case None
    then show ?thesis using Cons by (simp add: paramOf_def fillRoute_def)
  next
    case (Some name)
    have "bindParts lbl rt (part # parts) (v name # segs) = bindParts lbl (fillRoute v [part] rt) parts segs" for segs
      using bindParts_param [OF assms(1) Some] Cons.prems Some by simp
    then show ?thesis using Cons Some by (simp add: fillRoute_Cons)
  qed
qed

lemma table_params:
  "\<forall>d \<in> set routeTable. dc_Kind d \<noteq> kindConsole \<longrightarrow>
     (\<forall>part \<in> set (splitOn slash (dc_Template d)). paramOf part \<in> {None, Some paramNamespace, Some paramService, Some paramProfile, Some paramID})"
  by code_simp

text \<open>
  C35: Every route of the API is reachable and reads back what its path was built from: the path a
  declaration gives for a namespace, a Service, a profile and an identifier within their grammars
  is matched to that declaration, with exactly those values.
\<close>

theorem path_roundtrip:
  assumes "d \<in> set routeTable" and "dc_Kind d \<noteq> kindConsole" and "namesOK lbl v"
  shows "matchRoute lbl (renderPath v d) = Some (namedRoute v d, d)"
proof -
  let ?sub = "\<lambda>part. case paramOf part of None \<Rightarrow> part | Some name \<Rightarrow> v name" and ?parts = "splitOn slash (dc_Template d)"
  have ps: "\<forall>part \<in> set ?parts. paramOf part \<in> {None, Some paramNamespace, Some paramService, Some paramProfile, Some paramID}"
    using table_params assms(1,2) by blast
  have "\<forall>p \<in> set (map ?sub ?parts). slash \<notin> set p"
    using ps assms(3) splitOn_parts by (fastforce simp: namesOK_def split: option.splits)
  then have "splitOn slash (renderPath v d) = map ?sub ?parts" unfolding renderPath_def by (intro split_join) simp_all
  then have "bindRoute lbl d (renderPath v d) = Some (fillRoute v ?parts (emptyRoute (dc_Kind d)))"
    using bindParts_fill [OF assms(3) ps] by (simp add: bindRoute_def)
  moreover have "fillRoute v ?parts (emptyRoute (dc_Kind d)) = namedRoute v d"
    by (simp add: fillRoute_def namedRoute_def emptyRoute_def Let_def)
  ultimately show ?thesis using assms(1) matchIn_unambiguous [OF table_apart] by (simp add: matchRoute_def)
qed

definition demo_naming :: "string \<Rightarrow> string" where
  "demo_naming name = (if name = paramID then replicate 20 CHR ''a'' else ''x'')"

lemma path_roundtrip_witness:
  "matchRoute (\<lambda>_. True) ''/v1/collections/aaaaaaaaaaaaaaaaaaaa/cancel'' =
     Some (\<lparr>rt_kind = kindCollectionCancel, rt_namespace = [], rt_service = [], rt_profile = [], rt_collection = ''aaaaaaaaaaaaaaaaaaaa''\<rparr>,
       decl ''/v1/collections/{id}/cancel'' kindCollectionCancel [MethodPost])"
proof -
  let ?d = "decl ''/v1/collections/{id}/cancel'' kindCollectionCancel [MethodPost]"
  have "?d \<in> set routeTable" by (simp add: routeTable_def)
  moreover have "namesOK (\<lambda>_. True) demo_naming" by code_simp
  ultimately have "matchRoute (\<lambda>_. True) (renderPath demo_naming ?d) = Some (namedRoute demo_naming ?d, ?d)" using path_roundtrip by simp
  moreover have "renderPath demo_naming ?d = ''/v1/collections/aaaaaaaaaaaaaaaaaaaa/cancel''" by code_simp
  moreover have "namedRoute demo_naming ?d = \<lparr>rt_kind = kindCollectionCancel, rt_namespace = [], rt_service = [], rt_profile = [], rt_collection = ''aaaaaaaaaaaaaaaaaaaa''\<rparr>"
    by code_simp
  ultimately show ?thesis by simp
qed

end
