(* ===== verification/Requests.thy ===== *)
theory Requests
  imports Handlers Routing
begin

text \<open>
  What the handlers read of a request (\<open>internal/httpapi\<close>): the error envelope (\<open>errors.go\<close>), the
  query string, the parameters of the targets and profile routes and the choice of a target
  (\<open>profile.go\<close>), the filters and counts of the targets body (\<open>server.go\<close>, \<open>targets.go\<close>), the
  listing's parameters with its cursor and the wait (\<open>pgo_collections.go\<close>), the placement of a
  credential (\<open>auth.go\<close>), and the ports the configuration admits (\<open>config.go\<close>).

  \<open>url.ParseQuery\<close> and base64 are written out.  The validators of the Kubernetes library, the
  RFC 3339 layout, \<open>time.ParseDuration\<close> and \<open>mime.ParseMediaType\<close> are arguments.  The message
  texts of the envelopes are not modelled; their codes, fields and order are.
\<close>

section \<open>Errors\<close>

record errorDetail =
  ed_Field :: string
  ed_Code :: string

record requestError =
  re_status :: nat
  re_code :: string
  re_auditCode :: string
  re_details :: "errorDetail list"
  re_bodyDeadline :: bool

definition detailUnknownParameter :: string where "detailUnknownParameter = ''unknown_parameter''"
definition detailRepeatedParameter :: string where "detailRepeatedParameter = ''repeated_parameter''"
definition detailEmptyParameter :: string where "detailEmptyParameter = ''empty_parameter''"
definition detailMalformedParameter :: string where "detailMalformedParameter = ''malformed_parameter''"
definition detailParameterNotApplicable :: string where "detailParameterNotApplicable = ''parameter_not_applicable''"
definition detailMutuallyExclusive :: string where "detailMutuallyExclusive = ''mutually_exclusive''"
definition detailHeaderRequired :: string where "detailHeaderRequired = ''header_required''"
definition detailHeaderMalformed :: string where "detailHeaderMalformed = ''header_malformed''"
definition detailNotAdmitted :: string where "detailNotAdmitted = ''not_admitted''"

definition plainError :: "nat \<Rightarrow> string \<Rightarrow> requestError" where
  "plainError status code = \<lparr>re_status = status, re_code = code, re_auditCode = [], re_details = [], re_bodyDeadline = False\<rparr>"

definition paramFault :: "string \<Rightarrow> string \<Rightarrow> errorDetail" where
  "paramFault code name = \<lparr>ed_Field = name, ed_Code = code\<rparr>"

definition headerFault :: "string \<Rightarrow> string \<Rightarrow> errorDetail" where
  "headerFault code name = \<lparr>ed_Field = name, ed_Code = code\<rparr>"

definition invalidParameterWith :: "errorDetail list \<Rightarrow> requestError" where
  "invalidParameterWith items = (plainError 400 ''invalid_parameter'')\<lparr>re_details := items\<rparr>"

definition methodNotAllowed :: requestError where "methodNotAllowed = plainError 405 ''method_not_allowed''"
definition errRouteUnknown :: requestError where "errRouteUnknown = plainError 404 ''route_unknown''"
definition errNotReady :: requestError where "errNotReady = plainError 503 ''not_ready''"

definition singleValue :: "string \<Rightarrow> string list \<Rightarrow> requestError option" where
  "singleValue name values =
     (if length values > 1 then Some (invalidParameterWith [paramFault detailRepeatedParameter name])
      else if values = [] \<or> hd values = [] then Some (invalidParameterWith [paramFault detailEmptyParameter name])
      else None)"

definition malformedParameter :: "string \<Rightarrow> requestError" where
  "malformedParameter name = invalidParameterWith [paramFault detailMalformedParameter name]"

definition unknownParameter :: "string \<Rightarrow> requestError" where
  "unknownParameter name = invalidParameterWith [paramFault detailUnknownParameter name]"

definition exclusiveSelection :: requestError where
  "exclusiveSelection = invalidParameterWith
     [paramFault detailMutuallyExclusive ''port'', paramFault detailMutuallyExclusive ''portName'']"

section \<open>The query string\<close>

text \<open>
  \<open>url.QueryUnescape\<close>, \<open>strings.Cut\<close> and \<open>url.ParseQuery\<close>.  A query of more than ten thousand
  parameters does not parse.
\<close>

definition unhex :: "char \<Rightarrow> nat option" where
  "unhex c =
     (if CHR ''0'' \<le> c \<and> c \<le> CHR ''9'' then Some (of_char c - 48)
      else if CHR ''a'' \<le> c \<and> c \<le> CHR ''f'' then Some (of_char c - 87)
      else if CHR ''A'' \<le> c \<and> c \<le> CHR ''F'' then Some (of_char c - 55)
      else None)"

fun queryUnescape :: "string \<Rightarrow> string option" where
  "queryUnescape [] = Some []"
| "queryUnescape (c # cs) =
     (if c = CHR ''%'' then
        (case cs of
           a # b # rest \<Rightarrow>
             (case (unhex a, unhex b) of
                (Some x, Some y) \<Rightarrow> map_option ((#) (char_of (16 * x + y))) (queryUnescape rest)
              | _ \<Rightarrow> None)
         | _ \<Rightarrow> None)
      else map_option ((#) (if c = CHR ''+'' then CHR '' '' else c)) (queryUnescape cs))"

definition cut :: "char \<Rightarrow> string \<Rightarrow> string \<times> string" where
  "cut c s = (case cutChar c s of None \<Rightarrow> (s, []) | Some (a, b) \<Rightarrow> (a, b))"

type_synonym url_values = "(string \<times> string list) list"

definition getValues :: "url_values \<Rightarrow> string \<Rightarrow> string list" where
  "getValues values key = (case map_of values key of None \<Rightarrow> [] | Some vs \<Rightarrow> vs)"

definition parsePair :: "string \<Rightarrow> (string \<times> string) option option" where
  "parsePair pair =
     (if CHR '';'' \<in> set pair then None
      else if pair = [] then Some None
      else case cut (CHR ''='') pair of (k, v) \<Rightarrow>
        (case (queryUnescape k, queryUnescape v) of
           (Some k', Some v') \<Rightarrow> Some (Some (k', v'))
         | _ \<Rightarrow> None))"

fun addPairs :: "string list \<Rightarrow> url_values \<Rightarrow> url_values option" where
  "addPairs [] m = Some m"
| "addPairs (pair # pairs) m =
     (case parsePair pair of
        None \<Rightarrow> None
      | Some None \<Rightarrow> addPairs pairs m
      | Some (Some (k, v)) \<Rightarrow> addPairs pairs (map_put k (getValues m k @ [v]) m))"

definition maxQueryParams :: int where "maxQueryParams = 10000"

definition parseQuery :: "string \<Rightarrow> url_values option" where
  "parseQuery query =
     (let pairs = splitOn (CHR ''&'') query
      in if int (length pairs) > maxQueryParams then None else addPairs pairs [])"

text \<open>\<open>slices.Sorted(maps.Keys(values))\<close> and the loop over it: the step answers an error or goes on.\<close>

definition sortedNames :: "('k::linorder \<times> 'v) list \<Rightarrow> 'k list" where
  "sortedNames m = sortFunc compare3 (map fst m)"

fun forKeys :: "('k \<Rightarrow> 's \<Rightarrow> 's \<times> 'e option) \<Rightarrow> 'k list \<Rightarrow> 's \<Rightarrow> 's \<times> 'e option" where
  "forKeys f [] s = (s, None)"
| "forKeys f (k # ks) s = (case f k s of (s', Some e) \<Rightarrow> (s', Some e) | (s', None) \<Rightarrow> forKeys f ks s')"

definition noParameters :: "string \<Rightarrow> requestError" where
  "noParameters rawQuery =
     (case parseQuery rawQuery of
        None \<Rightarrow> invalidParameterWith [paramFault detailMalformedParameter []]
      | Some values \<Rightarrow>
          if values = [] then invalidParameterWith [paramFault detailMalformedParameter []]
          else invalidParameterWith [paramFault detailUnknownParameter (Min (set (map fst values)))])"

definition accessTokenParam :: string where "accessTokenParam = ''access_token''"

text \<open>\<open>strings.FieldsFuncSeq\<close> at the two separators: the non-empty runs between them.\<close>

definition fieldsOf :: "string \<Rightarrow> string list" where
  "fieldsOf s = filter (\<lambda>f. f \<noteq> []) (concat (map (splitOn (CHR '';'')) (splitOn (CHR ''&'') s)))"

definition hasAccessToken :: "string \<Rightarrow> bool" where
  "hasAccessToken rawQuery \<longleftrightarrow> list_ex (\<lambda>pair.
     let key = fst (cut (CHR ''='') pair)
     in (case queryUnescape key of Some d \<Rightarrow> d | None \<Rightarrow> key) = accessTokenParam) (fieldsOf rawQuery)"

section \<open>Parameters of the interactive routes\<close>

definition maxSeconds :: int where "maxSeconds = 86400"
definition maxPort :: int where "maxPort = 65535"
definition strategyRandom :: string where "strategyRandom = ''random''"

definition parseSeconds :: "string \<Rightarrow> int option" where
  "parseSeconds s =
     (if \<not> list_all isDigit s then None
      else case atoi s of None \<Rightarrow> None | Some n \<Rightarrow> if n < 1 \<or> n > maxSeconds then None else Some n)"

definition parsePort :: "string \<Rightarrow> int option" where
  "parsePort s =
     (if \<not> list_all isDigit s then None
      else case atoi s of None \<Rightarrow> None | Some n \<Rightarrow> if n < 1 \<or> n > maxPort then None else Some n)"

text \<open>The validators of \<open>k8s.io/apimachinery\<close>, as predicates.\<close>

record validation =
  va_Subdomain :: "string \<Rightarrow> bool"
  va_PortName :: "string \<Rightarrow> bool"

record profileSpec =
  sp_name :: string
  sp_path :: string
  sp_takesSeconds :: bool
  sp_defaultSeconds :: int

abbreviation spec :: "string \<Rightarrow> string \<Rightarrow> bool \<Rightarrow> int \<Rightarrow> profileSpec" where
  "spec n p t d \<equiv> \<lparr>sp_name = n, sp_path = p, sp_takesSeconds = t, sp_defaultSeconds = d\<rparr>"

definition profileSpecs :: "profileSpec list" where
  "profileSpecs = [
     spec ''cpu'' ''/debug/pprof/profile'' True 30,
     spec ''trace'' ''/debug/pprof/trace'' True 1,
     spec ''heap'' ''/debug/pprof/heap'' False 0,
     spec ''allocs'' ''/debug/pprof/allocs'' False 0,
     spec ''goroutine'' ''/debug/pprof/goroutine'' False 0,
     spec ''mutex'' ''/debug/pprof/mutex'' False 0,
     spec ''block'' ''/debug/pprof/block'' False 0,
     spec ''threadcreate'' ''/debug/pprof/threadcreate'' False 0]"

definition lookupProfile :: "string \<Rightarrow> profileSpec option" where
  "lookupProfile name = find (\<lambda>sp. sp_name sp = name) profileSpecs"

record portParams =
  pp_sel :: PortSelection
  pp_sent :: string

definition noPort :: portParams where
  "noPort = \<lparr>pp_sel = \<lparr>ps_Port = 0, ps_PortName = []\<rparr>, pp_sent = []\<rparr>"

text \<open>One round of the loop of \<open>parsePortParams\<close>: the value of a key, and the map without it.\<close>

definition takeParam :: "string \<Rightarrow> url_values \<Rightarrow> requestError + string \<times> url_values" where
  "takeParam name values =
     (case map_of values name of
        None \<Rightarrow> Inr ([], values)
      | Some vs \<Rightarrow> (case singleValue name vs of Some perr \<Rightarrow> Inl perr | None \<Rightarrow> Inr (hd vs, map_del name values)))"

definition parsePortParams :: "validation \<Rightarrow> url_values \<Rightarrow> requestError + portParams \<times> url_values" where
  "parsePortParams va values =
     (case takeParam ''port'' values of
        Inl perr \<Rightarrow> Inl perr
      | Inr (port, values1) \<Rightarrow>
          (case takeParam ''portName'' values1 of
             Inl perr \<Rightarrow> Inl perr
           | Inr (name, values2) \<Rightarrow>
               if port \<noteq> [] \<and> name \<noteq> [] then Inl exclusiveSelection
               else if port \<noteq> [] then
                 (case parsePort port of
                    None \<Rightarrow> Inl (malformedParameter ''port'')
                  | Some n \<Rightarrow> Inr (\<lparr>pp_sel = \<lparr>ps_Port = n, ps_PortName = []\<rparr>, pp_sent = port\<rparr>, values2))
               else if name \<noteq> [] then
                 (if \<not> va_PortName va name then Inl (malformedParameter ''portName'')
                  else Inr (\<lparr>pp_sel = \<lparr>ps_Port = 0, ps_PortName = name\<rparr>, pp_sent = name\<rparr>, values2))
               else Inr (noPort, values2)))"

record targetsParams =
  tp_port :: portParams
  tp_version :: string
  tp_pod :: string
  tp_explain :: bool

text \<open>The selection alone, read out of a copy of the two keys.\<close>

definition targetsPortSelection :: "validation \<Rightarrow> url_values \<Rightarrow> portParams" where
  "targetsPortSelection va values =
     (let copied = List.map_filter (\<lambda>key. map_option (Pair key) (map_of values key)) [''port'', ''portName'']
      in case parsePortParams va copied of Inl _ \<Rightarrow> noPort | Inr (port, _) \<Rightarrow> port)"

text \<open>The loop's variables: the parameters, and the two values of the selection as sent.\<close>

definition targetsParam :: "validation \<Rightarrow> url_values \<Rightarrow> string \<Rightarrow> targetsParams \<times> string \<times> string
    \<Rightarrow> (targetsParams \<times> string \<times> string) \<times> requestError option" where
  "targetsParam va values key st =
     (case st of (params, port, name) \<Rightarrow>
        let vs = getValues values key; value = hd vs in
        case singleValue key vs of
          Some perr \<Rightarrow> (st, Some perr)
        | None \<Rightarrow>
            if key = ''explain'' then
              (if value = ''true'' then ((params\<lparr>tp_explain := True\<rparr>, port, name), None)
               else if value = ''false'' then (st, None)
               else (st, Some (malformedParameter ''explain'')))
            else if key = ''pod'' then
              ((params\<lparr>tp_pod := value\<rparr>, port, name), if va_Subdomain va value then None else Some (malformedParameter ''pod''))
            else if key = ''port'' then
              ((params, value, name), if parsePort value = None then Some (malformedParameter ''port'') else None)
            else if key = ''portName'' then
              ((params, port, value), if va_PortName va value then None else Some (malformedParameter ''portName''))
            else if key = ''version'' then ((params\<lparr>tp_version := value\<rparr>, port, name), None)
            else (st, Some (unknownParameter key)))"

definition parseTargetsParams :: "validation \<Rightarrow> url_values \<Rightarrow> targetsParams \<times> requestError option" where
  "parseTargetsParams va values =
     (let zero = \<lparr>tp_port = noPort, tp_version = [], tp_pod = [], tp_explain = False\<rparr>;
          (st, perr) = forKeys (targetsParam va values) (sortedNames values) (zero, [], []);
          (params, port, name) = st;
          params' = params\<lparr>tp_port := targetsPortSelection va values\<rparr>
      in (params', if perr = None \<and> port \<noteq> [] \<and> name \<noteq> [] then Some exclusiveSelection else perr))"

record profileParams =
  pf_seconds :: int
  pf_pod :: string
  pf_version :: string
  pf_port :: portParams

record LimitsConfig =
  lc_CPUSeconds :: int
  lc_TraceSeconds :: int
  lc_MaxConcurrentProfiles :: int

definition profileParam :: "validation \<Rightarrow> profileSpec \<Rightarrow> url_values \<Rightarrow> string \<Rightarrow> profileParams \<times> int
    \<Rightarrow> (profileParams \<times> int) \<times> requestError option" where
  "profileParam va sp values name st =
     (case st of (params, seconds) \<Rightarrow>
        let vs = getValues values name; value = hd vs in
        case singleValue name vs of
          Some perr \<Rightarrow> (st, Some perr)
        | None \<Rightarrow>
            if name = ''seconds'' then
              (if \<not> sp_takesSeconds sp then (st, Some (invalidParameterWith [paramFault detailParameterNotApplicable ''seconds'']))
               else case parseSeconds value of
                 None \<Rightarrow> (st, Some (malformedParameter ''seconds''))
               | Some n \<Rightarrow> ((params, n), None))
            else if name = ''pod'' then
              (if \<not> va_Subdomain va value then (st, Some (malformedParameter ''pod''))
               else ((params\<lparr>pf_pod := value\<rparr>, seconds), None))
            else if name = ''version'' then ((params\<lparr>pf_version := value\<rparr>, seconds), None)
            else if name = ''strategy'' then
              (if value \<noteq> strategyRandom then (st, Some (malformedParameter ''strategy'')) else (st, None))
            else (st, Some (unknownParameter name)))"

definition parseProfileParams :: "validation \<Rightarrow> profileSpec \<Rightarrow> LimitsConfig \<Rightarrow> url_values \<Rightarrow> profileParams \<times> requestError option" where
  "parseProfileParams va sp limits values =
     (let zero = \<lparr>pf_seconds = 0, pf_pod = [], pf_version = [], pf_port = noPort\<rparr> in
      case parsePortParams va values of
        Inl perr \<Rightarrow> (zero, Some perr)
      | Inr (port, rest) \<Rightarrow>
          (case forKeys (profileParam va sp rest) (sortedNames rest) (zero\<lparr>pf_port := port\<rparr>, 0) of
             ((params, _), Some perr) \<Rightarrow> (params, Some perr)
           | ((params, seconds), None) \<Rightarrow>
               if \<not> sp_takesSeconds sp then (params, None)
               else
                 let params' = params\<lparr>pf_seconds := (if seconds > 0 then seconds else sp_defaultSeconds sp)\<rparr>;
                     limit = (if sp_name sp = ''trace'' then lc_TraceSeconds limits else lc_CPUSeconds limits)
                 in if pf_seconds params' > limit then (params', Some (plainError 400 ''seconds_exceeds_limit''))
                    else (params', None)))"

text \<open>
  \<open>pick\<close>, the \<open>Choose\<close> of the handler, is the random source: it answers an index below its argument.
\<close>

definition selectTarget :: "(nat \<Rightarrow> nat) \<Rightarrow> Target list \<Rightarrow> profileParams \<Rightarrow> requestError + Target" where
  "selectTarget pick targets params =
     (let remaining = (if pf_version params \<noteq> [] then filter (\<lambda>t. tg_Version t = pf_version params) targets else targets)
      in if pf_pod params \<noteq> [] then
           (case find (\<lambda>t. tg_Pod t = pf_pod params) remaining of
              Some t \<Rightarrow> Inr t
            | None \<Rightarrow> Inl (plainError 404 ''pod_not_found''))
         else if remaining = [] then Inl (plainError 503 ''no_targets'')
         else Inr (remaining ! pick (length remaining)))"

section \<open>Admitted ports\<close>

datatype SelectionKind = SelectionPort | SelectionPortName

record Selection =
  sel_Kind :: SelectionKind
  sel_Value :: string

record PprofConfig =
  ppc_Port :: int
  ppc_PortName :: string
  ppc_AllowedSelections :: "Selection list"

definition AnySelection :: string where "AnySelection = ''*''"

definition AllowsPort :: "PprofConfig \<Rightarrow> int \<Rightarrow> bool" where
  "AllowsPort p n \<longleftrightarrow> ppc_Port p \<noteq> 0 \<and> n = ppc_Port p \<or>
     list_ex (\<lambda>sel. sel_Kind sel = SelectionPort \<and> (sel_Value sel = AnySelection \<or> sel_Value sel = showInt n)) (ppc_AllowedSelections p)"

definition AllowsPortName :: "PprofConfig \<Rightarrow> string \<Rightarrow> bool" where
  "AllowsPortName p name \<longleftrightarrow> ppc_PortName p \<noteq> [] \<and> name = ppc_PortName p \<or>
     list_ex (\<lambda>sel. sel_Kind sel = SelectionPortName \<and> (sel_Value sel = AnySelection \<or> sel_Value sel = name)) (ppc_AllowedSelections p)"

definition portNotAllowed :: "string \<Rightarrow> requestError" where
  "portNotAllowed field = (plainError 400 ''port_not_allowed'')\<lparr>re_details := [paramFault detailNotAdmitted field]\<rparr>"

definition allowPort :: "PprofConfig \<Rightarrow> portParams \<Rightarrow> requestError option" where
  "allowPort pprof port =
     (if ps_Port (pp_sel port) \<noteq> 0 \<and> \<not> AllowsPort pprof (ps_Port (pp_sel port)) then Some (portNotAllowed ''port'')
      else if ps_PortName (pp_sel port) \<noteq> [] \<and> \<not> AllowsPortName pprof (ps_PortName (pp_sel port)) then Some (portNotAllowed ''portName'')
      else None)"

section \<open>The targets body\<close>

text \<open>\<open>filterTargets\<close>: version, then Pod, and what each dropped.\<close>

definition filterByParams :: "Target list \<Rightarrow> targetsParams \<Rightarrow> Target list \<times> (exclusionReason \<times> nat) list" where
  "filterByParams targets params =
     (let byVersion = (if tp_version params \<noteq> [] then filter (\<lambda>t. tg_Version t = tp_version params) targets else targets);
          remaining = (if tp_pod params \<noteq> [] then filter (\<lambda>t. tg_Pod t = tp_pod params) byVersion else byVersion);
          counted = (\<lambda>r n. if n > 0 then [(r, n)] else [])
      in (remaining, counted ReasonVersionMismatch (length targets - length byVersion) @
                     counted ReasonPodNameMismatch (length byVersion - length remaining)))"

definition sumOf :: "'k \<Rightarrow> ('k \<times> nat) list \<Rightarrow> nat" where
  "sumOf k m = sum_list (map snd (filter (\<lambda>e. fst e = k) m))"

definition mergeExclusions :: "(exclusionReason \<times> nat) list \<Rightarrow> (exclusionReason \<times> nat) list \<Rightarrow> (exclusionReason \<times> nat) list" where
  "mergeExclusions seam filtered =
     List.map_filter (\<lambda>reason. let n = sumOf reason seam + sumOf reason filtered in if n > 0 then Some (reason, n) else None)
       exclusionReasons"

record targetView =
  tv_Pod :: string
  tv_Node :: string
  tv_Version :: string

definition targetViews :: "Target list \<Rightarrow> targetView list" where
  "targetViews targets = sortFunc (\<lambda>a b. compare3 (tv_Pod a) (tv_Pod b))
     (map (\<lambda>t. \<lparr>tv_Pod = tg_Pod t, tv_Node = tg_Node t, tv_Version = tg_Version t\<rparr>) targets)"

section \<open>The query string: facts\<close>

lemma forKeys_append: "forKeys f (ks @ ls) s = (case forKeys f ks s of (s', Some e) \<Rightarrow> (s', Some e) | (s', None) \<Rightarrow> forKeys f ls s')"
  by (induction ks arbitrary: s) (auto split: prod.splits option.splits)

text \<open>A loop whose verdict on a key does not depend on what the other keys left.\<close>

lemma forKeys_verdict:
  assumes "\<And>k s. snd (f k s) = g k"
  shows "snd (forKeys f ks s) = (case find (\<lambda>k. g k \<noteq> None) ks of None \<Rightarrow> None | Some k \<Rightarrow> g k)"
proof (induction ks arbitrary: s)
  case (Cons k ks)
  show ?case using Cons assms [of k s] by (cases "f k s"; cases "g k") auto
qed simp

lemma forKeys_field:
  assumes "\<And>k s. snd (f k s) = None \<Longrightarrow> get (fst (f k s)) = (if k = key then upd (get s) else get s)"
    and "snd (forKeys f ks s) = None" and "distinct ks"
  shows "get (fst (forKeys f ks s)) = (if key \<in> set ks then upd (get s) else get s)"
  using assms(2,3)
proof (induction ks arbitrary: s)
  case (Cons k ks)
  obtain s' where f: "f k s = (s', None)" using Cons.prems by (cases "f k s") (auto split: option.splits)
  have "get s' = (if k = key then upd (get s) else get s)" using assms(1) [of k s] f by simp
  then show ?case using Cons f by auto
qed simp

lemma set_sortedKeys [simp]: "set (sortedNames m) = fst ` set m"
  by (simp add: sortedNames_def)

lemma sortedNames_sorted: "sorted (sortedNames m)"
proof -
  have "sorted_wrt (\<lambda>a b. compare3 a b \<le> 0) (sortedNames m)" unfolding sortedNames_def by (rule sorted_sortFunc) simp
  then show ?thesis by (rule sorted_wrt_mono_rel [rotated]) (auto simp: compare3_def split: if_splits)
qed

lemma find_least:
  "sorted xs \<Longrightarrow> find P xs = Some x \<longleftrightarrow> x \<in> set xs \<and> P x \<and> (\<forall>y \<in> set xs. P y \<longrightarrow> x \<le> y)"
  by (induction xs) (auto simp: order_antisym)

lemma find_clear: "(case find (\<lambda>k. g k \<noteq> None) ks of None \<Rightarrow> None | Some k \<Rightarrow> g k) = None \<longleftrightarrow> (\<forall>k \<in> set ks. g k = None)"
  by (induction ks) auto

lemma forKeys_clear:
  assumes "\<And>k s. snd (f k s) = g k"
  shows "snd (forKeys f ks s) = None \<longleftrightarrow> (\<forall>k \<in> set ks. g k = None)"
  unfolding forKeys_verdict [OF assms] by (rule find_clear)

lemma addPairs_keys:
  "addPairs pairs m = Some m' \<Longrightarrow> k \<in> fst ` set m' \<Longrightarrow>
     k \<in> fst ` set m \<or> (\<exists>pair \<in> set pairs. \<exists>v. parsePair pair = Some (Some (k, v)))"
proof (induction pairs arbitrary: m)
  case (Cons pair pairs)
  show ?case
  proof (cases "parsePair pair")
    case (Some kv)
    show ?thesis
    proof (cases kv)
      case None
      then show ?thesis using Cons Some by auto
    next
      case (Some kv')
      obtain key v where kv: "kv' = (key, v)" by fastforce
      have "fst ` set (map_put key x m) = insert key (fst ` set m)" for x by (simp add: dom_update)
      then show ?thesis using Cons.IH [of "map_put key (getValues m key @ [v]) m"] Cons.prems \<open>parsePair pair = Some kv\<close> Some kv
        by auto
    qed
  qed (use Cons.prems in simp)
qed simp

lemma addPairs_wf: "addPairs pairs m = Some m' \<Longrightarrow> wf_map m \<Longrightarrow> wf_map m'"
  by (induction pairs arbitrary: m) (auto split: option.splits prod.splits)

lemma parseQuery_wf: "parseQuery query = Some values \<Longrightarrow> wf_map values"
  by (auto simp: parseQuery_def Let_def split: if_splits intro: addPairs_wf)

lemma splitOn_at: "splitOn c (a @ c # t) = splitOn c a @ splitOn c t"
proof (induction a)
  case (Cons y a)
  obtain p ps where "splitOn c a = p # ps" by (meson list.exhaust splitOn_nonempty)
  then show ?case using Cons by simp
qed simp

text \<open>The parts of a split are the stretches free of the separator that nothing but it bounds.\<close>

lemma splitOn_part_iff:
  "x \<in> set (splitOn c s) \<longleftrightarrow> (\<exists>before tail. s = before @ x @ tail \<and> c \<notin> set x \<and>
     (before = [] \<or> last before = c) \<and> (tail = [] \<or> hd tail = c))"
  (is "_ \<longleftrightarrow> ?part s")
proof
  assume "x \<in> set (splitOn c s)"
  then obtain ps qs where parts: "splitOn c s = ps @ x # qs" by (meson split_list)
  have j: "joinWith c (as @ bs) = joinWith c as @ c # joinWith c bs" if "as \<noteq> []" "bs \<noteq> []" for as bs
    using that by (induction c as rule: joinWith.induct) (auto simp: neq_Nil_conv)
  have one: "joinWith c (x # qs) = x @ (if qs = [] then [] else c # joinWith c qs)"
    using j [of "[x]" qs] by (cases qs) simp_all
  have "s = joinWith c (ps @ x # qs)" using join_split [of c s] parts by simp
  also have "\<dots> = (if ps = [] then [] else joinWith c ps @ [c]) @ x @ (if qs = [] then [] else c # joinWith c qs)"
    using j [of ps "x # qs"] by (simp add: one)
  finally show "?part s" using splitOn_parts [of x c s] parts
    by (intro exI [of _ "if ps = [] then [] else joinWith c ps @ [c]"] exI [of _ "if qs = [] then [] else c # joinWith c qs"]) auto
next
  assume "?part s"
  then obtain before tail where s: "s = before @ x @ tail" "c \<notin> set x" "before = [] \<or> last before = c" "tail = [] \<or> hd tail = c"
    by blast
  have here: "x \<in> set (splitOn c (x @ tail))" using s(2,4) by (cases tail) (auto simp: splitOn_free splitOn_append)
  show "x \<in> set (splitOn c s)"
  proof (cases before rule: rev_cases)
    case (snoc b y)
    then have "s = b @ c # x @ tail" using s(1,3) by simp
    then show ?thesis using here by (simp add: splitOn_at)
  qed (use here s(1) in simp)
qed

text \<open>So are the fields, at either separator.\<close>

lemma fieldsOf_iff:
  "x \<in> set (fieldsOf s) \<longleftrightarrow> x \<noteq> [] \<and> (\<exists>before tail. s = before @ x @ tail \<and> set x \<inter> {CHR ''&'', CHR '';''} = {} \<and>
     (before = [] \<or> last before \<in> {CHR ''&'', CHR '';''}) \<and> (tail = [] \<or> hd tail \<in> {CHR ''&'', CHR '';''}))"
proof -
  let ?amp = "CHR ''&''" and ?semi = "CHR '';''"
  have "(\<exists>part. part \<in> set (splitOn ?amp s) \<and> x \<in> set (splitOn ?semi part)) \<longleftrightarrow>
      (\<exists>before tail. s = before @ x @ tail \<and> set x \<inter> {?amp, ?semi} = {} \<and>
        (before = [] \<or> last before \<in> {?amp, ?semi}) \<and> (tail = [] \<or> hd tail \<in> {?amp, ?semi}))" (is "?l \<longleftrightarrow> ?r")
  proof
    assume ?l
    then obtain b1 t1 b2 t2 where s: "s = b1 @ (b2 @ x @ t2) @ t1" "?amp \<notin> set (b2 @ x @ t2)" "?semi \<notin> set x"
      "b1 = [] \<or> last b1 = ?amp" "t1 = [] \<or> hd t1 = ?amp" "b2 = [] \<or> last b2 = ?semi" "t2 = [] \<or> hd t2 = ?semi"
      unfolding splitOn_part_iff by blast
    have "b1 @ b2 = [] \<or> last (b1 @ b2) \<in> {?amp, ?semi}" using s(4,6) by (auto simp: last_append)
    moreover have "t2 @ t1 = [] \<or> hd (t2 @ t1) \<in> {?amp, ?semi}" using s(5,7) by (auto simp: hd_append)
    moreover have "s = (b1 @ b2) @ x @ (t2 @ t1)" "set x \<inter> {?amp, ?semi} = {}" using s(1-3) by auto
    ultimately show ?r by blast
  next
    assume ?r
    then obtain before tail where s: "s = before @ x @ tail" "set x \<inter> {?amp, ?semi} = {}"
      "before = [] \<or> last before \<in> {?amp, ?semi}" "tail = [] \<or> hd tail \<in> {?amp, ?semi}" by blast
    define b2 t2 where "b2 = rev (takeWhile (\<lambda>c. c \<noteq> ?amp) (rev before))" and "t2 = takeWhile (\<lambda>c. c \<noteq> ?amp) tail"
    define b1 t1 where "b1 = rev (dropWhile (\<lambda>c. c \<noteq> ?amp) (rev before))" and "t1 = dropWhile (\<lambda>c. c \<noteq> ?amp) tail"
    have whole: "before = b1 @ b2" "tail = t2 @ t1" unfolding b1_def b2_def t1_def t2_def by (simp_all flip: rev_append)
    have free: "?amp \<notin> set b2" "?amp \<notin> set t2" unfolding b2_def t2_def by (auto dest: set_takeWhileD)
    have ends: "b1 = [] \<or> last b1 = ?amp" "t1 = [] \<or> hd t1 = ?amp"
      unfolding b1_def t1_def using hd_dropWhile [of "\<lambda>c. c \<noteq> ?amp" "rev before"] hd_dropWhile [of "\<lambda>c. c \<noteq> ?amp" tail]
      by (auto simp: last_rev)
    have "b2 \<noteq> [] \<Longrightarrow> last b2 \<noteq> ?amp" "t2 \<noteq> [] \<Longrightarrow> hd t2 \<noteq> ?amp"
      using free last_in_set [of b2] hd_in_set [of t2] by metis+
    then have inner: "b2 = [] \<or> last b2 = ?semi" "t2 = [] \<or> hd t2 = ?semi"
      using s(3,4) whole by (auto simp: last_append hd_append split: if_splits)
    have "b2 @ x @ t2 \<in> set (splitOn ?amp s)"
      unfolding splitOn_part_iff using s(1,2) whole free ends by (intro exI [of _ b1] exI [of _ t1]) auto
    moreover have "x \<in> set (splitOn ?semi (b2 @ x @ t2))"
      unfolding splitOn_part_iff using s(2) inner by blast
    ultimately show ?l by blast
  qed
  then show ?thesis by (auto simp: fieldsOf_def)
qed

text \<open>How a query string can spell a name: each byte as it is, a space as a plus, or any byte as two hexadecimal digits.\<close>

inductive spells :: "string \<Rightarrow> string \<Rightarrow> bool" where
  spells_Nil: "spells [] []"
| spells_plain: "spells s d \<Longrightarrow> c \<noteq> CHR ''%'' \<Longrightarrow> c \<noteq> CHR ''+'' \<Longrightarrow> spells (c # s) (c # d)"
| spells_plus: "spells s d \<Longrightarrow> spells (CHR ''+'' # s) (CHR '' '' # d)"
| spells_hex: "spells s d \<Longrightarrow> unhex a = Some x \<Longrightarrow> unhex b = Some y \<Longrightarrow> spells (CHR ''%'' # a # b # s) (char_of (16 * x + y) # d)"

lemma queryUnescape_spells: "queryUnescape s = Some d \<longleftrightarrow> spells s d"
proof
  show "spells s d" if "queryUnescape s = Some d"
    using that by (induction s arbitrary: d rule: queryUnescape.induct)
      (auto intro: spells.intros split: if_splits list.splits option.splits)
  show "queryUnescape s = Some d" if "spells s d"
    using that by induction auto
qed

lemma unescape_same: "CHR ''%'' \<notin> set s \<Longrightarrow> CHR ''+'' \<notin> set s \<Longrightarrow> queryUnescape s = Some s"
  by (induction s) auto

lemma cut_iff: "fst (cut c s) = k \<longleftrightarrow> c \<notin> set k \<and> (\<exists>rest. s = k @ rest \<and> (rest = [] \<or> hd rest = c))"
proof (cases "cutChar c s")
  case None
  then have "cut c s = (s, [])" by (simp add: cut_def)
  moreover have "c \<notin> set s" using None cutChar_None [of c s] by blast
  moreover have "rest = []" if "s = k @ rest" "rest = [] \<or> hd rest = c" for rest
    using that \<open>c \<notin> set s\<close> by (cases rest) auto
  ultimately show ?thesis by auto
next
  case (Some ab)
  then obtain a b where s: "s = a @ c # b" "c \<notin> set a" and ab: "ab = (a, b)" by (metis cutChar_Some surj_pair)
  show ?thesis
  proof
    assume "fst (cut c s) = k"
    then show "c \<notin> set k \<and> (\<exists>rest. s = k @ rest \<and> (rest = [] \<or> hd rest = c))" using Some s ab by (auto simp: cut_def)
  next
    assume k: "c \<notin> set k \<and> (\<exists>rest. s = k @ rest \<and> (rest = [] \<or> hd rest = c))"
    then obtain b' where "s = k @ c # b'" using s by (metis append_Nil2 in_set_conv_decomp list.collapse)
    then have "cutChar c s = Some (k, b')" using k by (simp add: cutChar_Some)
    then show "fst (cut c s) = k" by (simp add: cut_def)
  qed
qed

text \<open>The keys of the fields: what stands from a separator to the next one or to an equals sign.\<close>

lemma field_key_iff:
  assumes "key \<noteq> []"
  shows "(\<exists>pair \<in> set (fieldsOf s). fst (cut (CHR ''='') pair) = key) \<longleftrightarrow>
    (\<exists>before tail. s = before @ key @ tail \<and> set key \<inter> {CHR ''&'', CHR '';'', CHR ''=''} = {} \<and>
       (before = [] \<or> last before \<in> {CHR ''&'', CHR '';''}) \<and> (tail = [] \<or> hd tail \<in> {CHR ''&'', CHR '';'', CHR ''=''}))" (is "?l \<longleftrightarrow> ?r")
proof
  let ?sep = "{CHR ''&'', CHR '';''}"
  assume ?l
  then obtain pair where pair: "pair \<in> set (fieldsOf s)" "fst (cut (CHR ''='') pair) = key" by blast
  obtain rest where rest: "pair = key @ rest" "CHR ''='' \<notin> set key" "rest = [] \<or> hd rest = CHR ''=''"
    using iffD1 [OF cut_iff pair(2)] by blast
  obtain before tail where s: "s = before @ pair @ tail" "set pair \<inter> ?sep = {}" "before = [] \<or> last before \<in> ?sep" "tail = [] \<or> hd tail \<in> ?sep"
    using iffD1 [OF fieldsOf_iff pair(1)] by blast
  have "rest @ tail = [] \<or> hd (rest @ tail) \<in> {CHR ''&'', CHR '';'', CHR ''=''}" using s(4) rest(3) by (auto simp: hd_append)
  moreover have "s = before @ key @ (rest @ tail)" "set key \<inter> {CHR ''&'', CHR '';'', CHR ''=''} = {}" using s(1,2) rest by auto
  ultimately show ?r using s(3) by blast
next
  let ?sep = "{CHR ''&'', CHR '';''}"
  assume ?r
  then obtain before tail where s: "s = before @ key @ tail" "set key \<inter> {CHR ''&'', CHR '';'', CHR ''=''} = {}"
    "before = [] \<or> last before \<in> ?sep" "tail = [] \<or> hd tail \<in> {CHR ''&'', CHR '';'', CHR ''=''}" by (elim exE conjE) (rule that)
  define rest tail' where "rest = takeWhile (\<lambda>c. c \<notin> ?sep) tail" and "tail' = dropWhile (\<lambda>c. c \<notin> ?sep) tail"
  have tail: "tail = rest @ tail'" by (simp add: rest_def tail'_def)
  have ends: "tail' = [] \<or> hd tail' \<in> ?sep" unfolding tail'_def using hd_dropWhile [of "\<lambda>c. c \<notin> ?sep" tail] by blast
  have free: "set rest \<inter> ?sep = {}" unfolding rest_def using set_takeWhileD by fast
  have "key @ rest \<in> set (fieldsOf s)"
    unfolding fieldsOf_iff using assms s(1-3) tail ends free by (intro conjI exI [of _ before] exI [of _ tail']) auto
  moreover have "rest = [] \<or> hd rest = CHR ''=''" using s(4) tail free by (cases rest) auto
  then have "fst (cut (CHR ''='') (key @ rest)) = key" unfolding cut_iff using s(2) by auto
  ultimately show ?l by blast
qed

text \<open>
  C29: The scan that refuses a token in the URL reports exactly the query strings that name
  \<open>access_token\<close>, whether or not they parse: those with a stretch that spells the name, each byte as
  it is or as two hexadecimal digits, that begins the string or follows an ampersand or a
  semicolon, and that ends the string or is followed by an ampersand, a semicolon or an equals sign.
\<close>

theorem access_token_seen:
  "hasAccessToken rawQuery \<longleftrightarrow>
     (\<exists>key. spells key ''access_token'' \<and>
        (\<exists>before tail. rawQuery = before @ key @ tail \<and> set key \<inter> {CHR ''&'', CHR '';'', CHR ''=''} = {} \<and>
           (before = [] \<or> last before \<in> {CHR ''&'', CHR '';''}) \<and> (tail = [] \<or> hd tail \<in> {CHR ''&'', CHR '';'', CHR ''=''})))" (is "_ \<longleftrightarrow> ?R")
proof -
  have same: "(case queryUnescape key of Some d \<Rightarrow> d | None \<Rightarrow> key) = accessTokenParam \<longleftrightarrow> spells key ''access_token''" for key
    using unescape_same [of "''access_token''"] by (auto simp: accessTokenParam_def queryUnescape_spells [symmetric] split: option.split)
  have some: "key \<noteq> []" if "spells key ''access_token''" for key using that by (auto elim: spells.cases)
  have "hasAccessToken rawQuery \<longleftrightarrow> (\<exists>key. spells key ''access_token'' \<and> (\<exists>pair \<in> set (fieldsOf rawQuery). fst (cut (CHR ''='') pair) = key))"
    by (auto simp: hasAccessToken_def list_ex_iff Let_def same)
  also have "\<dots> \<longleftrightarrow> ?R" by (intro arg_cong [of _ _ Ex] ext conj_cong refl field_key_iff some)
  finally show ?thesis .
qed

text \<open>So the scan misses no token the parser would have read, however its name was escaped.\<close>

lemma parsed_token_seen:
  assumes "parseQuery rawQuery = Some values" and "accessTokenParam \<in> fst ` set values"
  shows "hasAccessToken rawQuery"
proof -
  obtain pair v where pair: "pair \<in> set (splitOn (CHR ''&'') rawQuery)" "parsePair pair = Some (Some (accessTokenParam, v))"
    using addPairs_keys [of "splitOn (CHR ''&'') rawQuery" "[]" "values" accessTokenParam] assms
    by (auto simp: parseQuery_def Let_def split: if_splits)
  then have free: "CHR '';'' \<notin> set pair" "pair \<noteq> []" and key: "queryUnescape (fst (cut (CHR ''='') pair)) = Some accessTokenParam"
    by (auto simp: parsePair_def split: if_splits prod.splits option.splits)
  have "pair \<in> set (fieldsOf rawQuery)" using pair(1) free by (auto simp: fieldsOf_def splitOn_free intro!: bexI [of _ pair])
  then show ?thesis using key by (auto simp: hasAccessToken_def list_ex_iff Let_def intro!: bexI [of _ pair])
qed

section \<open>Numbers\<close>

lemma atoi_digits: "list_all isDigit s \<Longrightarrow> s \<noteq> [] \<Longrightarrow> atoi s = (if in_i64 (int (readNat s)) then Some (int (readNat s)) else None)"
proof (cases s)
  case (Cons c cs)
  assume "list_all isDigit s"
  then have "c \<noteq> CHR ''-''" "c \<noteq> CHR ''+''" using Cons by (auto simp: isDigit_def)
  then show ?thesis using Cons \<open>list_all isDigit s\<close> by (simp add: atoi_def Let_def)
qed simp

lemma atoi_empty [simp]: "atoi [] = None"
  by (simp add: atoi_def)

lemma parsePort_spec:
  "parsePort s = Some n \<longleftrightarrow> s \<noteq> [] \<and> list_all isDigit s \<and> n = int (readNat s) \<and> 1 \<le> n \<and> n \<le> maxPort"
  by (cases "s = []") (auto simp: parsePort_def atoi_digits maxPort_def in_i64_def split: option.splits if_splits)

lemma parseSeconds_spec:
  "parseSeconds s = Some n \<longleftrightarrow> s \<noteq> [] \<and> list_all isDigit s \<and> n = int (readNat s) \<and> 1 \<le> n \<and> n \<le> maxSeconds"
  by (cases "s = []") (auto simp: parseSeconds_def atoi_digits maxSeconds_def in_i64_def split: option.splits if_splits)

section \<open>The port selection\<close>

lemma takeParam_ok:
  "takeParam name m = Inr (v, m') \<longleftrightarrow>
     (map_of m name = None \<and> v = [] \<and> m' = m) \<or> (v \<noteq> [] \<and> map_of m name = Some [v] \<and> m' = map_del name m)"
proof (cases "map_of m name")
  case (Some vs)
  then show ?thesis
    by (cases vs rule: list.exhaust; cases "tl vs") (auto simp: takeParam_def singleValue_def)
qed (auto simp: takeParam_def)

definition selectionOK :: "validation \<Rightarrow> PortSelection \<Rightarrow> bool" where
  "selectionOK va sel \<longleftrightarrow>
     (ps_Port sel = 0 \<and> (ps_PortName sel = [] \<or> va_PortName va (ps_PortName sel))) \<or>
     (1 \<le> ps_Port sel \<and> ps_Port sel \<le> maxPort \<and> ps_PortName sel = [])"

lemma parsePortParams_cases:
  assumes "parsePortParams va m = Inr (port, rest)"
  shows "port = noPort \<or>
    (\<exists>n sent. port = \<lparr>pp_sel = \<lparr>ps_Port = n, ps_PortName = []\<rparr>, pp_sent = sent\<rparr> \<and> 1 \<le> n \<and> n \<le> maxPort \<and> sent \<noteq> []) \<or>
    (\<exists>name. port = \<lparr>pp_sel = \<lparr>ps_Port = 0, ps_PortName = name\<rparr>, pp_sent = name\<rparr> \<and> name \<noteq> [] \<and> va_PortName va name)"
proof -
  obtain p n m1 where t: "takeParam ''port'' m = Inr (p, m1)" "takeParam ''portName'' m1 = Inr (n, rest)"
    using assms by (auto simp: parsePortParams_def noPort_def split: sum.splits option.splits if_splits)
  show ?thesis using assms t by (auto simp: parsePortParams_def parsePort_spec split: if_splits option.splits)
qed

lemma parsePortParams_ok: "parsePortParams va m = Inr (port, rest) \<Longrightarrow> selectionOK va (pp_sel port)"
  by (drule parsePortParams_cases) (auto simp: selectionOK_def noPort_def)

text \<open>
  A selection that passes the parameters and the allowlist is one the operator admitted:
  nothing was sent, or a port number from 1 to 65535 that is the configured default or is listed,
  or a well-formed container port name that is the default or is listed; never both.
\<close>

theorem selection_admitted:
  assumes "parsePortParams va query = Inr (port, rest)" and "allowPort pprof port = None"
  shows "port = noPort \<or>
    (1 \<le> ps_Port (pp_sel port) \<and> ps_Port (pp_sel port) \<le> 65535 \<and> ps_PortName (pp_sel port) = [] \<and> AllowsPort pprof (ps_Port (pp_sel port))) \<or>
    (ps_Port (pp_sel port) = 0 \<and> va_PortName va (ps_PortName (pp_sel port)) \<and> AllowsPortName pprof (ps_PortName (pp_sel port)))"
  using parsePortParams_cases [OF assms(1)] assms(2) by (auto simp: allowPort_def maxPort_def split: if_splits)

definition demo_va :: validation where
  "demo_va = \<lparr>va_Subdomain = list_all echoChar, va_PortName = list_all echoChar\<rparr>"

definition demo_ports :: PprofConfig where
  "demo_ports = \<lparr>ppc_Port = 6, ppc_PortName = [], ppc_AllowedSelections = [\<lparr>sel_Kind = SelectionPort, sel_Value = ''9''\<rparr>]\<rparr>"

lemma selection_admitted_witness: "AllowsPort demo_ports 9 \<and> parsePort ''09'' = Some 9"
proof -
  let ?port = "\<lparr>pp_sel = \<lparr>ps_Port = 9, ps_PortName = []\<rparr>, pp_sent = ''09''\<rparr>"
  have "parsePortParams demo_va [(''port'', [''09''])] = Inr (?port, [])" by code_simp
  moreover have "allowPort demo_ports ?port = None" by code_simp
  ultimately have "AllowsPort demo_ports 9" using selection_admitted [of demo_va _ ?port "[]" demo_ports] by (force simp: noPort_def)
  then show ?thesis by simp code_simp
qed

section \<open>The targets query\<close>

text \<open>The grammar of one parameter of the targets route.\<close>

definition targetsOK :: "validation \<Rightarrow> string \<Rightarrow> string list \<Rightarrow> bool" where
  "targetsOK va key vs \<longleftrightarrow> length vs = 1 \<and> hd vs \<noteq> [] \<and>
     (key = ''explain'' \<and> hd vs \<in> {''true'', ''false''} \<or> key = ''pod'' \<and> va_Subdomain va (hd vs) \<or>
      key = ''port'' \<and> parsePort (hd vs) \<noteq> None \<or> key = ''portName'' \<and> va_PortName va (hd vs) \<or> key = ''version'')"

definition targetsFault :: "validation \<Rightarrow> url_values \<Rightarrow> string \<Rightarrow> requestError option" where
  "targetsFault va query key =
     snd (targetsParam va query key (\<lparr>tp_port = noPort, tp_version = [], tp_pod = [], tp_explain = False\<rparr>, [], []))"

lemma singleValue_None: "singleValue name vs = None \<longleftrightarrow> length vs = 1 \<and> hd vs \<noteq> []"
  by (cases vs) (auto simp: singleValue_def)

lemma targets_cases:
  obtains "key = ''explain''" | "key = ''pod''" | "key = ''port''" | "key = ''portName''" | "key = ''version''"
  | "key \<noteq> ''explain''" "key \<noteq> ''pod''" "key \<noteq> ''port''" "key \<noteq> ''portName''" "key \<noteq> ''version''"
  by blast

lemma targetsParam_fault: "snd (targetsParam va query key st) = targetsFault va query key"
  by (cases key rule: targets_cases; cases st; cases "singleValue key (getValues query key)")
    (simp_all add: targetsParam_def targetsFault_def Let_def)

lemma targetsFault_None: "targetsFault va query key = None \<longleftrightarrow> targetsOK va key (getValues query key)"
  using singleValue_None [of key "getValues query key"]
  by (cases key rule: targets_cases; cases "singleValue key (getValues query key)"; simp add: targetsFault_def targetsParam_def targetsOK_def Let_def)

lemma targetsParam_fields:
  assumes "snd (targetsParam va query key st) = None"
  shows "tp_explain (fst (fst (targetsParam va query key st))) = (if key = ''explain'' then tp_explain (fst st) \<or> hd (getValues query key) = ''true'' else tp_explain (fst st))"
    and "tp_pod (fst (fst (targetsParam va query key st))) = (if key = ''pod'' then hd (getValues query key) else tp_pod (fst st))"
    and "tp_version (fst (fst (targetsParam va query key st))) = (if key = ''version'' then hd (getValues query key) else tp_version (fst st))"
    and "fst (snd (fst (targetsParam va query key st))) = (if key = ''port'' then hd (getValues query key) else fst (snd st))"
    and "snd (snd (fst (targetsParam va query key st))) = (if key = ''portName'' then hd (getValues query key) else snd (snd st))"
  using assms by (cases key rule: targets_cases; cases st; cases "singleValue key (getValues query key)"; simp add: targetsParam_def Let_def split: if_splits)+

text \<open>The value a key was sent with, and the two keys that exclude each other.\<close>

definition valueOf :: "url_values \<Rightarrow> string \<Rightarrow> string" where
  "valueOf query key = (case map_of query key of None \<Rightarrow> [] | Some vs \<Rightarrow> hd vs)"

abbreviation has_key :: "url_values \<Rightarrow> string \<Rightarrow> bool" where
  "has_key query key \<equiv> key \<in> fst ` set query"

lemma valueOf_cases: "(if has_key query key then hd (getValues query key) else []) = valueOf query key"
  by (cases "map_of query key") (auto simp: valueOf_def getValues_def dom_map_of_conv_image_fst [symmetric])

abbreviation targetsLoop :: "validation \<Rightarrow> url_values \<Rightarrow> (targetsParams \<times> string \<times> string) \<times> requestError option" where
  "targetsLoop va query \<equiv> forKeys (targetsParam va query) (sortedNames query)
     (\<lparr>tp_port = noPort, tp_version = [], tp_pod = [], tp_explain = False\<rparr>, [], [])"

lemma distinct_sortedKeys [simp]: "distinct (sortedNames m) = wf_map m"
  by (simp add: sortedNames_def)

lemma targetsLoop_verdict:
  "snd (targetsLoop va query) = (case find (\<lambda>k. targetsFault va query k \<noteq> None) (sortedNames query) of None \<Rightarrow> None | Some k \<Rightarrow> targetsFault va query k)"
  by (rule forKeys_verdict) (rule targetsParam_fault)

lemma targetsLoop_fields:
  assumes "wf_map query" and "snd (targetsLoop va query) = None"
  shows "tp_explain (fst (fst (targetsLoop va query))) = (valueOf query ''explain'' = ''true'')"
    and "tp_pod (fst (fst (targetsLoop va query))) = valueOf query ''pod''"
    and "tp_version (fst (fst (targetsLoop va query))) = valueOf query ''version''"
    and "fst (snd (fst (targetsLoop va query))) = valueOf query ''port''"
    and "snd (snd (fst (targetsLoop va query))) = valueOf query ''portName''"
proof -
  note field = forKeys_field [OF _ assms(2), unfolded distinct_sortedKeys, OF _ assms(1)]
  show "tp_explain (fst (fst (targetsLoop va query))) = (valueOf query ''explain'' = ''true'')"
    using field [of "\<lambda>s. tp_explain (fst s)" "''explain''" "\<lambda>b. b \<or> hd (getValues query ''explain'') = ''true''"] targetsParam_fields(1)
    by (simp add: valueOf_cases [symmetric])
  show "tp_pod (fst (fst (targetsLoop va query))) = valueOf query ''pod''"
    using field [of "\<lambda>s. tp_pod (fst s)" "''pod''" "\<lambda>_. hd (getValues query ''pod'')"] targetsParam_fields(2)
    by (simp add: valueOf_cases [symmetric])
  show "tp_version (fst (fst (targetsLoop va query))) = valueOf query ''version''"
    using field [of "\<lambda>s. tp_version (fst s)" "''version''" "\<lambda>_. hd (getValues query ''version'')"] targetsParam_fields(3)
    by (simp add: valueOf_cases [symmetric])
  show "fst (snd (fst (targetsLoop va query))) = valueOf query ''port''"
    using field [of "\<lambda>s. fst (snd s)" "''port''" "\<lambda>_. hd (getValues query ''port'')"] targetsParam_fields(4)
    by (simp add: valueOf_cases [symmetric])
  show "snd (snd (fst (targetsLoop va query))) = valueOf query ''portName''"
    using field [of "\<lambda>s. snd (snd s)" "''portName''" "\<lambda>_. hd (getValues query ''portName'')"] targetsParam_fields(5)
    by (simp add: valueOf_cases [symmetric])
qed

lemma getValues_in: "wf_map query \<Longrightarrow> (k, vs) \<in> set query \<Longrightarrow> getValues query k = vs"
  by (simp add: getValues_def)

lemma targetsLoop_ok:
  assumes "wf_map query"
  shows "snd (targetsLoop va query) = None \<longleftrightarrow> (\<forall>(k, vs) \<in> set query. targetsOK va k vs)"
proof -
  have "snd (targetsLoop va query) = None \<longleftrightarrow> (\<forall>k \<in> set (sortedNames query). targetsFault va query k = None)"
    by (rule forKeys_clear) (rule targetsParam_fault)
  then show ?thesis using assms by (auto simp: targetsFault_None getValues_in)
qed

lemma value_sent:
  assumes "wf_map query" and "\<forall>(k, vs) \<in> set query. targetsOK va k vs"
  shows "valueOf query key \<noteq> [] \<longleftrightarrow> has_key query key"
proof -
  have "hd vs \<noteq> []" if "(key, vs) \<in> set query" for vs using assms(2) that by (auto simp: targetsOK_def)
  then show ?thesis using assms(1) by (auto simp: valueOf_cases [symmetric] getValues_in)
qed

text \<open>
  C30: The targets query is accepted exactly when every parameter is sent once, with a value in its
  grammar, and \<open>port\<close> does not stand beside \<open>portName\<close>; the answer then carries the values that
  were sent.  A refusal for a single parameter is the fault of the least faulty name, so it does
  not depend on the order the parameters came in.
\<close>

theorem targets_query_decides:
  assumes "wf_map query"
  shows "(snd (parseTargetsParams va query) = None \<longleftrightarrow>
      (\<forall>(k, vs) \<in> set query. targetsOK va k vs) \<and> \<not> (has_key query ''port'' \<and> has_key query ''portName'')) \<and>
    (snd (parseTargetsParams va query) = None \<longrightarrow> fst (parseTargetsParams va query) =
      \<lparr>tp_port = targetsPortSelection va query, tp_version = valueOf query ''version'', tp_pod = valueOf query ''pod'',
       tp_explain = (valueOf query ''explain'' = ''true'')\<rparr>) \<and>
    (\<forall>k \<in> fst ` set query. \<not> targetsOK va k (getValues query k) \<longrightarrow>
      (\<forall>k' \<in> fst ` set query. k' < k \<longrightarrow> targetsOK va k' (getValues query k')) \<longrightarrow>
      snd (parseTargetsParams va query) = targetsFault va query k)"
proof (intro conjI ballI impI)
  let ?loop = "targetsLoop va query"
  obtain params port name perr where loop: "?loop = ((params, port, name), perr)" by (metis prod.collapse)
  have parse: "parseTargetsParams va query = (params\<lparr>tp_port := targetsPortSelection va query\<rparr>,
      if perr = None \<and> port \<noteq> [] \<and> name \<noteq> [] then Some exclusiveSelection else perr)"
    by (simp add: parseTargetsParams_def loop Let_def)
  have ok: "perr = None \<longleftrightarrow> (\<forall>(k, vs) \<in> set query. targetsOK va k vs)" using targetsLoop_ok [OF assms, of va] loop by simp
  have fields: "tp_explain params = (valueOf query ''explain'' = ''true'')" "tp_pod params = valueOf query ''pod''"
    "tp_version params = valueOf query ''version''" "port = valueOf query ''port''" "name = valueOf query ''portName''" if "perr = None"
    using targetsLoop_fields [OF assms, of va] loop that by simp_all
  show "snd (parseTargetsParams va query) = None \<longleftrightarrow>
      (\<forall>(k, vs) \<in> set query. targetsOK va k vs) \<and> \<not> (has_key query ''port'' \<and> has_key query ''portName'')"
  proof (cases "perr = None")
    case True
    then show ?thesis using value_sent [OF assms, of va] ok fields(4,5) by (simp add: parse)
  next
    case False
    then show ?thesis unfolding ok [symmetric] by (auto simp: parse)
  qed
  show "fst (parseTargetsParams va query) =
      \<lparr>tp_port = targetsPortSelection va query, tp_version = valueOf query ''version'', tp_pod = valueOf query ''pod'',
       tp_explain = (valueOf query ''explain'' = ''true'')\<rparr>" if "snd (parseTargetsParams va query) = None"
    using that fields by (simp add: parse split: if_splits)
  show "snd (parseTargetsParams va query) = targetsFault va query k"
    if "k \<in> fst ` set query" and bad: "\<not> targetsOK va k (getValues query k)"
      and least: "\<forall>k' \<in> fst ` set query. k' < k \<longrightarrow> targetsOK va k' (getValues query k')" for k
  proof -
    have "\<forall>y \<in> set (sortedNames query). targetsFault va query y \<noteq> None \<longrightarrow> k \<le> y"
      using least by (auto simp: targetsFault_None not_le [symmetric])
    then have "find (\<lambda>k. targetsFault va query k \<noteq> None) (sortedNames query) = Some k"
      using that by (subst find_least [OF sortedNames_sorted]) (auto simp: targetsFault_None)
    then have "perr = targetsFault va query k" using targetsLoop_verdict [of va query] loop by simp
    then show ?thesis using bad by (simp add: parse targetsFault_None)
  qed
qed

lemma targets_query_decides_witness:
  "snd (parseTargetsParams demo_va [(''pod'', [''web'']), (''explain'', [''true''])]) = None \<and>
   fst (parseTargetsParams demo_va [(''pod'', [''web'']), (''explain'', [''true''])]) =
     \<lparr>tp_port = noPort, tp_version = [], tp_pod = ''web'', tp_explain = True\<rparr>"
proof -
  let ?q = "[(''pod'', [''web'']), (''explain'', [''true''])] :: url_values"
  have ok: "(\<forall>(k, vs) \<in> set ?q. targetsOK demo_va k vs)" by (simp add: targetsOK_def demo_va_def) code_simp
  have "targetsPortSelection demo_va ?q = noPort" by code_simp
  then show ?thesis using targets_query_decides [of ?q demo_va] ok by (simp add: valueOf_def)
qed

section \<open>The profile query\<close>

lemma forKeys_inv:
  assumes "\<And>k s. P s \<Longrightarrow> P (fst (f k s))" and "P s"
  shows "P (fst (forKeys f ks s))"
  using assms(2)
proof (induction ks arbitrary: s)
  case (Cons k ks)
  show ?case using Cons assms(1) [OF Cons.prems, of k] by (cases "f k s") (auto split: option.split)
qed simp

lemma profile_cases:
  obtains "name = ''seconds''" | "name = ''pod''" | "name = ''version''" | "name = ''strategy''"
  | "name \<noteq> ''seconds''" "name \<noteq> ''pod''" "name \<noteq> ''version''" "name \<noteq> ''strategy''"
  by blast

lemma profileParam_keeps:
  "pf_port (fst (fst (profileParam va sp query k s))) = pf_port (fst s)"
  "pf_seconds (fst (fst (profileParam va sp query k s))) = pf_seconds (fst s)"
  "0 \<le> snd s \<Longrightarrow> snd s \<le> maxSeconds \<Longrightarrow> 0 \<le> snd (fst (profileParam va sp query k s)) \<and> snd (fst (profileParam va sp query k s)) \<le> maxSeconds"
  by (cases k rule: profile_cases; cases s; cases "singleValue k (getValues query k)"; simp add: profileParam_def Let_def parseSeconds_spec split: option.split)+

lemma profileSpecs_defaults: "lookupProfile name = Some sp \<Longrightarrow>
   sp_name sp = name \<and> (if sp_takesSeconds sp then 1 \<le> sp_defaultSeconds sp \<and> sp_defaultSeconds sp \<le> maxSeconds else sp_defaultSeconds sp = 0)"
proof -
  assume "lookupProfile name = Some sp"
  then have "sp \<in> set profileSpecs" "sp_name sp = name" by (auto simp: lookupProfile_def find_Some_iff)
  moreover have "list_all (\<lambda>sp. if sp_takesSeconds sp then 1 \<le> sp_defaultSeconds sp \<and> sp_defaultSeconds sp \<le> maxSeconds else sp_defaultSeconds sp = 0) profileSpecs"
    by code_simp
  ultimately show ?thesis by (auto simp: list_all_iff)
qed

text \<open>
  An accepted profile query has a duration the operator allows: none for a profile that takes
  none, and otherwise from 1 second to the limit of that profile, the default included; and its
  port selection is well-formed.
\<close>

theorem profile_duration_bounded:
  assumes "lookupProfile name = Some sp" and "parseProfileParams va sp limits query = (params, None)"
  shows "(if sp_takesSeconds sp
      then 1 \<le> pf_seconds params \<and> pf_seconds params \<le> 86400 \<and>
        pf_seconds params \<le> (if name = ''trace'' then lc_TraceSeconds limits else lc_CPUSeconds limits)
      else pf_seconds params = 0) \<and>
    selectionOK va (pp_sel (pf_port params))"
proof -
  let ?zero = "\<lparr>pf_seconds = 0, pf_pod = [], pf_version = [], pf_port = noPort\<rparr>"
  obtain port rest where port: "parsePortParams va query = Inr (port, rest)"
    using assms(2) by (auto simp: parseProfileParams_def Let_def split: sum.splits)
  let ?loop = "forKeys (profileParam va sp rest) (sortedNames rest) (?zero\<lparr>pf_port := port\<rparr>, 0)"
  obtain p seconds where loop: "?loop = ((p, seconds), None)"
    using assms(2) port by (cases ?loop) (auto simp: parseProfileParams_def Let_def split: prod.splits option.splits)
  have "pf_port (fst (fst ?loop)) = port \<and> pf_seconds (fst (fst ?loop)) = 0 \<and> 0 \<le> snd (fst ?loop) \<and> snd (fst ?loop) \<le> maxSeconds"
    by (rule forKeys_inv [where P = "\<lambda>s. pf_port (fst s) = port \<and> pf_seconds (fst s) = 0 \<and> 0 \<le> snd s \<and> snd s \<le> maxSeconds"])
      (metis profileParam_keeps, simp add: maxSeconds_def)
  then have p: "pf_port p = port" "pf_seconds p = 0" "0 \<le> seconds" "seconds \<le> maxSeconds" using loop by simp_all
  show ?thesis
    using assms(2) port loop p profileSpecs_defaults [OF assms(1)] parsePortParams_ok [OF port]
    by (auto simp: parseProfileParams_def Let_def maxSeconds_def split: if_splits)
qed

definition demo_limits :: LimitsConfig where
  "demo_limits = \<lparr>lc_CPUSeconds = 60, lc_TraceSeconds = 60, lc_MaxConcurrentProfiles = 16\<rparr>"

lemma profile_duration_bounded_witness:
  "\<exists>params. parseProfileParams demo_va (spec ''trace'' ''/debug/pprof/trace'' True 1) demo_limits [(''seconds'', [''5''])] = (params, None) \<and>
     pf_seconds params = 5 \<and> pf_seconds params \<le> lc_TraceSeconds demo_limits"
proof -
  let ?sp = "spec ''trace'' ''/debug/pprof/trace'' True 1"
  let ?p = "\<lparr>pf_seconds = 5, pf_pod = [], pf_version = [], pf_port = noPort\<rparr>"
  have l: "lookupProfile ''trace'' = Some ?sp" by code_simp
  have p: "parseProfileParams demo_va ?sp demo_limits [(''seconds'', [''5''])] = (?p, None)" by code_simp
  show ?thesis using p profile_duration_bounded [OF l p] by (intro exI [of _ ?p]) simp
qed

section \<open>The choice of a target\<close>

definition askedFor :: "profileParams \<Rightarrow> Target \<Rightarrow> bool" where
  "askedFor params t \<longleftrightarrow> (pf_version params \<noteq> [] \<longrightarrow> tg_Version t = pf_version params) \<and> (pf_pod params \<noteq> [] \<longrightarrow> tg_Pod t = pf_pod params)"

text \<open>
  The selected target is one of the discovered ones and the one asked for.  The selection
  fails exactly when no discovered target is, with \<open>pod_not_found\<close> when a Pod was named and
  \<open>no_targets\<close> otherwise.
\<close>

theorem selectTarget_decides:
  assumes "\<And>n. n > 0 \<Longrightarrow> pick n < n"
  shows "case selectTarget pick targets params of
      Inr t \<Rightarrow> t \<in> set targets \<and> askedFor params t
    | Inl e \<Rightarrow> (\<forall>t \<in> set targets. \<not> askedFor params t) \<and>
        e = (if pf_pod params \<noteq> [] then plainError 404 ''pod_not_found'' else plainError 503 ''no_targets'')"
proof -
  define rem where "rem = (if pf_version params \<noteq> [] then filter (\<lambda>t. tg_Version t = pf_version params) targets else targets)"
  have rem: "t \<in> set rem \<longleftrightarrow> t \<in> set targets \<and> (pf_version params \<noteq> [] \<longrightarrow> tg_Version t = pf_version params)" for t
    by (auto simp: rem_def)
  have sel: "selectTarget pick targets params =
      (if pf_pod params \<noteq> [] then (case find (\<lambda>t. tg_Pod t = pf_pod params) rem of Some t \<Rightarrow> Inr t | None \<Rightarrow> Inl (plainError 404 ''pod_not_found''))
       else if rem = [] then Inl (plainError 503 ''no_targets'') else Inr (rem ! pick (length rem)))"
    by (simp add: selectTarget_def rem_def Let_def)
  show ?thesis
  proof (cases "pf_pod params = []")
    case True
    have none: "\<not> askedFor params t" if "rem = []" "t \<in> set targets" for t using rem [of t] that by (auto simp: askedFor_def)
    have "askedFor params t \<and> t \<in> set targets" if "t \<in> set rem" for t using rem [of t] that True by (simp add: askedFor_def)
    then show ?thesis using True none assms [of "length rem"] nth_mem [of "pick (length rem)" rem] by (auto simp: sel)
  next
    case False
    show ?thesis
    proof (cases "find (\<lambda>t. tg_Pod t = pf_pod params) rem")
      case None
      then have "\<forall>t \<in> set rem. tg_Pod t \<noteq> pf_pod params" by (auto simp: find_None_iff)
      then show ?thesis using None False rem by (auto simp: sel askedFor_def)
    next
      case (Some t)
      then have "t \<in> set rem" "tg_Pod t = pf_pod params" by (auto simp: find_Some_iff)
      then show ?thesis using Some False rem by (simp add: sel askedFor_def)
    qed
  qed
qed

definition demo_pod_at :: "string \<Rightarrow> string \<Rightarrow> Target" where
  "demo_pod_at pod version = \<lparr>tg_Namespace = ''ns'', tg_Service = ''svc'', tg_Pod = pod, tg_Node = ''n'', tg_PodIP = ''10.0.0.1'',
     tg_Port = 6060, tg_Version = version, tg_UID = pod\<rparr>"

lemma selectTarget_decides_witness:
  "\<exists>t. selectTarget (\<lambda>_. 0) [demo_pod_at ''a'' ''v1'', demo_pod_at ''b'' ''v2''] \<lparr>pf_seconds = 0, pf_pod = [], pf_version = ''v2'', pf_port = noPort\<rparr> = Inr t \<and>
     askedFor \<lparr>pf_seconds = 0, pf_pod = [], pf_version = ''v2'', pf_port = noPort\<rparr> t \<and> tg_Pod t = ''b''"
proof -
  let ?p = "\<lparr>pf_seconds = 0, pf_pod = [], pf_version = ''v2'', pf_port = noPort\<rparr>" and ?ts = "[demo_pod_at ''a'' ''v1'', demo_pod_at ''b'' ''v2'']"
  have "selectTarget (\<lambda>_. 0) ?ts ?p = Inr (demo_pod_at ''b'' ''v2'')" by (simp add: selectTarget_def demo_pod_at_def)
  then show ?thesis using selectTarget_decides [of "\<lambda>_. 0" ?ts ?p] by (simp add: demo_pod_at_def)
qed

section \<open>The explain body\<close>

lemma sum_list_once: "distinct ks \<Longrightarrow> k \<in> set ks \<Longrightarrow> sum_list (map (\<lambda>x. if x = k then n else 0) ks) = (n :: nat)"
  by (induction ks) (auto simp: sum_list_eq_0_iff)

lemma sum_filter_keys:
  assumes "distinct ks" and "fst ` set m \<subseteq> set ks"
  shows "sum_list (map (\<lambda>k. sumOf k m) ks) = sum_list (map snd m)"
  using assms(2)
proof (induction m)
  case Nil
  show ?case by (simp add: sumOf_def)
next
  case (Cons e m)
  have "sum_list (map (\<lambda>k. sumOf k (e # m)) ks) = sum_list (map (\<lambda>k. if k = fst e then snd e else 0) ks) + sum_list (map (\<lambda>k. sumOf k m) ks)"
    by (induction ks) (auto simp: sumOf_def)
  moreover have "sum_list (map (\<lambda>k. if k = fst e then snd e else 0) ks) = snd e"
    using sum_list_once [OF assms(1), of "fst e" "snd e"] Cons.prems by simp
  ultimately show ?case using Cons by simp
qed

lemma map_filter_positive: "sum_list (map snd (List.map_filter (\<lambda>r. if f r > 0 then Some (r, f r) else None) rs)) = (sum_list (map f rs) :: nat)"
  by (induction rs) (auto simp: map_filter_simps)

lemma map_filter_distinct: "distinct rs \<Longrightarrow> distinct (map fst (List.map_filter (\<lambda>r. if P r then Some (r, f r) else None) rs))"
  by (induction rs) (auto simp: map_filter_simps set_map_filter split: if_splits)

lemma mergeExclusions_sum: "sum_list (map snd (mergeExclusions seam filtered)) = sum_list (map snd seam) + sum_list (map snd filtered)"
  using sum_filter_keys [OF reasons_all(2), of seam] sum_filter_keys [OF reasons_all(2), of filtered]
    map_filter_positive [of "\<lambda>r. sumOf r seam + sumOf r filtered" exclusionReasons]
  unfolding mergeExclusions_def Let_def by (simp add: reasons_all(1) sum_list_addf)

lemma filterByParams_accounts:
  "length (fst (filterByParams targets params)) + sum_list (map snd (snd (filterByParams targets params))) = length targets"
proof -
  define byVersion where "byVersion = (if tp_version params \<noteq> [] then filter (\<lambda>t. tg_Version t = tp_version params) targets else targets)"
  define remaining where "remaining = (if tp_pod params \<noteq> [] then filter (\<lambda>t. tg_Pod t = tp_pod params) byVersion else byVersion)"
  have le: "length byVersion \<le> length targets" "length remaining \<le> length byVersion"
    unfolding remaining_def by (simp_all add: byVersion_def del: filter_filter)
  have "filterByParams targets params = (remaining,
      (if length targets - length byVersion > 0 then [(ReasonVersionMismatch, length targets - length byVersion)] else []) @
      (if length byVersion - length remaining > 0 then [(ReasonPodNameMismatch, length byVersion - length remaining)] else []))"
    by (simp add: filterByParams_def Let_def flip: byVersion_def remaining_def)
  then show ?thesis using le by simp
qed

text \<open>What the explain body carries, from the seam's answer.\<close>

definition explainCounts :: "Explanation \<Rightarrow> targetsParams \<Rightarrow> targetView list \<times> nat \<times> (exclusionReason \<times> nat) list" where
  "explainCounts ex params =
     (let (targets, filtered) = filterByParams (ex_Targets ex) params
      in (targetViews targets, ex_SelectorMatched ex, mergeExclusions (ex_Excluded ex) filtered))"

text \<open>
  C31: The body of \<open>targets?explain=true\<close> accounts for every Pod the selector matched, whatever the
  version and Pod filters drop: the targets it shows and the counts it gives add up to
  \<open>selectorMatched\<close>, every count is positive, no reason is given twice, and the targets shown are
  sorted by Pod name.
\<close>

theorem explain_body_accounts:
  assumes "lister_laws c ns" and "Explain c ns name sel = Inr ex" and "explainCounts ex params = (views, matched, excluded)"
  shows "matched = length views + sum_list (map snd excluded) \<and> (\<forall>(r, n) \<in> set excluded. 0 < n) \<and>
    distinct (map fst excluded) \<and> sorted_wrt (\<lambda>a b. tv_Pod a \<le> tv_Pod b) views"
proof -
  obtain targets filtered where f: "filterByParams (ex_Targets ex) params = (targets, filtered)" by fastforce
  have x: "views = targetViews targets" "matched = ex_SelectorMatched ex" "excluded = mergeExclusions (ex_Excluded ex) filtered"
    using assms(3) by (simp_all add: explainCounts_def f)
  have "matched = length views + sum_list (map snd excluded)"
    using Explain_accounts [OF assms(1,2)] filterByParams_accounts [of "ex_Targets ex" params] f
    by (simp add: x mergeExclusions_sum targetViews_def)
  moreover have "\<forall>(r, n) \<in> set excluded. 0 < n" by (auto simp: x mergeExclusions_def Let_def set_map_filter split: if_splits)
  moreover have "distinct (map fst excluded)"
    unfolding x mergeExclusions_def Let_def by (rule map_filter_distinct) (rule reasons_all(2))
  moreover have "sorted_wrt (\<lambda>a b. tv_Pod a \<le> tv_Pod b) views"
    unfolding x targetViews_def
    by (rule sorted_wrt_mono_rel [OF _ sorted_sortFunc [OF comparison_on [OF comparison_compare3]]]) (auto simp: compare3_def split: if_splits)
  ultimately show ?thesis by blast
qed

lemma explain_body_accounts_witness:
  "\<exists>ex. Explain demo_cluster ''ns'' ''svc'' demo_sel = Inr ex \<and>
    explainCounts ex \<lparr>tp_port = noPort, tp_version = ''2'', tp_pod = [], tp_explain = True\<rparr> =
      ([], 2, [(ReasonEndpointAddressConflict, 1), (ReasonVersionMismatch, 1)]) \<and> (2 :: nat) = sum_list [1, 1]"
proof -
  let ?p = "\<lparr>tp_port = noPort, tp_version = ''2'', tp_pod = [], tp_explain = True\<rparr>"
  obtain ex where ex: "Explain demo_cluster ''ns'' ''svc'' demo_sel = Inr ex" and counts:
    "explainCounts ex ?p = ([], 2, [(ReasonEndpointAddressConflict, 1), (ReasonVersionMismatch, 1)])"
    using demo_explain by (simp add: explainCounts_def filterByParams_def mergeExclusions_def targetViews_def exclusionReasons_def sumOf_def map_filter_simps)
  show ?thesis using ex counts explain_body_accounts [OF demo_laws ex counts] by auto
qed

end
