(* ===== verification/Listing.thy ===== *)
theory Listing
  imports Requests
begin

text \<open>
  The query of the Collection listing and of the wait (\<open>internal/httpapi/pgo_collections.go\<close>): the
  cursor a page hands out and the next request presents, the filters it was minted under, and the
  parameters of both routes.  \<open>timeLayout\<close> is the RFC 3339 formatting and parsing of the \<open>time\<close>
  package; base64 is written out.
\<close>

section \<open>base64\<close>

definition b64alphabet :: string where
  "b64alphabet = ''ABCDEFGHIJKLMNOPQRSTUVWXYZabcdefghijklmnopqrstuvwxyz0123456789-_''"

definition b64char :: "nat \<Rightarrow> char" where
  "b64char n = b64alphabet ! n"

definition b64val :: "char \<Rightarrow> nat option" where
  "b64val c = (if c \<in> set b64alphabet then Some (length (takeWhile (\<lambda>x. x \<noteq> c) b64alphabet)) else None)"

text \<open>\<open>base64.RawURLEncoding\<close>: no padding, the URL alphabet.\<close>

fun b64groups :: "nat list \<Rightarrow> nat list" where
  "b64groups [] = []"
| "b64groups [a] = [a div 4, a mod 4 * 16]"
| "b64groups [a, b] = [a div 4, a mod 4 * 16 + b div 16, b mod 16 * 4]"
| "b64groups (a # b # c # rest) = [a div 4, a mod 4 * 16 + b div 16, b mod 16 * 4 + c div 64, c mod 64] @ b64groups rest"

definition encodeToString :: "string \<Rightarrow> string" where
  "encodeToString s = map b64char (b64groups (map of_char s))"

fun b64bytes :: "nat list \<Rightarrow> nat list option" where
  "b64bytes [] = Some []"
| "b64bytes [x] = None"
| "b64bytes [x, y] = Some [x * 4 + y div 16]"
| "b64bytes [x, y, z] = Some [x * 4 + y div 16, y mod 16 * 16 + z div 4]"
| "b64bytes (x # y # z # w # rest) =
     map_option (\<lambda>bs. [x * 4 + y div 16, y mod 16 * 16 + z div 4, z mod 4 * 64 + w] @ bs) (b64bytes rest)"

text \<open>The decoder skips carriage returns and line feeds.\<close>

definition decodeString :: "string \<Rightarrow> string option" where
  "decodeString s =
     (let vals = map b64val (filter (\<lambda>c. c \<noteq> CHR 0x0A \<and> c \<noteq> CHR 0x0D) s)
      in if None \<in> set vals then None else map_option (map char_of) (b64bytes (map the vals)))"

section \<open>States, origins, filters\<close>

fun stateName :: "State \<Rightarrow> string" where
  "stateName StateInitializing = ''initializing''"
| "stateName StatePending = ''pending''"
| "stateName StateRunning = ''running''"
| "stateName StateCompleted = ''completed''"
| "stateName StateFailed = ''failed''"
| "stateName StateCancelled = ''cancelled''"
| "stateName StateExpired = ''expired''"
| "stateName (StateUnknown s) = s"

definition knownStates :: "State list" where
  "knownStates = [StateInitializing, StatePending, StateRunning, StateCompleted, StateFailed, StateCancelled, StateExpired]"

text \<open>The conversions \<open>pgo.State(name)\<close> and \<open>pgo.Origin(name)\<close>; the empty origin is none.\<close>

definition stateOf :: "string \<Rightarrow> State" where
  "stateOf name = (case find (\<lambda>st. stateName st = name) knownStates of Some st \<Rightarrow> st | None \<Rightarrow> StateUnknown name)"

definition collectionState :: "State \<Rightarrow> bool" where
  "collectionState st = List.member knownStates st"

fun originName :: "Origin option \<Rightarrow> string" where
  "originName None = []"
| "originName (Some OriginSchedule) = ''schedule''"
| "originName (Some OriginAPI) = ''api''"
| "originName (Some (OriginUnknown s)) = s"

definition originOf :: "string \<Rightarrow> Origin option" where
  "originOf name =
     (if name = [] then None else if name = ''schedule'' then Some OriginSchedule
      else if name = ''api'' then Some OriginAPI else Some (OriginUnknown name))"

text \<open>\<open>slices.Sorted(maps.Keys(met))\<close> of the states seen.\<close>

definition sortedStates :: "State list \<Rightarrow> State list" where
  "sortedStates met = sortFunc (\<lambda>a b. compare3 (stateName a) (stateName b)) (remdups met)"

record listFilters =
  lf_States :: "State list"
  lf_Since :: time
  lf_Origin :: "Origin option"

definition filters_equal :: "listFilters \<Rightarrow> listFilters \<Rightarrow> bool" where
  "filters_equal f g \<longleftrightarrow> lf_States f = lf_States g \<and> lf_Since f = lf_Since g \<and> lf_Origin f = lf_Origin g"

definition filtersOf :: "CollectionQuery \<Rightarrow> listFilters" where
  "filtersOf q = \<lparr>lf_States = q_States q, lf_Since = q_Since q, lf_Origin = q_Origin q\<rparr>"

section \<open>The cursor\<close>

text \<open>
  The formatting and the parsing of package \<open>time\<close> at the two layouts in use: \<open>RFC3339Nano\<close> for the
  fields of a cursor, \<open>RFC3339\<close> for the parameter \<open>since\<close>.
\<close>

record timeLayout =
  tl_format :: "time \<Rightarrow> string"
  tl_parse :: "string \<Rightarrow> time option"
  tl_parseRFC3339 :: "string \<Rightarrow> time option"

definition cursorVersion :: char where "cursorVersion = CHR ''1''"
definition cursorFields :: nat where "cursorFields = 5"

abbreviation newline :: char where "newline \<equiv> CHR 0x0A"
abbreviation comma :: char where "comma \<equiv> CHR '',''"

definition encodeCursor :: "timeLayout \<Rightarrow> CollectionPosition \<Rightarrow> listFilters \<Rightarrow> string" where
  "encodeCursor lay pos f = encodeToString (cursorVersion # joinWith newline [
     tl_format lay (pos_CreatedAt pos),
     pos_ID pos,
     joinWith comma (map stateName (lf_States f)),
     (if lf_Since f = zeroTime then [] else tl_format lay (lf_Since f)),
     originName (lf_Origin f)])"

definition decodeStates :: "string \<Rightarrow> State list option" where
  "decodeStates field =
     (if field = [] then Some []
      else let states = map stateOf (splitOn comma field)
           in if list_all collectionState states then Some (sortedStates states) else None)"

definition decodeCursor :: "timeLayout \<Rightarrow> string \<Rightarrow> (CollectionPosition \<times> listFilters) option" where
  "decodeCursor lay token =
     (case decodeString token of
        None \<Rightarrow> None
      | Some raw \<Rightarrow>
          if raw = [] \<or> hd raw \<noteq> cursorVersion then None
          else let fields = splitOn newline (tl raw) in
            if length fields \<noteq> cursorFields then None
            else case tl_parse lay (fields ! 0) of
              None \<Rightarrow> None
            | Some createdAt \<Rightarrow>
                if \<not> ValidID (fields ! 1) then None
                else case decodeStates (fields ! 2) of
                  None \<Rightarrow> None
                | Some states \<Rightarrow>
                    (case (if fields ! 3 = [] then Some zeroTime else tl_parse lay (fields ! 3)) of
                       None \<Rightarrow> None
                     | Some since \<Rightarrow>
                         let origin = originOf (fields ! 4) in
                         if origin \<noteq> None \<and> origin \<noteq> Some OriginSchedule \<and> origin \<noteq> Some OriginAPI then None
                         else Some (\<lparr>pos_CreatedAt = createdAt, pos_ID = fields ! 1\<rparr>,
                                    \<lparr>lf_States = states, lf_Since = since, lf_Origin = origin\<rparr>)))"

section \<open>The listing's query\<close>

fun parseStatesFrom :: "State list \<Rightarrow> string list \<Rightarrow> requestError + State list" where
  "parseStatesFrom met [] = Inr (sortedStates met)"
| "parseStatesFrom met (value # rest) =
     (case singleValue ''state'' [value] of
        Some perr \<Rightarrow> Inl perr
      | None \<Rightarrow> if \<not> collectionState (stateOf value) then Inl (malformedParameter ''state'')
                else parseStatesFrom (stateOf value # met) rest)"

definition parseStates :: "string list \<Rightarrow> requestError + State list" where
  "parseStates vs = parseStatesFrom [] vs"

type_synonym listState = "CollectionQuery \<times> (CollectionPosition \<times> listFilters) option"

text \<open>One round of the loop; the cursor's position and filters are there once a cursor was read.\<close>

definition listParam :: "timeLayout \<Rightarrow> url_values \<Rightarrow> string \<Rightarrow> listState \<Rightarrow> listState \<times> requestError option" where
  "listParam lay query name st =
     (case st of (q, paged) \<Rightarrow>
        let vs = getValues query name; value = hd vs in
        if name = ''state'' then
          (case parseStates vs of Inl perr \<Rightarrow> (st, Some perr) | Inr states \<Rightarrow> ((q\<lparr>q_States := states\<rparr>, paged), None))
        else case singleValue name vs of
          Some perr \<Rightarrow> (st, Some perr)
        | None \<Rightarrow>
            if name = ''cursor'' then
              (case decodeCursor lay value of
                 None \<Rightarrow> (st, Some (malformedParameter ''cursor''))
               | Some c \<Rightarrow> ((q, Some c), None))
            else if name = ''limit'' then
              (case atoi value of
                 None \<Rightarrow> (st, Some (malformedParameter ''limit''))
               | Some limit \<Rightarrow>
                   if limit < 1 \<or> limit > MaxListCollections then (st, Some (malformedParameter ''limit''))
                   else ((q\<lparr>q_Limit := limit\<rparr>, paged), None))
            else if name = ''origin'' then
              (let origin = originOf value in
               if origin \<noteq> Some OriginSchedule \<and> origin \<noteq> Some OriginAPI then (st, Some (malformedParameter ''origin''))
               else ((q\<lparr>q_Origin := origin\<rparr>, paged), None))
            else if name = ''since'' then
              (case tl_parseRFC3339 lay value of
                 None \<Rightarrow> (st, Some (malformedParameter ''since''))
               | Some since \<Rightarrow> ((q\<lparr>q_Since := since\<rparr>, paged), None))
            else (st, Some (unknownParameter name)))"

definition parseListValues :: "timeLayout \<Rightarrow> url_values \<Rightarrow> requestError + CollectionQuery" where
  "parseListValues lay query =
     (case forKeys (listParam lay query) (sortedNames query) (emptyQuery, None) of
        (_, Some perr) \<Rightarrow> Inl perr
      | ((q, None), None) \<Rightarrow> Inr q
      | ((q, Some (pos, minted)), None) \<Rightarrow>
          if \<not> filters_equal minted (filtersOf q) then Inl (malformedParameter ''cursor'')
          else Inr (q\<lparr>q_After := pos\<rparr>))"

definition parseCollectionList :: "timeLayout \<Rightarrow> string \<Rightarrow> requestError + CollectionQuery" where
  "parseCollectionList lay rawQuery =
     (if rawQuery = [] then Inr emptyQuery
      else case parseQuery rawQuery of
        None \<Rightarrow> Inl (invalidParameterWith [paramFault detailMalformedParameter []])
      | Some query \<Rightarrow> parseListValues lay query)"

section \<open>The wait\<close>

definition minWait :: duration where "minWait = second"
definition maxWait :: duration where "maxWait = minute"

definition waitParam :: "(string \<Rightarrow> duration option) \<Rightarrow> url_values \<Rightarrow> string \<Rightarrow> duration \<Rightarrow> duration \<times> requestError option" where
  "waitParam parseDuration query name wait =
     (let vs = getValues query name in
      case singleValue name vs of
        Some perr \<Rightarrow> (wait, Some perr)
      | None \<Rightarrow>
          if name \<noteq> ''wait'' then (wait, Some (unknownParameter name))
          else case parseDuration (hd vs) of
            None \<Rightarrow> (wait, Some (malformedParameter ''wait''))
          | Some d \<Rightarrow> if d < minWait \<or> d > maxWait then (wait, Some (malformedParameter ''wait'')) else (d, None))"

definition parseWait :: "(string \<Rightarrow> duration option) \<Rightarrow> string \<Rightarrow> requestError + duration" where
  "parseWait parseDuration rawQuery =
     (if rawQuery = [] then Inr 0
      else case parseQuery rawQuery of
        None \<Rightarrow> Inl (invalidParameterWith [paramFault detailMalformedParameter []])
      | Some query \<Rightarrow>
          (case forKeys (waitParam parseDuration query) (sortedNames query) 0 of
             (_, Some perr) \<Rightarrow> Inl perr
           | (wait, None) \<Rightarrow> Inr wait))"

section \<open>The media type of a write\<close>

definition mediaTypeFault :: "(string \<Rightarrow> string option) \<Rightarrow> string list \<Rightarrow> requestError option" where
  "mediaTypeFault parseMediaType vs = (case vs of
     [] \<Rightarrow> Some (invalidParameterWith [headerFault detailHeaderRequired ''Content-Type''])
   | [v] \<Rightarrow> if parseMediaType v \<noteq> Some ''application/json''
            then Some (invalidParameterWith [headerFault detailHeaderMalformed ''Content-Type'']) else None
   | _ \<Rightarrow> Some (invalidParameterWith [headerFault detailHeaderMalformed ''Content-Type'']))"

section \<open>Round trips\<close>

lemma b64alphabet_facts: "distinct b64alphabet" "length b64alphabet = 64" "CHR 0x0A \<notin> set b64alphabet" "CHR 0x0D \<notin> set b64alphabet"
  by code_simp+

lemma b64_inverse: "n < 64 \<Longrightarrow> b64val (b64char n) = Some n"
proof -
  assume n: "n < 64"
  then have "takeWhile (\<lambda>x. x \<noteq> b64alphabet ! n) b64alphabet = take n b64alphabet"
    using b64alphabet_facts(1,2) by (intro takeWhile_eq_take_P_nth) (auto simp: nth_eq_iff_index_eq)
  then show ?thesis using n b64alphabet_facts(2) by (simp add: b64val_def b64char_def)
qed

lemma b64groups_lt: "\<forall>b \<in> set bs. b < 256 \<Longrightarrow> \<forall>g \<in> set (b64groups bs). g < 64"
  by (induction bs rule: b64groups.induct) auto

lemma b64groups_Nil: "b64groups bs = [] \<longleftrightarrow> bs = []"
  by (cases bs rule: b64groups.cases) auto

lemma b64bytes_groups: "\<forall>b \<in> set bs. b < 256 \<Longrightarrow> b64bytes (b64groups bs) = Some bs"
proof (induction bs rule: b64groups.induct)
  case (2 a)
  then show ?case by simp
next
  case (3 a b)
  then have "b div 16 < 16" using less_mult_imp_div_less [of b 16 16] by simp
  then show ?case by simp
next
  case (4 a b c rest)
  then have "b div 16 < 16" "c div 64 < 4" using less_mult_imp_div_less [of b 16 16] less_mult_imp_div_less [of c 4 64] by simp_all
  then show ?case using 4 by simp
qed simp

lemma alphabet_printable: "n < 64 \<Longrightarrow> b64char n \<noteq> CHR 0x0A \<and> b64char n \<noteq> CHR 0x0D"
  using b64alphabet_facts(2-4) nth_mem [of n b64alphabet] unfolding b64char_def by metis

lemma base64_roundtrip: "decodeString (encodeToString s) = Some s"
proof -
  let ?bs = "map of_char s :: nat list"
  have lt: "\<forall>b \<in> set ?bs. b < 256" by (auto simp: nat_of_char_less_256)
  have gs: "\<forall>g \<in> set (b64groups ?bs). g < 64" by (rule b64groups_lt [OF lt])
  have "filter (\<lambda>c. c \<noteq> CHR 0x0A \<and> c \<noteq> CHR 0x0D) (encodeToString s) = encodeToString s"
    unfolding encodeToString_def using gs alphabet_printable by (auto simp: filter_id_conv)
  moreover have "map b64val (encodeToString s) = map Some (b64groups ?bs)"
    unfolding encodeToString_def using gs b64_inverse by simp
  ultimately show ?thesis using b64bytes_groups [OF lt] by (simp add: decodeString_def Let_def comp_def)
qed

lemma collectionState_known: "collectionState st \<longleftrightarrow> st \<in> set knownStates"
  by (simp add: collectionState_def List.member_iff)

lemma stateName_inj: "collectionState a \<Longrightarrow> collectionState b \<Longrightarrow> stateName a = stateName b \<Longrightarrow> a = b"
proof -
  have "\<forall>a \<in> set knownStates. \<forall>b \<in> set knownStates. stateName a = stateName b \<longrightarrow> a = b" by code_simp
  then show "collectionState a \<Longrightarrow> collectionState b \<Longrightarrow> stateName a = stateName b \<Longrightarrow> a = b" by (auto simp: collectionState_known)
qed

lemma stateOf_name: "collectionState st \<Longrightarrow> stateOf (stateName st) = st"
proof -
  have "\<forall>st \<in> set knownStates. stateOf (stateName st) = st" by code_simp
  then show "collectionState st \<Longrightarrow> stateOf (stateName st) = st" by (simp add: collectionState_known)
qed

lemma stateName_clean: "collectionState st \<Longrightarrow> stateName st \<noteq> [] \<and> comma \<notin> set (stateName st) \<and> newline \<notin> set (stateName st)"
proof -
  have "\<forall>st \<in> set knownStates. stateName st \<noteq> [] \<and> comma \<notin> set (stateName st) \<and> newline \<notin> set (stateName st)" by code_simp
  then show "collectionState st \<Longrightarrow> stateName st \<noteq> [] \<and> comma \<notin> set (stateName st) \<and> newline \<notin> set (stateName st)"
    by (simp add: collectionState_known)
qed

lemma set_sortedStates [simp]: "set (sortedStates met) = set met"
  by (simp add: sortedStates_def)

lemma distinct_sortedStates [simp]: "distinct (sortedStates met)"
  by (simp add: sortedStates_def)

lemma sorted_names: "sorted_wrt (\<lambda>a b. stateName a \<le> stateName b) (sortedStates met)"
  unfolding sortedStates_def
  by (rule sorted_wrt_mono_rel [OF _ sorted_sortFunc [OF comparison_on [OF comparison_compare3]]]) (auto simp: compare3_def split: if_splits)

text \<open>A filter as the parser leaves it: known states in name order, without repetition.\<close>

definition canonical :: "State list \<Rightarrow> bool" where
  "canonical states \<longleftrightarrow> list_all collectionState states \<and> sorted_wrt (\<lambda>a b. stateName a < stateName b) states"

lemma canonical_sortedStates:
  assumes "list_all collectionState met"
  shows "canonical (sortedStates met)"
proof -
  have "sorted_wrt (\<lambda>a b. stateName a \<le> stateName b \<and> a \<noteq> b) (sortedStates met)"
    using sorted_wrt_conj [OF sorted_names] distinct_sortedStates by (simp add: distinct_map_sorted_wrt [of id, simplified])
  moreover have "collectionState a" if "a \<in> set (sortedStates met)" for a using assms that by (auto simp: list_all_iff)
  ultimately have "sorted_wrt (\<lambda>a b. stateName a < stateName b) (sortedStates met)"
    by (elim sorted_wrt_mono_rel [rotated]) (metis order_less_le stateName_inj)
  then show ?thesis using assms by (simp add: canonical_def list_all_iff)
qed

lemma canonical_unique:
  assumes "canonical xs" and "canonical ys" and "set xs = set ys"
  shows "xs = ys"
proof -
  have "sorted_wrt (<) (map stateName xs)" "sorted_wrt (<) (map stateName ys)" using assms by (simp_all add: canonical_def sorted_wrt_map)
  then have "map stateName xs = map stateName ys" using assms(3) strict_sorted_equal by (metis image_set)
  moreover have "inj_on stateName (set xs \<union> set ys)"
    using assms by (auto simp: canonical_def list_all_iff intro!: inj_onI stateName_inj)
  ultimately show ?thesis by (simp add: inj_on_map_eq_map)
qed

lemma sortedStates_canonical: "canonical states \<Longrightarrow> sortedStates states = states"
  by (rule canonical_unique) (auto simp: canonical_sortedStates canonical_def [of states])

lemma decodeStates_join:
  assumes "canonical states"
  shows "decodeStates (joinWith comma (map stateName states)) = Some states"
proof (cases "states = []")
  case False
  have ok: "\<forall>st \<in> set states. collectionState st" using assms by (simp add: canonical_def list_all_iff)
  then have clean: "\<forall>p \<in> set (map stateName states). comma \<notin> set p" using stateName_clean by auto
  then have split: "splitOn comma (joinWith comma (map stateName states)) = map stateName states" using False by (intro split_join) auto
  have "joinWith comma (map stateName states) \<noteq> []"
    using False ok stateName_clean by (cases states) (auto simp: joinWith_Nil)
  moreover have "map stateOf (map stateName states) = states" using ok stateOf_name by (simp add: map_idI)
  ultimately show ?thesis using ok assms by (simp add: decodeStates_def split list_all_iff sortedStates_canonical)
qed (simp add: decodeStates_def)

text \<open>What is relied on of the layout, for the times RFC 3339 can write: years 1 to 9999.\<close>

definition writable :: "time \<Rightarrow> bool" where
  "writable t \<longleftrightarrow> zeroTime \<le> t \<and> t < 253402300800 * second"

definition layout_laws :: "timeLayout \<Rightarrow> bool" where
  "layout_laws lay \<longleftrightarrow> (\<forall>t. writable t \<longrightarrow>
     tl_parse lay (tl_format lay t) = Some t \<and> tl_format lay t \<noteq> [] \<and> newline \<notin> set (tl_format lay t))"

definition filters_ok :: "listFilters \<Rightarrow> bool" where
  "filters_ok f \<longleftrightarrow> canonical (lf_States f) \<and> writable (lf_Since f) \<and> lf_Origin f \<in> {None, Some OriginSchedule, Some OriginAPI}"

lemma joinWith_free: "\<forall>p \<in> set ps. c \<notin> set p \<Longrightarrow> c \<noteq> d \<Longrightarrow> c \<notin> set (joinWith d ps)"
  by (induction d ps rule: joinWith.induct) auto

lemma ValidID_no_newline: "ValidID i \<Longrightarrow> newline \<notin> set i"
proof -
  have "newline \<notin> set idAlphabet" by code_simp
  then show "ValidID i \<Longrightarrow> newline \<notin> set i" by (auto simp: ValidID_def isIDChar_def list_all_iff list_ex_iff)
qed

lemma cursor_read:
  assumes "layout_laws lay" and "writable (pos_CreatedAt pos)" and "ValidID (pos_ID pos)" and "filters_ok f"
  shows "decodeCursor lay (encodeCursor lay pos f) = Some (pos, f)"
proof -
  let ?since = "if lf_Since f = zeroTime then [] else tl_format lay (lf_Since f)"
  let ?fields = "[tl_format lay (pos_CreatedAt pos), pos_ID pos, joinWith comma (map stateName (lf_States f)), ?since, originName (lf_Origin f)]"
  have lay: "tl_parse lay (tl_format lay t) = Some t" "tl_format lay t \<noteq> []" "newline \<notin> set (tl_format lay t)" if "writable t" for t
    using assms(1) that by (simp_all add: layout_laws_def)
  have f: "canonical (lf_States f)" "writable (lf_Since f)" "lf_Origin f \<in> {None, Some OriginSchedule, Some OriginAPI}"
    using assms(4) by (simp_all add: filters_ok_def)
  have "newline \<notin> set (joinWith comma (map stateName (lf_States f)))"
    using f(1) stateName_clean by (intro joinWith_free) (auto simp: canonical_def list_all_iff)
  moreover have "newline \<notin> set (originName (lf_Origin f))" using f(3) by auto
  ultimately have "\<forall>p \<in> set ?fields. newline \<notin> set p" using lay assms(2) f(2) ValidID_no_newline [OF assms(3)] by simp
  then have fields: "splitOn newline (joinWith newline ?fields) = ?fields" by (intro split_join) auto
  have origin: "originOf (originName (lf_Origin f)) = lf_Origin f" using f(3) by (auto simp: originOf_def)
  have since: "(if ?since = [] then Some zeroTime else tl_parse lay ?since) = Some (lf_Since f)" using lay f(2) by simp
  have raw: "decodeString (encodeCursor lay pos f) = Some (cursorVersion # joinWith newline ?fields)"
    unfolding encodeCursor_def by (rule base64_roundtrip)
  show ?thesis
    unfolding decodeCursor_def raw option.case list.sel Let_def fields
    using assms(3) lay(1) [OF assms(2)] decodeStates_join [OF f(1)] since origin f(3)
    by (auto simp: cursorFields_def numeral_eq_Suc)
qed

definition demo_layout :: timeLayout where
  "demo_layout = \<lparr>tl_format = (\<lambda>t. (if t < 0 then CHR ''-'' else CHR ''+'') # showNat (nat (abs t))),
     tl_parse = (\<lambda>s. case s of [] \<Rightarrow> None | c # ds \<Rightarrow> Some (if c = CHR ''-'' then - int (readNat ds) else int (readNat ds))), tl_parseRFC3339 = (\<lambda>_. None)\<rparr>"

text \<open>
  A cursor reads back what it was minted from: the position of the last entry and the filters
  of the request, whichever replica reads it.
\<close>

theorem cursor_roundtrip:
  assumes "layout_laws lay" and "writable (pos_CreatedAt pos)" and "ValidID (pos_ID pos)" and "filters_ok f"
  shows "decodeCursor lay (encodeCursor lay pos f) = Some (pos, f)"
  using assms by (rule cursor_read)

lemma demo_layout_laws: "layout_laws demo_layout"
proof -
  have "newline \<notin> set (showNat n)" for n using showNat_digits [of n] by (auto simp: isDigit_def)
  then show ?thesis by (auto simp: layout_laws_def demo_layout_def readNat_showNat)
qed

definition demo_position :: CollectionPosition where
  "demo_position = \<lparr>pos_CreatedAt = 12, pos_ID = replicate 20 CHR ''a''\<rparr>"

definition demo_filters :: listFilters where
  "demo_filters = \<lparr>lf_States = [StateCompleted, StateRunning], lf_Since = zeroTime, lf_Origin = Some OriginAPI\<rparr>"

lemma demo_cursor: "writable (pos_CreatedAt demo_position)" "ValidID (pos_ID demo_position)" "filters_ok demo_filters"
proof -
  show "writable (pos_CreatedAt demo_position)" by (simp add: writable_def zeroTime_def second_def demo_position_def)
  show "ValidID (pos_ID demo_position)" by code_simp
  have "canonical [StateCompleted, StateRunning]" by code_simp
  then show "filters_ok demo_filters" by (simp add: filters_ok_def demo_filters_def writable_def zeroTime_def second_def)
qed

lemma cursor_roundtrip_witness:
  "decodeCursor demo_layout (encodeCursor demo_layout demo_position demo_filters) = Some (demo_position, demo_filters)"
  by (rule cursor_roundtrip [OF demo_layout_laws demo_cursor])

section \<open>Continuing a listing\<close>

lemma insertFunc_front: "\<forall>y \<in> set ys. cmp x y \<le> 0 \<Longrightarrow> insertFunc cmp x ys = x # ys"
  by (cases ys) auto

lemma list_cases:
  obtains "name = ''state''" | "name = ''cursor''" | "name = ''limit''" | "name = ''origin''" | "name = ''since''"
  | "name \<noteq> ''state''" "name \<noteq> ''cursor''" "name \<noteq> ''limit''" "name \<noteq> ''origin''" "name \<noteq> ''since''"
  by blast

definition listFault :: "timeLayout \<Rightarrow> url_values \<Rightarrow> string \<Rightarrow> requestError option" where
  "listFault lay query name = snd (listParam lay query name (emptyQuery, None))"

lemma listParam_fault: "snd (listParam lay query name st) = listFault lay query name"
  by (cases name rule: list_cases; cases st; cases "singleValue name (getValues query name)")
    (simp_all add: listParam_def listFault_def Let_def split: sum.split option.split)

definition otherNames :: "string list" where
  "otherNames = [''state'', ''limit'', ''origin'', ''since'']"

lemma listFault_known:
  assumes "listFault lay query name = None"
  shows "name = ''cursor'' \<or> name \<in> set otherNames"
  using assms
  by (cases name rule: list_cases; cases "singleValue name (getValues query name)") (simp_all add: listParam_def listFault_def otherNames_def Let_def)

lemma listParam_frame:
  assumes "name \<noteq> ''cursor''"
  shows "listParam lay ((''cursor'', vs) # query) name (q, p') =
    (case listParam lay query name (q, p) of ((q', _), e) \<Rightarrow> ((q', p'), e)) \<and> snd (fst (listParam lay query name (q, p))) = p"
proof -
  have "getValues ((''cursor'', vs) # query) name = getValues query name" using assms by (simp add: getValues_def)
  then show ?thesis using assms
    by (cases name rule: list_cases; cases "singleValue name (getValues query name)")
      (simp_all add: listParam_def Let_def split: sum.split option.split)
qed

lemma forKeys_frame:
  assumes "''cursor'' \<notin> set ks"
  shows "forKeys (listParam lay ((''cursor'', vs) # query)) ks (q, p') =
    (case forKeys (listParam lay query) ks (q, p) of ((q', _), e) \<Rightarrow> ((q', p'), e)) \<and> snd (fst (forKeys (listParam lay query) ks (q, p))) = p"
  using assms
proof (induction ks arbitrary: q)
  case (Cons k ks)
  obtain q1 e where step: "listParam lay query k (q, p) = ((q1, p), e)"
    using listParam_frame [of k lay vs query q p' p] Cons.prems by (cases "listParam lay query k (q, p)") auto
  then have step': "listParam lay ((''cursor'', vs) # query) k (q, p') = ((q1, p'), e)"
    using listParam_frame [of k lay vs query q p' p] Cons.prems by auto
  show ?case using Cons step step' by (cases e) simp_all
qed simp

lemma parseStatesFrom_canonical:
  "parseStatesFrom met vs = Inr states \<Longrightarrow> list_all collectionState met \<Longrightarrow> canonical states"
  by (induction vs arbitrary: met) (auto simp: canonical_sortedStates split: option.splits if_splits)

abbreviation query_ok :: "listState \<Rightarrow> bool" where
  "query_ok st \<equiv> canonical (q_States (fst st)) \<and> q_Origin (fst st) \<in> {None, Some OriginSchedule, Some OriginAPI}"

lemma listParam_ok: "query_ok st \<Longrightarrow> query_ok (fst (listParam lay query name st))"
  using parseStatesFrom_canonical [of "[]" "getValues query name"]
  by (cases name rule: list_cases; cases st; cases "singleValue name (getValues query name)")
    (auto simp: listParam_def parseStates_def Let_def split: sum.split option.split)

text \<open>
  C32: The cursor of a page continues the listing it was cut from: presented beside the same
  parameters it is accepted and the query is the same one from the page's last position on.
  Presented beside parameters that select other records it is refused.
\<close>

theorem cursor_continues_its_listing:
  assumes "layout_laws lay" and "\<not> has_key query ''cursor''" and "parseListValues lay query = Inr q"
    and "writable (pos_CreatedAt pos)" and "ValidID (pos_ID pos)" and "filters_ok f"
  shows "parseListValues lay ((''cursor'', [encodeCursor lay pos f]) # query) =
    (if f = filtersOf q then Inr (q\<lparr>q_After := pos\<rparr>) else Inl (malformedParameter ''cursor''))"
proof -
  let ?loop = "forKeys (listParam lay query) (sortedNames query) (emptyQuery, None)"
  let ?vs = "[encodeCursor lay pos f]"
  let ?query = "(''cursor'', ?vs) # query"
  have no: "''cursor'' \<notin> set (sortedNames query)" using assms(2) by simp
  have loop: "?loop = ((q, None), None)"
    using assms(3) forKeys_frame [OF no, of lay ?vs query emptyQuery None None] by (cases ?loop) (auto simp: parseListValues_def split: prod.splits option.splits)
  have "\<forall>k \<in> set (sortedNames query). listFault lay query k = None"
    using forKeys_clear [of "listParam lay query" "listFault lay query" "sortedNames query" "(emptyQuery, None)", OF listParam_fault] loop by simp
  then have "\<forall>k \<in> set (sortedNames query). k \<in> set otherNames" using listFault_known no by metis
  moreover have "\<forall>k \<in> set otherNames. compare3 ''cursor'' k \<le> 0" by code_simp
  ultimately have keys: "sortedNames ?query = ''cursor'' # sortedNames query"
    unfolding sortedNames_def list.map fst_conv sortFunc_simps by (intro insertFunc_front) blast
  have "encodeCursor lay pos f \<noteq> []" by (simp add: encodeCursor_def encodeToString_def b64groups_Nil)
  then have "singleValue ''cursor'' ?vs = None" by (simp add: singleValue_def)
  then have "listParam lay ?query ''cursor'' (emptyQuery, None) = ((emptyQuery, Some (pos, f)), None)"
    by (simp add: listParam_def getValues_def cursor_read [OF assms(1,4,5,6)])
  then have "forKeys (listParam lay ?query) (sortedNames ?query) (emptyQuery, None) = ((q, Some (pos, f)), None)"
    using forKeys_frame [OF no, of lay ?vs query emptyQuery "Some (pos, f)" None] loop by (simp add: keys)
  then show ?thesis by (auto simp: parseListValues_def filters_equal_def filtersOf_def)
qed

lemma cursor_continues_its_listing_witness:
  "parseListValues demo_layout [(''cursor'', [encodeCursor demo_layout demo_position demo_filters])] = Inl (malformedParameter ''cursor'')"
proof -
  have p: "parseListValues demo_layout [] = Inr emptyQuery" by (simp add: parseListValues_def sortedNames_def)
  show ?thesis
    using cursor_continues_its_listing [OF demo_layout_laws _ p demo_cursor] by (simp add: filtersOf_def demo_filters_def emptyQuery_def)
qed

lemma atoi_positive:
  "1 \<le> n \<Longrightarrow> atoi s = Some n \<longleftrightarrow> in_i64 n \<and> (\<exists>sign ds. sign \<in> {[], ''+''} \<and> s = sign @ ds \<and> ds \<noteq> [] \<and> list_all isDigit ds \<and> n = int (readNat ds))"
proof (cases s)
  case (Cons c cs)
  assume n: "1 \<le> n"
  have "isDigit c \<Longrightarrow> c \<noteq> CHR ''-'' \<and> c \<noteq> CHR ''+''" by (auto simp: isDigit_def)
  then show ?thesis using Cons n by (cases "c = CHR ''-''"; cases "c = CHR ''+''") (auto simp: atoi_def Let_def Cons_eq_append_conv)
qed (simp add: atoi_def)

lemma limit_field:
  assumes "snd (listParam lay query name st) = None"
  shows "q_Limit (fst (fst (listParam lay query name st))) =
    (if name = ''limit'' then the (atoi (hd (getValues query ''limit''))) else q_Limit (fst st))"
  using assms
  by (cases name rule: list_cases; cases st; cases "singleValue name (getValues query name)")
    (auto simp: listParam_def Let_def split: sum.splits option.splits if_splits)

lemma limit_fault:
  "listFault lay query ''limit'' = None \<longleftrightarrow> (\<exists>v n. getValues query ''limit'' = [v] \<and> v \<noteq> [] \<and> atoi v = Some n \<and> 1 \<le> n \<and> n \<le> 100)"
  by (cases "getValues query ''limit''")
    (auto simp: listFault_def listParam_def singleValue_def MaxListCollections_def Let_def split: option.split)

lemma limit_accepted:
  assumes "wf_map query" and "parseListValues lay query = Inr q"
  shows "case map_of query ''limit'' of
        None \<Rightarrow> q_Limit q = 0
      | Some vs \<Rightarrow> \<exists>sign ds. sign \<in> {[], ''+''} \<and> vs = [sign @ ds] \<and> ds \<noteq> [] \<and> list_all isDigit ds \<and>
          q_Limit q = int (readNat ds) \<and> 1 \<le> q_Limit q \<and> q_Limit q \<le> 100"
proof -
  let ?loop = "forKeys (listParam lay query) (sortedNames query) (emptyQuery, None)"
  have ok: "snd ?loop = None" and lim: "q_Limit q = q_Limit (fst (fst ?loop))"
    using assms(2) by (auto simp: parseListValues_def split: prod.splits option.splits if_splits)
  have field: "q_Limit (fst (fst ?loop)) = (if ''limit'' \<in> fst ` set query then the (atoi (hd (getValues query ''limit''))) else 0)"
    using forKeys_field [where get = "\<lambda>st. q_Limit (fst st)" and key = "''limit''" and upd = "\<lambda>_. the (atoi (hd (getValues query ''limit'')))", OF limit_field ok]
    by (simp add: assms(1) emptyQuery_def)
  have faults: "\<forall>k \<in> fst ` set query. listFault lay query k = None"
    using forKeys_clear [of "listParam lay query" "listFault lay query" "sortedNames query" "(emptyQuery, None)", OF listParam_fault] ok by simp
  show ?thesis
  proof (cases "map_of query ''limit''")
    case None
    then have "''limit'' \<notin> fst ` set query" by (simp add: map_of_eq_None_iff)
    then show ?thesis using None lim field by simp
  next
    case (Some vs)
    then have here: "''limit'' \<in> fst ` set query" by (metis map_of_eq_None_iff option.distinct(1))
    then obtain v n where v: "getValues query ''limit'' = [v]" "atoi v = Some n" "1 \<le> n" "n \<le> 100"
      using faults limit_fault by blast
    have "vs = [v]" using v(1) Some by (simp add: getValues_def)
    moreover have "q_Limit q = n" using lim field here v by simp
    ultimately show ?thesis using Some v(2-4) atoi_positive [OF v(3), of v] by auto
  qed
qed

text \<open>
  C33: The limit of a listing is a decimal integer from 1 to 100, with or without a plus sign.
  A query that is accepted has no \<open>limit\<close>, and then no limit of its own, or has one of that form,
  and its value is the query's limit; and every text of that form, alone, is accepted.  The grammar the
  API states has no sign; the port and the duration of a profile refuse one before any digits.
\<close>

theorem limit_decides:
  "(wf_map query \<longrightarrow> parseListValues lay query = Inr q \<longrightarrow>
     (case map_of query ''limit'' of
        None \<Rightarrow> q_Limit q = 0
      | Some vs \<Rightarrow> \<exists>sign ds. sign \<in> {[], ''+''} \<and> vs = [sign @ ds] \<and> ds \<noteq> [] \<and> list_all isDigit ds \<and>
          q_Limit q = int (readNat ds) \<and> 1 \<le> q_Limit q \<and> q_Limit q \<le> 100)) \<and>
   (\<forall>sign ds. sign \<in> {[], ''+''} \<and> ds \<noteq> [] \<and> list_all isDigit ds \<and> 1 \<le> readNat ds \<and> readNat ds \<le> 100 \<longrightarrow>
     parseListValues lay [(''limit'', [sign @ ds])] = Inr (emptyQuery\<lparr>q_Limit := int (readNat ds)\<rparr>)) \<and>
   (\<forall>ds. parsePort (''+'' @ ds) = None \<and> parseSeconds (''+'' @ ds) = None)"
proof (intro conjI impI allI limit_accepted)
  fix sign ds
  assume form: "sign \<in> {[], ''+''} \<and> ds \<noteq> [] \<and> list_all isDigit ds \<and> 1 \<le> readNat ds \<and> readNat ds \<le> 100"
  then have "atoi (sign @ ds) = Some (int (readNat ds))" by (subst atoi_positive) (auto simp: in_i64_def)
  then show "parseListValues lay [(''limit'', [sign @ ds])] = Inr (emptyQuery\<lparr>q_Limit := int (readNat ds)\<rparr>)"
    using form by (simp add: parseListValues_def sortedNames_def listParam_def getValues_def singleValue_def MaxListCollections_def)
next
  fix ds
  show "parsePort (''+'' @ ds) = None" "parseSeconds (''+'' @ ds) = None"
    by (simp_all add: parsePort_def parseSeconds_def isDigit_def)
qed

lemma limit_decides_witness:
  "parseListValues demo_layout [(''limit'', [''+5''])] = Inr (emptyQuery\<lparr>q_Limit := 5\<rparr>) \<and>
   parseListValues demo_layout [(''limit'', [''0''])] \<noteq> Inr emptyQuery"
proof -
  have five: "list_all isDigit ''5''" "readNat ''5'' = 5" by code_simp+
  have "parseListValues demo_layout [(''limit'', [''+'' @ ''5''])] = Inr (emptyQuery\<lparr>q_Limit := int (readNat ''5'')\<rparr>)"
    using limit_decides [of "[]" demo_layout emptyQuery, THEN conjunct2, THEN conjunct1, rule_format, of "''+''" "''5''"] five by simp
  moreover have "parseListValues demo_layout [(''limit'', [''0''])] \<noteq> Inr emptyQuery"
    using limit_decides [of "[(''limit'', [''0''])]" demo_layout emptyQuery, THEN conjunct1] by (auto simp: emptyQuery_def)
  ultimately show ?thesis using five by simp
qed

text \<open>
  A wait that is accepted is between one second and one minute, or none was asked for.
\<close>

theorem wait_bounded:
  assumes "parseWait parseDuration rawQuery = Inr wait"
  shows "wait = 0 \<or> second \<le> wait \<and> wait \<le> minute"
proof (cases "rawQuery = []")
  case False
  then obtain query where q: "parseQuery rawQuery = Some query" "fst (forKeys (waitParam parseDuration query) (sortedNames query) 0) = wait"
    using assms by (auto simp: parseWait_def split: option.splits prod.splits)
  have "fst (forKeys (waitParam parseDuration query) ks 0) = 0 \<or> second \<le> fst (forKeys (waitParam parseDuration query) ks 0) \<and>
      fst (forKeys (waitParam parseDuration query) ks 0) \<le> minute" for ks
    by (rule forKeys_inv [where P = "\<lambda>w. w = 0 \<or> second \<le> w \<and> w \<le> minute"])
      (auto simp: waitParam_def minWait_def maxWait_def Let_def split: option.split)
  from this [of "sortedNames query"] show ?thesis unfolding q(2) .
qed (use assms in \<open>simp add: parseWait_def\<close>)

end
