(* ===== verification/Gateway.thy ===== *)
theory Gateway
  imports Listing
begin

text \<open>
  The request algorithm (\<open>internal/httpapi/server.go\<close>) from the path to the answer: routing, method,
  media type, readiness, PGO session, placement of the credential, authentication (\<open>auth.go\<close>),
  realm, the listing routes (\<open>listing.go\<close>), parameters, allowlist, discovery, admission
  (\<open>internal/admit\<close>), confirmation and the upstream fetch (\<open>internal/proxy\<close>), with the audit record
  and the metrics labels of each request.  The PGO routes run the programs of \<open>Handlers\<close>.

  The Authenticator, the browser-login routes and the console are the interfaces the handler is
  built from: arguments in \<open>Deps\<close>.  What happens around a request while it runs (the cancellation
  of its context, a free slot, the answer of the API server, the upstream's answer, the random
  source) is \<open>situation\<close>.  The audit record lacks the identifier and the duration, and what a
  Collection-scoped handler adds to it; a contended cancel is audited under the code the client sees.
\<close>

section \<open>Requests, configuration, dependencies\<close>

text \<open>\<open>hr_Header\<close> are the headers without a field of their own, by canonical name.\<close>

record httpRequest =
  hr_Path :: string
  hr_Method :: string
  hr_RawQuery :: string
  hr_ContentType :: "string list"
  hr_IdempotencyKey :: "string list"
  hr_IfMatch :: string
  hr_Authorization :: string
  hr_Header :: "(string \<times> string) list"
  hr_Cookies :: "(string \<times> string) list"
  hr_body :: "apiError + PolicyOverride"
  hr_rejected :: "apiError option"

record Config =
  cfg_Mode :: string
  cfg_AnonymousRealm :: string
  cfg_Realms :: "(string \<times> Realm) list"
  cfg_Browser :: bool
  cfg_Pprof :: PprofConfig
  cfg_ProfileLimits :: LimitsConfig
  cfg_PGOEnabled :: bool
  cfg_ConfigAPIDisabled :: bool

record Principal =
  pr_Name :: string
  pr_Realm :: string

record Failure =
  fl_Status :: nat
  fl_Reason :: string
  fl_Redirect :: string
  fl_ClearSession :: bool

datatype authError = Classified Failure | Unclassified

record AuthOutcome =
  ao_Status :: nat
  ao_Code :: string
  ao_Reason :: string
  ao_Principal :: string

record libraries =
  lb_Label :: "string \<Rightarrow> bool"
  lb_Validation :: validation
  lb_Layout :: timeLayout
  lb_ParseDuration :: "string \<Rightarrow> duration option"
  lb_FormatSeconds :: "duration \<Rightarrow> string"
  lb_ParseMediaType :: "string \<Rightarrow> string option"

record Deps =
  dp_Libraries :: libraries
  dp_Ready :: bool
  dp_Cluster :: Cluster
  dp_Auth :: "httpRequest \<Rightarrow> Config \<Rightarrow> authError + Principal"
  dp_AuthRoutes :: "(httpRequest \<Rightarrow> Config \<Rightarrow> AuthOutcome \<times> bool) option"
  dp_Console :: "(httpRequest \<Rightarrow> nat) option"
  dp_Bound :: bool
  dp_Connected :: bool
  dp_Env :: env

section \<open>The upstream fetch\<close>

record upstreamRequest =
  up_Target :: Target
  up_Path :: string
  up_Seconds :: int
  up_TargetHeaders :: "(string \<times> string) list"

record proxyOutcome =
  oc_Code :: string
  oc_Status :: nat
  oc_Committed :: bool

text \<open>How the copy of a body ended, and how the round trip did.\<close>

datatype copyEnd = CopyDone | WriteDeadline | BudgetPassed | CopyCanceled | CopyFailed

datatype roundTrip =
    BadURL
  | HeaderDeadline
  | RoundTripError (rt_expired: bool) (rt_canceled: bool)
  | UpstreamAnswer nat "(string \<times> string list) list" copyEnd

definition allowedHeaders :: "string list" where
  "allowedHeaders = [''Content-Type'', ''Content-Length'', ''Content-Encoding'', ''Content-Disposition'', ''X-Content-Type-Options'']"

definition specHeaderDeadline :: "int \<Rightarrow> duration" where
  "specHeaderDeadline seconds = (if seconds = 0 then 30 * second else seconds * second + 10 * second)"

definition joinHostPort :: "string \<Rightarrow> string \<Rightarrow> string" where
  "joinHostPort host port =
     (if CHR '':'' \<in> set host then ''['' @ host @ '']:'' @ port else host @ '':'' @ port)"

definition upstreamURL :: "upstreamRequest \<Rightarrow> string" where
  "upstreamURL req =
     ''http://'' @ joinHostPort (tg_PodIP (up_Target req)) (showInt (tg_Port (up_Target req))) @ up_Path req @
     (if up_Seconds req > 0 then ''?seconds='' @ showInt (up_Seconds req) else [])"

definition classifyBeforeHeaders :: "bool \<Rightarrow> bool \<Rightarrow> proxyOutcome" where
  "classifyBeforeHeaders late canceled =
     (if late then \<lparr>oc_Code = ''upstream_timeout'', oc_Status = 504, oc_Committed = False\<rparr>
      else if canceled then \<lparr>oc_Code = ''client_gone'', oc_Status = 0, oc_Committed = False\<rparr>
      else \<lparr>oc_Code = ''upstream_unreachable'', oc_Status = 502, oc_Committed = False\<rparr>)"

text \<open>The headers written on a forwarded response: the allowed ones, then the target's, which replace.\<close>

definition forwardedHeaders :: "(string \<times> string list) list \<Rightarrow> (string \<times> string) list \<Rightarrow> (string \<times> string list) list" where
  "forwardedHeaders upstream target =
     fold (\<lambda>(name, value) h. map_put name [value] h) target
       (List.map_filter (\<lambda>name. map_option (Pair name) (map_of upstream name)) allowedHeaders)"

definition Do :: "roundTrip \<Rightarrow> upstreamRequest \<Rightarrow> proxyOutcome \<times> (string \<times> string list) list" where
  "Do rt req = (case rt of
     BadURL \<Rightarrow> (\<lparr>oc_Code = ''upstream_unreachable'', oc_Status = 502, oc_Committed = False\<rparr>, [])
   | HeaderDeadline \<Rightarrow> (\<lparr>oc_Code = ''upstream_timeout'', oc_Status = 504, oc_Committed = False\<rparr>, [])
   | RoundTripError late canceled \<Rightarrow> (classifyBeforeHeaders late canceled, [])
   | UpstreamAnswer status headers ending \<Rightarrow>
       if 300 \<le> status \<and> status \<le> 399
       then (\<lparr>oc_Code = ''upstream_redirect'', oc_Status = 502, oc_Committed = False\<rparr>, [])
       else
         let code = (if status \<ge> 400 then ''upstream_'' @ showNat status else ''ok'');
             final = (case ending of
                 CopyDone \<Rightarrow> code
               | WriteDeadline \<Rightarrow> ''upstream_stream_failed''
               | BudgetPassed \<Rightarrow> ''upstream_stream_failed''
               | CopyCanceled \<Rightarrow> ''client_gone''
               | CopyFailed \<Rightarrow> ''upstream_stream_failed'')
         in (\<lparr>oc_Code = final, oc_Status = status, oc_Committed = True\<rparr>, forwardedHeaders headers (up_TargetHeaders req)))"

section \<open>What a request accumulates and answers\<close>

datatype ctxState = Alive | CutByDrain | ClientLeft

record situation =
  sn_ctx :: ctxState
  sn_ctxEnd :: ctxState
  sn_token :: bool
  sn_random :: "8 word list"
  sn_gone :: bool
  sn_events :: "waitEvent list"
  sn_slotFree :: bool
  sn_pick :: "nat \<Rightarrow> nat"
  sn_podRead :: podRead
  sn_callerCanceled :: bool
  sn_roundTrip :: roundTrip

record auditRecord =
  au_pgo :: bool
  au_route :: string
  au_reason :: string
  au_principal :: string
  au_namespace :: string
  au_service :: string
  au_pod :: string
  au_profile :: string
  au_collection :: string
  au_method :: string
  au_seconds :: int
  au_port :: string
  au_explain :: bool
  au_wait :: duration
  au_status :: nat
  au_code :: string

record request =
  rq_routed :: bool
  rq_route :: route
  rq_authRoute :: bool
  rq_console :: bool
  rq_port :: portParams
  rq_authFailures :: "(string \<times> string) list"
  rq_upstream :: "upstreamRequest option"
  rq_audit :: auditRecord

definition newRequest :: request where
  "newRequest = \<lparr>rq_routed = False, rq_route = emptyRoute kindTargets, rq_authRoute = False, rq_console = False, rq_port = noPort,
     rq_authFailures = [], rq_upstream = None,
     rq_audit = \<lparr>au_pgo = False, au_route = [], au_reason = [], au_principal = [], au_namespace = [], au_service = [], au_pod = [],
       au_profile = [], au_collection = [], au_method = [], au_seconds = 0, au_port = [], au_explain = False, au_wait = 0,
       au_status = 0, au_code = []\<rparr>\<rparr>"

abbreviation onAudit :: "(auditRecord \<Rightarrow> auditRecord) \<Rightarrow> request \<Rightarrow> request" where
  "onAudit f q \<equiv> q\<lparr>rq_audit := f (rq_audit q)\<rparr>"

definition audited :: "nat \<Rightarrow> string \<Rightarrow> request \<Rightarrow> request" where
  "audited status code q = onAudit (\<lambda>a. a\<lparr>au_status := status, au_code := code\<rparr>) q"

record whoamiBody =
  wh_Principal :: string
  wh_RealmName :: string
  wh_Realm :: Realm
  wh_Mode :: string
  wh_Logout :: string

record limitsBody =
  lm_CPUSeconds :: int
  lm_TraceSeconds :: int
  lm_Profiles :: "string list"
  lm_DefaultPort :: int
  lm_DefaultPortName :: string
  lm_AllowedSelections :: "Selection list"
  lm_PGOEnabled :: bool

text \<open>
  \<open>rq_upstream\<close> is the call of \<open>Upstream.Do\<close>, if there was one.
  \<open>Aborted\<close> is the panic that drops the connection with nothing written, \<open>Truncated\<close> the one that
  drops it after the headers and a part of the body; \<open>Silent\<close> is a return with nothing written.
\<close>

datatype response =
    Aborted
  | Silent
  | Envelope requestError "(string \<times> string) list"
  | LoginRedirect string "(string \<times> string) list"
  | AuthInfo
  | OpenAPIDocument
  | ConsoleAnswer nat
  | AuthAnswer AuthOutcome
  | WhoamiAnswer whoamiBody
  | LimitsAnswer limitsBody
  | NamespacesAnswer "string list"
  | ServicesAnswer string "string list"
  | CatalogAnswer "(string \<times> string) list"
  | TargetsAnswer string string "targetView list"
  | ExplainAnswer string string "targetView list" nat "(exclusionReason \<times> nat) list"
  | Forwarded upstreamRequest proxyOutcome "(string \<times> string list) list"
  | Truncated upstreamRequest proxyOutcome "(string \<times> string list) list"
  | UpstreamRefused upstreamRequest proxyOutcome
  | PGOAnswer answer "(string \<times> string) list"

text \<open>\<open>request.fail\<close>\<close>

definition failRequest :: "ctxState \<Rightarrow> (string \<times> string) list \<Rightarrow> requestError \<Rightarrow> request \<Rightarrow> response \<times> request" where
  "failRequest ctx headers e q =
     (if ctx = CutByDrain then (Aborted, audited 0 ''drain_expired'' q)
      else if ctx = ClientLeft \<and> \<not> re_bodyDeadline e then (Aborted, audited 0 ''client_gone'' q)
      else (Envelope e headers, audited (re_status e) (if re_auditCode e \<noteq> [] then re_auditCode e else re_code e) q))"

definition allowHeader :: "string list \<Rightarrow> string" where
  "allowHeader methods = (case methods of [] \<Rightarrow> [] | m # ms \<Rightarrow> m @ concat (map (\<lambda>x. '', '' @ x) ms))"

section \<open>Metrics labels and the audit line\<close>

datatype endpoint = EndpointTargets | EndpointProfile | EndpointPGOPolicy | EndpointCollections | EndpointCollection
  | EndpointCollectionProfile | EndpointCollectionCancel | EndpointAuth | EndpointNamespaces | EndpointServices | EndpointCatalog
  | EndpointWhoami | EndpointLimits | EndpointUI | EndpointOpenAPI

definition labelNone :: string where "labelNone = ''none''"
definition labelCPU :: string where "labelCPU = ''cpu''"

definition profileNames :: "string list" where
  "profileNames = [''cpu'', ''trace'', ''heap'', ''allocs'', ''goroutine'', ''mutex'', ''block'', ''threadcreate'']"

definition IsProfile :: "string \<Rightarrow> bool" where
  "IsProfile name = List.member profileNames name"

definition labels :: "request \<Rightarrow> endpoint \<times> string" where
  "labels q =
     (if rq_console q then (EndpointUI, labelNone)
      else if rq_authRoute q then (EndpointAuth, labelNone)
      else if \<not> rq_routed q then (EndpointProfile, labelNone)
      else case rt_kind (rq_route q) of
        kindTargets \<Rightarrow> (EndpointTargets, labelNone)
      | kindPGOPolicy \<Rightarrow> (EndpointPGOPolicy, labelNone)
      | kindCollections \<Rightarrow> (EndpointCollections, labelNone)
      | kindCollection \<Rightarrow> (EndpointCollection, labelCPU)
      | kindCollectionLatest \<Rightarrow> (EndpointCollection, labelCPU)
      | kindCollectionProfile \<Rightarrow> (EndpointCollectionProfile, labelCPU)
      | kindCollectionLatestProfile \<Rightarrow> (EndpointCollectionProfile, labelCPU)
      | kindCollectionCancel \<Rightarrow> (EndpointCollectionCancel, labelCPU)
      | kindNamespaces \<Rightarrow> (EndpointNamespaces, labelNone)
      | kindServices \<Rightarrow> (EndpointServices, labelNone)
      | kindCatalog \<Rightarrow> (EndpointCatalog, labelNone)
      | kindWhoami \<Rightarrow> (EndpointWhoami, labelNone)
      | kindLimits \<Rightarrow> (EndpointLimits, labelNone)
      | kindOpenAPI \<Rightarrow> (EndpointOpenAPI, labelNone)
      | kindConsole \<Rightarrow> (EndpointUI, labelNone)
      | kindProfile \<Rightarrow> if IsProfile (rt_profile (rq_route q)) then (EndpointProfile, rt_profile (rq_route q)) else (EndpointProfile, labelNone)
      | _ \<Rightarrow> (EndpointAuth, labelNone))"

definition narrated :: "request \<Rightarrow> bool" where
  "narrated q =
     (if rq_console q then False
      else if \<not> rq_routed q then True
      else rt_kind (rq_route q) \<noteq> kindAuth \<and> rt_kind (rq_route q) \<noteq> kindOpenAPI)"

record served =
  sd_response :: response
  sd_request :: request
  sd_metrics :: "endpoint \<times> string \<times> string"
  sd_audit :: "auditRecord option"

text \<open>The deferred epilogue of \<open>ServeHTTP\<close>.\<close>

definition epilogue :: "ctxState \<Rightarrow> response \<times> request \<Rightarrow> served" where
  "epilogue ctx r =
     (case r of (resp, q) \<Rightarrow>
        let abort = (ctx = CutByDrain \<and> au_code (rq_audit q) = ''client_gone'');
            q' = (if abort then onAudit (\<lambda>a. a\<lparr>au_code := ''drain_expired''\<rparr>) q else q)
        in \<lparr>sd_response = (if abort then Aborted else resp), sd_request = q',
            sd_metrics = (fst (labels q'), snd (labels q'), au_code (rq_audit q')),
            sd_audit = (if narrated q' then Some (rq_audit q') else None)\<rparr>)"

section \<open>Authentication\<close>

definition noPrincipal :: string where "noPrincipal = ''-''"
definition modeBasic :: string where "modeBasic = ''basic''"
definition modeOIDC :: string where "modeOIDC = ''oidc''"

definition Challenge :: "string \<Rightarrow> string" where
  "Challenge mode =
     (if mode = modeBasic then ''Basic realm='' @ [quote] @ ''profgate'' @ [quote]
      else if mode = modeOIDC then ''Bearer realm='' @ [quote] @ ''profgate'' @ [quote]
      else [])"

text \<open>The mode the gateway ships with.\<close>

definition Disabled :: "httpRequest \<Rightarrow> Config \<Rightarrow> authError + Principal" where
  "Disabled req cfg = Inr \<lparr>pr_Name = ''anonymous'', pr_Realm = cfg_AnonymousRealm cfg\<rparr>"

text \<open>What \<open>DeleteSessionCookie\<close> sets, as \<open>http.SetCookie\<close> writes it.\<close>

definition cookieSession :: string where "cookieSession = ''__Host-profgate_session''"

definition deleteCookie :: "string \<Rightarrow> string \<times> string" where
  "deleteCookie name = (''Set-Cookie'', name @ ''=; Path=/; Max-Age=0; HttpOnly; Secure; SameSite=Lax'')"

definition failAuth :: "ctxState \<Rightarrow> string \<Rightarrow> Failure \<Rightarrow> request \<Rightarrow> response \<times> request" where
  "failAuth ctx mode f q =
     (let q1 = onAudit (\<lambda>a. a\<lparr>au_principal := noPrincipal, au_reason := fl_Reason f\<rparr>) q;
          cleared = (if fl_ClearSession f then [deleteCookie cookieSession] else []) in
      if fl_Redirect f \<noteq> [] then (LoginRedirect (fl_Redirect f) cleared, audited 302 ''auth_redirect'' q1)
      else
        let q2 = q1\<lparr>rq_authFailures := rq_authFailures q1 @ [(mode, fl_Reason f)]\<rparr> in
        if fl_Status f = 401
        then failRequest ctx (cleared @ (if Challenge mode \<noteq> [] then [(''WWW-Authenticate'', Challenge mode)] else [])) (plainError 401 ''unauthenticated'') q2
        else if fl_Status f = 429 then failRequest ctx (cleared @ [(''Retry-After'', ''1'')]) (plainError 429 ''too_many_auth'') q2
        else failRequest ctx (cleared @ [(''Retry-After'', ''5'')]) (plainError 503 ''auth_unavailable'') q2)"

text \<open>\<open>authenticate\<close>: the answer it gave, or the principal, its realm and the request that goes on.\<close>

definition authenticate :: "Deps \<Rightarrow> Config \<Rightarrow> ctxState \<Rightarrow> httpRequest \<Rightarrow> request \<Rightarrow> (response \<times> request) + (Principal \<times> Realm \<times> request)" where
  "authenticate d cfg ctx req q =
     (case dp_Auth d req cfg of
        Inl err \<Rightarrow>
          let f = (case err of
                Classified f \<Rightarrow> f
              | Unclassified \<Rightarrow> \<lparr>fl_Status = 503, fl_Reason = ''internal'', fl_Redirect = [], fl_ClearSession = False\<rparr>)
          in Inl (failAuth ctx (cfg_Mode cfg) f q)
      | Inr p \<Rightarrow>
          (case map_of (cfg_Realms cfg) (pr_Realm p) of
             None \<Rightarrow> Inl (failAuth ctx (cfg_Mode cfg) \<lparr>fl_Status = 401, fl_Reason = ''no_realm'', fl_Redirect = [], fl_ClearSession = False\<rparr> q)
           | Some realm \<Rightarrow> Inr (p, realm, onAudit (\<lambda>a. a\<lparr>au_principal := pr_Name p\<rparr>) q)))"

fun authRouteName :: "routeKind \<Rightarrow> string" where
  "authRouteName kindAuthLogin = ''auth_login''"
| "authRouteName kindAuthCallback = ''auth_callback''"
| "authRouteName kindAuthLogout = ''auth_logout''"
| "authRouteName _ = []"

definition serveAuthRoute :: "Deps \<Rightarrow> Config \<Rightarrow> situation \<Rightarrow> httpRequest \<Rightarrow> routeDecl \<Rightarrow> request \<Rightarrow> response \<times> request" where
  "serveAuthRoute d cfg sn req dc q =
     (let name = authRouteName (dc_Kind dc) in
      case dp_AuthRoutes d of
        None \<Rightarrow> failRequest (sn_ctx sn) [] errRouteUnknown q
      | Some serve \<Rightarrow>
          if name = [] then failRequest (sn_ctx sn) [] errRouteUnknown q
          else
            let q1 = onAudit (\<lambda>a. a\<lparr>au_route := name, au_method := hr_Method req, au_principal := noPrincipal\<rparr>) (q\<lparr>rq_authRoute := True\<rparr>) in
            if \<not> List.member (dc_Methods dc) (hr_Method req)
            then failRequest (sn_ctx sn) [(''Allow'', allowHeader (dc_Methods dc))] methodNotAllowed q1
            else if \<not> dp_Ready d then failRequest (sn_ctx sn) [] errNotReady q1
            else case serve req cfg of (out, committed) \<Rightarrow>
              if \<not> committed \<and> sn_ctx sn = CutByDrain then (Aborted, audited 0 ''drain_expired'' q1)
              else if \<not> committed \<and> sn_ctx sn = ClientLeft then (Aborted, audited 0 ''client_gone'' q1)
              else (AuthAnswer out,
                (onAudit (\<lambda>a. a\<lparr>au_reason := ao_Reason out, au_principal := ao_Principal out\<rparr>) (audited (ao_Status out) (ao_Code out) q1))
                \<lparr>rq_authFailures := rq_authFailures q1 @
                   (if ao_Status out = 401 \<or> ao_Status out = 503 then [(cfg_Mode cfg, ao_Reason out)] else [])\<rparr>))"

definition consoleCode :: "nat \<Rightarrow> string" where
  "consoleCode status =
     (if status \<ge> 200 \<and> status < 400 then ''ok''
      else if status = 404 then ''route_unknown''
      else if status = 405 then ''method_not_allowed''
      else ''internal_error'')"

definition serveConsole :: "Deps \<Rightarrow> situation \<Rightarrow> httpRequest \<Rightarrow> request \<Rightarrow> response \<times> request" where
  "serveConsole d sn req q =
     (let q1 = q\<lparr>rq_console := True\<rparr> in
      case dp_Console d of
        None \<Rightarrow> failRequest (sn_ctx sn) [] errRouteUnknown q1
      | Some serve \<Rightarrow>
          let status = (if serve req = 0 then 200 else serve req)
          in (ConsoleAnswer status, audited status (consoleCode status) q1))"

section \<open>The listing routes\<close>

definition logoutPath :: string where "logoutPath = ''/auth/logout''"

definition whoamiView :: "Config \<Rightarrow> Principal \<Rightarrow> Realm \<Rightarrow> whoamiBody" where
  "whoamiView cfg p realm = \<lparr>wh_Principal = pr_Name p, wh_RealmName = pr_Realm p, wh_Realm = realm, wh_Mode = cfg_Mode cfg,
     wh_Logout = (if cfg_Mode cfg = modeOIDC \<and> cfg_Browser cfg then logoutPath else [])\<rparr>"

definition limitsView :: "Config \<Rightarrow> limitsBody" where
  "limitsView cfg = \<lparr>lm_CPUSeconds = lc_CPUSeconds (cfg_ProfileLimits cfg), lm_TraceSeconds = lc_TraceSeconds (cfg_ProfileLimits cfg),
     lm_Profiles = profileNames,
     lm_DefaultPort = ppc_Port (cfg_Pprof cfg),
     lm_DefaultPortName = (if ppc_Port (cfg_Pprof cfg) \<noteq> 0 then [] else ppc_PortName (cfg_Pprof cfg)),
     lm_AllowedSelections = ppc_AllowedSelections (cfg_Pprof cfg),
     lm_PGOEnabled = cfg_PGOEnabled cfg\<rparr>"

definition admittedCatalog :: "Deps \<Rightarrow> Realm \<Rightarrow> string \<Rightarrow> requestError + (string \<times> string) list" where
  "admittedCatalog d realm ns =
     (case Catalog (dp_Cluster d) ns of
        Inl _ \<Rightarrow> Inl (plainError 503 ''discovery_unavailable'')
      | Inr refs \<Rightarrow> Inr (filterCatalog realm refs))"

definition serveListing :: "Deps \<Rightarrow> Config \<Rightarrow> situation \<Rightarrow> httpRequest \<Rightarrow> Principal \<Rightarrow> Realm \<Rightarrow> request \<Rightarrow> response \<times> request" where
  "serveListing d cfg sn req p realm q =
     (if hr_RawQuery req \<noteq> [] then failRequest (sn_ctx sn) [] (noParameters (hr_RawQuery req)) q
      else
        let rt = rq_route q;
            ok = (\<lambda>body. (body, audited 200 ''ok'' q));
            fromCatalog = (\<lambda>view. case admittedCatalog d realm (rt_namespace rt) of
                Inl e \<Rightarrow> failRequest (sn_ctx sn) [] e q
              | Inr refs \<Rightarrow> ok (view refs))
        in case rt_kind rt of
             kindWhoami \<Rightarrow> ok (WhoamiAnswer (whoamiView cfg p realm))
           | kindLimits \<Rightarrow> ok (LimitsAnswer (limitsView cfg))
           | kindNamespaces \<Rightarrow> fromCatalog (\<lambda>refs. NamespacesAnswer (namespacesOf refs))
           | kindServices \<Rightarrow> fromCatalog (\<lambda>refs. ServicesAnswer (rt_namespace rt) (servicesOf refs))
           | kindCatalog \<Rightarrow> fromCatalog (\<lambda>refs. CatalogAnswer (catalogOf refs))
           | _ \<Rightarrow> failRequest (sn_ctx sn) [] errRouteUnknown q)"

section \<open>Targets and profiles\<close>

definition ofApi :: "apiError \<Rightarrow> requestError" where
  "ofApi e = plainError (ae_status e) (ae_code e)"

definition serveTargets :: "Deps \<Rightarrow> situation \<Rightarrow> targetsParams \<Rightarrow> request \<Rightarrow> response \<times> request" where
  "serveTargets d sn params q =
     (let rt = rq_route q; ns = rt_namespace rt; svc = rt_service rt; sel = pp_sel (rq_port q) in
      if tp_explain params then
        (let q1 = onAudit (\<lambda>a. a\<lparr>au_explain := True\<rparr>) q in
         case Explain (dp_Cluster d) ns svc sel of
           Inl err \<Rightarrow> failRequest (sn_ctx sn) [] (ofApi (discoveryError err)) q1
         | Inr ex \<Rightarrow> (case explainCounts ex params of (views, matched, excluded) \<Rightarrow>
             (ExplainAnswer ns svc views matched excluded, audited 200 ''ok'' q1)))
      else
        (case Targets (dp_Cluster d) ns svc sel of
           Inl err \<Rightarrow> failRequest (sn_ctx sn) [] (ofApi (discoveryError err)) q
         | Inr targets \<Rightarrow> (TargetsAnswer ns svc (targetViews (fst (filterByParams targets params))), audited 200 ''ok'' q)))"

definition targetHeaders :: "Target \<Rightarrow> (string \<times> string) list" where
  "targetHeaders t = [(''X-Pprof-Target-Pod'', tg_Pod t), (''X-Pprof-Target-Node'', tg_Node t), (''X-Pprof-Target-Version'', tg_Version t)]"

definition codeStreamFailed :: string where "codeStreamFailed = ''upstream_stream_failed''"

text \<open>From the confirmed target on.\<close>

definition forwardProfile :: "situation \<Rightarrow> profileSpec \<Rightarrow> profileParams \<Rightarrow> Target \<Rightarrow> request \<Rightarrow> response \<times> request" where
  "forwardProfile sn sp params target q =
     (let up = \<lparr>up_Target = target, up_Path = sp_path sp, up_Seconds = pf_seconds params, up_TargetHeaders = targetHeaders target\<rparr> in
      case Do (sn_roundTrip sn) up of (out, headers) \<Rightarrow>
        let q1 = audited (oc_Status out) (oc_Code out) (q\<lparr>rq_upstream := Some up\<rparr>) in
        if \<not> oc_Committed out then
          (if sn_ctx sn = CutByDrain then (Aborted, audited 0 ''drain_expired'' q1)
           else if oc_Status out \<noteq> 0 then (UpstreamRefused up out, q1)
           else (Silent, q1))
        else if oc_Code out = codeStreamFailed then (Truncated up out headers, q1)
        else (Forwarded up out headers, q1))"

definition serveProfile :: "Deps \<Rightarrow> situation \<Rightarrow> profileSpec \<Rightarrow> profileParams \<Rightarrow> request \<Rightarrow> response \<times> request" where
  "serveProfile d sn sp params q =
     (let rt = rq_route q; ctx = sn_ctx sn in
      case Targets (dp_Cluster d) (rt_namespace rt) (rt_service rt) (pp_sel (rq_port q)) of
        Inl err \<Rightarrow> failRequest ctx [] (ofApi (discoveryError err)) q
      | Inr targets \<Rightarrow>
          (case selectTarget (sn_pick sn) targets params of
             Inl serr \<Rightarrow> failRequest ctx [] serr q
           | Inr target \<Rightarrow>
               let q1 = onAudit (\<lambda>a. a\<lparr>au_pod := tg_Pod target\<rparr>) q in
               if \<not> sn_slotFree sn then failRequest ctx [] (plainError 429 ''too_many_profiles'') q1
               else case Confirm (sn_podRead sn) (sn_callerCanceled sn) target of
                 Some err \<Rightarrow>
                   if err = ErrTargetChanged then failRequest ctx [] (plainError 503 ''target_changed'') q1
                   else if err = ErrCanceled then (Silent, onAudit (\<lambda>a. a\<lparr>au_code := ''client_gone''\<rparr>) q1)
                   else failRequest ctx [] (plainError 503 ''discovery_unavailable'') q1
               | None \<Rightarrow> forwardProfile sn sp params target q1))"

text \<open>Parameters, then the allowlist, then discovery.\<close>

definition serveInteractive :: "Deps \<Rightarrow> Config \<Rightarrow> situation \<Rightarrow> httpRequest \<Rightarrow> profileSpec option \<Rightarrow> request \<Rightarrow> response \<times> request" where
  "serveInteractive d cfg sn req sp q =
     (let ctx = sn_ctx sn; va = lb_Validation (dp_Libraries d) in
      case parseQuery (hr_RawQuery req) of
        None \<Rightarrow> failRequest ctx [] (invalidParameterWith [paramFault detailMalformedParameter []]) q
      | Some query \<Rightarrow>
          (case sp of
             None \<Rightarrow>
               (case parseTargetsParams va query of (tparams, perr) \<Rightarrow>
                  let q1 = onAudit (\<lambda>a. a\<lparr>au_port := pp_sent (tp_port tparams)\<rparr>) (q\<lparr>rq_port := tp_port tparams\<rparr>) in
                  case perr of
                    Some e \<Rightarrow> failRequest ctx [] e q1
                  | None \<Rightarrow>
                      (case allowPort (cfg_Pprof cfg) (tp_port tparams) of
                         Some e \<Rightarrow> failRequest ctx [] e q1
                       | None \<Rightarrow> serveTargets d sn tparams q1))
           | Some sp' \<Rightarrow>
               (case parseProfileParams va sp' (cfg_ProfileLimits cfg) query of (params, perr) \<Rightarrow>
                  let q1 = onAudit (\<lambda>a. a\<lparr>au_port := pp_sent (pf_port params)\<rparr>) (q\<lparr>rq_port := pf_port params\<rparr>) in
                  case perr of
                    Some e \<Rightarrow> failRequest ctx [] e q1
                  | None \<Rightarrow>
                      (case allowPort (cfg_Pprof cfg) (pf_port params) of
                         Some e \<Rightarrow> failRequest ctx [] e q1
                       | None \<Rightarrow> serveProfile d sn sp' params (onAudit (\<lambda>a. a\<lparr>au_seconds := pf_seconds params\<rparr>) q1)))))"

section \<open>The PGO routes\<close>

fun answerStatus :: "answer \<Rightarrow> nat" where
  "answerStatus (Refused e _) = ae_status e"
| "answerStatus (Created _ _) = 202"
| "answerStatus (PolicyStored status _ _ _ _) = status"
| "answerStatus NoContent = 204"
| "answerStatus ClientGone = 0"
| "answerStatus Parked = 0"
| "answerStatus _ = 200"

definition waitElapsedHeader :: string where "waitElapsedHeader = ''X-Wait-Elapsed''"

text \<open>
  What an answer becomes on the wire, with the header of one that was held; \<open>seconds\<close> is the text of
  a duration in seconds that \<open>waitElapsed\<close> formats.
\<close>

definition pgoAnswered :: "(duration \<Rightarrow> string) \<Rightarrow> ctxState \<Rightarrow> request \<Rightarrow> answer \<Rightarrow> response \<times> request" where
  "pgoAnswered seconds ctx q a =
     (let (b, headers) = (case a of Held d b \<Rightarrow> (b, [(waitElapsedHeader, seconds d)]) | _ \<Rightarrow> (a, [])) in
      case b of
        Refused e retry \<Rightarrow> failRequest ctx (headers @ (if retry then [(''Retry-After'', ''1'')] else [])) (ofApi e) q
      | ClientGone \<Rightarrow> (if rt_kind (rq_route q) = kindCollections then Aborted else Silent, audited 0 ''client_gone'' q)
      | Parked \<Rightarrow> (Silent, q)
      | _ \<Rightarrow> (PGOAnswer b headers, audited (answerStatus b) ''ok'' q))"

definition zeroSelection :: PortSelection where "zeroSelection = \<lparr>ps_Port = 0, ps_PortName = []\<rparr>"

definition createRequestOf :: "Deps \<Rightarrow> situation \<Rightarrow> httpRequest \<Rightarrow> string \<Rightarrow> route \<Rightarrow> createRequest" where
  "createRequestOf d sn req prin rt = \<lparr>
     cr_keys = hr_IdempotencyKey req, cr_body = hr_body req, cr_principal = prin,
     cr_Namespace = rt_namespace rt, cr_Service = rt_service rt, cr_token = sn_token sn,
     cr_targets = Targets (dp_Cluster d) (rt_namespace rt) (rt_service rt) zeroSelection,
     cr_random = sn_random sn, cr_gone = sn_gone sn\<rparr>"

definition servePGOService :: "Deps \<Rightarrow> Config \<Rightarrow> situation \<Rightarrow> httpRequest \<Rightarrow> nat \<Rightarrow> string \<Rightarrow> request \<Rightarrow> (replica, response \<times> request) prog" where
  "servePGOService d cfg sn req gen prin q =
     (let rt = rq_route q; ns = rt_namespace rt; svc = rt_service rt; e = dp_Env d;
          isListing' = (rt_kind rt = kindCollections \<and> hr_Method req = MethodGet);
          finish' = (\<lambda>p. bind p (\<lambda>a. Ret (pgoAnswered (lb_FormatSeconds (dp_Libraries d)) (sn_ctx sn) q a)))
      in case (if isListing' then parseCollectionList (lb_Layout (dp_Libraries d)) (hr_RawQuery req)
               else if hr_RawQuery req \<noteq> [] then Inl (noParameters (hr_RawQuery req))
               else Inr emptyQuery) of
           Inl perr \<Rightarrow> Ret (failRequest (sn_ctx sn) [] perr q)
         | Inr query \<Rightarrow>
             if rt_kind rt = kindPGOPolicy \<and> hr_Method req = MethodGet then finish' (servePolicyRead e ns svc)
             else if rt_kind rt = kindPGOPolicy \<and> hr_Method req = MethodPut
             then finish' (servePolicyWrite e (cfg_ConfigAPIDisabled cfg) (hr_IfMatch req) (hr_body req) prin ns svc)
             else if rt_kind rt = kindPGOPolicy
             then finish' (servePolicyDelete (cfg_ConfigAPIDisabled cfg) (hr_rejected req) (hr_IfMatch req) ns svc)
             else if rt_kind rt = kindCollectionLatest \<or> rt_kind rt = kindCollectionLatestProfile
             then finish' (serveLatestCollection e gen ns svc (rt_kind rt = kindCollectionLatestProfile))
             else if isListing' then finish' (serveCollectionList gen ns svc query)
             else finish' (serveCollectionCreate e gen (createRequestOf d sn req prin rt)))"

text \<open>The query of a Collection-scoped route, before the record is read.\<close>

definition collectionQuery :: "Deps \<Rightarrow> situation \<Rightarrow> httpRequest \<Rightarrow> route \<Rightarrow> requestError + (collectionRoute \<times> duration)" where
  "collectionQuery d sn req rt =
     (if rt_kind rt = kindCollection then
        (case parseWait (lb_ParseDuration (dp_Libraries d)) (hr_RawQuery req) of
           Inl perr \<Rightarrow> Inl perr
         | Inr wait \<Rightarrow> Inr (KindCollection wait (sn_events sn), wait))
      else if hr_RawQuery req \<noteq> [] then Inl (noParameters (hr_RawQuery req))
      else if rt_kind rt = kindCollectionProfile then Inr (KindCollectionProfile, 0)
      else Inr (KindCollectionCancel (hr_rejected req), 0))"

definition serveCollectionScoped :: "Deps \<Rightarrow> situation \<Rightarrow> httpRequest \<Rightarrow> Realm \<Rightarrow> request \<Rightarrow> (replica, response \<times> request) prog" where
  "serveCollectionScoped d sn req realm q =
     (let rt = rq_route q in
      case collectionQuery d sn req rt of
        Inl perr \<Rightarrow> Ret (failRequest (sn_ctx sn) [] perr q)
      | Inr (kind, wait) \<Rightarrow>
          bind (servePGOCollection (dp_Env d)
                  (\<lambda>ns svc. realmAllows realm (rt\<lparr>rt_namespace := ns, rt_service := svc\<rparr>) (hr_Method req))
                  (rt_collection rt) kind)
            (\<lambda>a. Ret (pgoAnswered (lb_FormatSeconds (dp_Libraries d)) (sn_ctx sn) (onAudit (\<lambda>x. x\<lparr>au_wait := wait\<rparr>) q) a)))"

section \<open>The request algorithm\<close>

text \<open>From the placement of the credential on; \<open>gen\<close> is the generation of the PGO session, for a PGO route.\<close>

definition serveCredentialed :: "Deps \<Rightarrow> Config \<Rightarrow> situation \<Rightarrow> httpRequest \<Rightarrow> profileSpec option \<Rightarrow> nat \<Rightarrow> request
    \<Rightarrow> (replica, response \<times> request) prog" where
  "serveCredentialed d cfg sn req sp gen q =
     (let ctx = sn_ctx sn; rt = rq_route q in
      if hasAccessToken (hr_RawQuery req)
      then Ret (failRequest ctx [] (invalidParameterWith [paramFault detailUnknownParameter accessTokenParam]) q)
      else case authenticate d cfg ctx req q of
        Inl r \<Rightarrow> Ret r
      | Inr (p, realm, q1) \<Rightarrow>
          if isCollectionScoped (rt_kind rt) then serveCollectionScoped d sn req realm q1
          else if \<not> realmAllows realm rt (hr_Method req) then Ret (failRequest ctx [] (plainError 403 ''realm_denied'') q1)
          else if isListing (rt_kind rt) then Ret (serveListing d cfg sn req p realm q1)
          else if isPGO (rt_kind rt) then servePGOService d cfg sn req gen (pr_Name p) q1
          else Ret (serveInteractive d cfg sn req sp q1))"

definition serveRouted :: "Deps \<Rightarrow> Config \<Rightarrow> situation \<Rightarrow> httpRequest \<Rightarrow> route \<Rightarrow> routeDecl \<Rightarrow> request \<Rightarrow> (replica, response \<times> request) prog" where
  "serveRouted d cfg sn req rt dc q =
     (let ctx = sn_ctx sn; sp = lookupProfile (rt_profile rt); kind = rt_kind rt in
      if kind = kindProfile \<and> sp = None then Ret (failRequest ctx [] (plainError 404 ''profile_unknown'') q)
      else if \<not> List.member (dc_Methods dc) (hr_Method req)
      then Ret (failRequest ctx [(''Allow'', allowHeader (dc_Methods dc))] methodNotAllowed q)
      else case (if hr_Method req = MethodPost \<and> isPGOWrite kind
                 then mediaTypeFault (lb_ParseMediaType (dp_Libraries d)) (hr_ContentType req) else None) of
        Some e \<Rightarrow> Ret (failRequest ctx [] e q)
      | None \<Rightarrow>
          if \<not> dp_Ready d then Ret (failRequest ctx [] errNotReady q)
          else if kind = kindAuth \<or> kind = kindOpenAPI then
            (if hr_RawQuery req \<noteq> [] then Ret (failRequest ctx [] (noParameters (hr_RawQuery req)) q)
             else Ret (if kind = kindAuth then AuthInfo else OpenAPIDocument, audited 200 ''ok'' q))
          else if isPGO kind then
            (if \<not> cfg_PGOEnabled cfg then Ret (failRequest ctx [] (plainError 501 ''pgo_disabled'') q)
             else inspect (\<lambda>l. case openSession (dp_Bound d) (dp_Connected d) l of
                 None \<Rightarrow> Ret (failRequest ctx [] (ofApi errPGOUnavailable) q)
               | Some gen \<Rightarrow> serveCredentialed d cfg sn req None gen q))
          else serveCredentialed d cfg sn req (if kind = kindProfile then sp else None) 0 q)"

definition routedRequest :: "httpRequest \<Rightarrow> route \<Rightarrow> request" where
  "routedRequest req rt = onAudit (\<lambda>a. a\<lparr>au_pgo := isPGO (rt_kind rt), au_method := hr_Method req, au_namespace := rt_namespace rt,
     au_service := rt_service rt, au_profile := rt_profile rt, au_collection := rt_collection rt\<rparr>)
     (newRequest\<lparr>rq_routed := True, rq_route := rt\<rparr>)"

definition serveHTTP :: "Deps \<Rightarrow> Config \<Rightarrow> situation \<Rightarrow> httpRequest \<Rightarrow> (replica, served) prog" where
  "serveHTTP d cfg sn req =
     bind (case matchRoute (lb_Label (dp_Libraries d)) (hr_Path req) of
             None \<Rightarrow> Ret (failRequest (sn_ctx sn) [] errRouteUnknown newRequest)
           | Some (rt, dc) \<Rightarrow>
               if rt_kind rt = kindConsole then Ret (serveConsole d sn req newRequest)
               else if isAuthRoute (rt_kind rt) then Ret (serveAuthRoute d cfg sn req dc newRequest)
               else serveRouted d cfg sn req rt dc (routedRequest req rt))
       (\<lambda>r. Ret (epilogue (sn_ctxEnd sn) r))"

section \<open>What reaches a Pod\<close>

lemma upstream_audited [simp]: "rq_upstream (audited s c q) = rq_upstream q"
  by (simp add: audited_def)

lemma upstream_failRequest [simp]: "rq_upstream (snd (failRequest ctx hs e q)) = rq_upstream q"
  by (simp add: failRequest_def)

lemma upstream_failAuth [simp]: "rq_upstream (snd (failAuth ctx mode f q)) = rq_upstream q"
  by (simp add: failAuth_def Let_def)

lemma upstream_console [simp]: "rq_upstream (snd (serveConsole d sn req q)) = rq_upstream q"
  by (simp add: serveConsole_def Let_def split: option.split)

lemma upstream_authRoute [simp]: "rq_upstream (snd (serveAuthRoute d cfg sn req dc q)) = rq_upstream q"
  by (simp add: serveAuthRoute_def Let_def split: option.split prod.split)

lemma upstream_listing [simp]: "rq_upstream (snd (serveListing d cfg sn req p realm q)) = rq_upstream q"
  by (simp add: serveListing_def Let_def split: routeKind.split sum.split)

lemma upstream_targets [simp]: "rq_upstream (snd (serveTargets d sn params q)) = rq_upstream q"
  by (simp add: serveTargets_def Let_def split: sum.split prod.split)

lemma upstream_pgoAnswered [simp]: "rq_upstream (snd (pgoAnswered seconds ctx q a)) = rq_upstream q"
  by (simp add: pgoAnswered_def Let_def split: answer.split prod.split)

lemma upstream_newRequest [simp]: "rq_upstream newRequest = None" "rq_upstream (routedRequest req rt) = None"
  by (simp_all add: newRequest_def routedRequest_def)

lemma upstream_epilogue [simp]: "rq_upstream (sd_request (epilogue ctx r)) = rq_upstream (snd r)"
  by (simp add: epilogue_def Let_def split: prod.split)

lemma run_result: "fst (run (bind p (\<lambda>a. Ret (f a))) fs w l) = f (fst (run p fs w l))"
  by (simp add: run_bind split: prod.split)

lemma run_inspect_result: "fst (run (inspect c) fs w l) = fst (run (c l) fs w l)"
  by (simp add: inspect_def)

lemma upstream_service [simp]: "rq_upstream (snd (fst (run (servePGOService d cfg sn req gen prin q) fs w l))) = rq_upstream q"
  by (simp add: servePGOService_def Let_def run_result split: sum.split)

lemma upstream_scoped [simp]: "rq_upstream (snd (fst (run (serveCollectionScoped d sn req realm q) fs w l))) = rq_upstream q"
  by (simp add: serveCollectionScoped_def Let_def run_result split: sum.split prod.split)

text \<open>The conditions under which a target is fetched from.\<close>

definition fetchable :: "Deps \<Rightarrow> Config \<Rightarrow> situation \<Rightarrow> httpRequest \<Rightarrow> route \<Rightarrow> profileSpec \<Rightarrow> upstreamRequest \<Rightarrow> bool" where
  "fetchable d cfg sn req rt sp up \<longleftrightarrow>
     (\<exists>query params targets. parseQuery (hr_RawQuery req) = Some query \<and>
        parseProfileParams (lb_Validation (dp_Libraries d)) sp (cfg_ProfileLimits cfg) query = (params, None) \<and>
        allowPort (cfg_Pprof cfg) (pf_port params) = None \<and>
        Targets (dp_Cluster d) (rt_namespace rt) (rt_service rt) (pp_sel (pf_port params)) = Inr targets \<and>
        selectTarget (sn_pick sn) targets params = Inr (up_Target up) \<and> sn_slotFree sn \<and>
        Confirm (sn_podRead sn) (sn_callerCanceled sn) (up_Target up) = None \<and>
        up_Path up = sp_path sp \<and> up_Seconds up = pf_seconds params \<and> up_TargetHeaders up = targetHeaders (up_Target up))"

lemma upstream_forward: "rq_upstream (snd (forwardProfile sn sp params t q)) =
    Some \<lparr>up_Target = t, up_Path = sp_path sp, up_Seconds = pf_seconds params, up_TargetHeaders = targetHeaders t\<rparr>"
  by (simp add: forwardProfile_def Let_def split: prod.split)

lemma upstream_profile:
  assumes "rq_upstream (snd (serveProfile d sn sp params q)) = Some up" and "rq_upstream q = None"
  shows "\<exists>targets. Targets (dp_Cluster d) (rt_namespace (rq_route q)) (rt_service (rq_route q)) (pp_sel (rq_port q)) = Inr targets \<and>
     selectTarget (sn_pick sn) targets params = Inr (up_Target up) \<and> sn_slotFree sn \<and>
     Confirm (sn_podRead sn) (sn_callerCanceled sn) (up_Target up) = None \<and>
     up_Path up = sp_path sp \<and> up_Seconds up = pf_seconds params \<and> up_TargetHeaders up = targetHeaders (up_Target up)"
  using assms by (auto simp: serveProfile_def Let_def upstream_forward split: sum.splits option.splits if_splits)

lemma upstream_interactive:
  assumes "rq_upstream (snd (serveInteractive d cfg sn req sp q)) = Some up" and "rq_upstream q = None"
  shows "\<exists>sp'. sp = Some sp' \<and> fetchable d cfg sn req (rq_route q) sp' up"
proof -
  obtain query where query: "parseQuery (hr_RawQuery req) = Some query"
    using assms by (auto simp: serveInteractive_def Let_def split: option.splits)
  show ?thesis
  proof (cases sp)
    case None
    then show ?thesis using assms query
      by (auto simp: serveInteractive_def Let_def split: option.splits prod.splits)
  next
    case (Some sp')
    obtain params perr where parse: "parseProfileParams (lb_Validation (dp_Libraries d)) sp' (cfg_ProfileLimits cfg) query = (params, perr)" by fastforce
    have ok: "perr = None" "allowPort (cfg_Pprof cfg) (pf_port params) = None"
      using assms query Some parse by (auto simp: serveInteractive_def Let_def split: option.splits)
    show ?thesis
      using assms query Some parse ok upstream_profile [of d sn sp' params _ up]
      by (fastforce simp: serveInteractive_def Let_def fetchable_def)
  qed
qed

lemma authenticate_ok:
  assumes "authenticate d cfg ctx req q = Inr (p, realm, q1)"
  shows "dp_Auth d req cfg = Inr p" "map_of (cfg_Realms cfg) (pr_Realm p) = Some realm"
    "q1 = onAudit (\<lambda>a. a\<lparr>au_principal := pr_Name p\<rparr>) q"
  using assms by (auto simp: authenticate_def split: sum.splits option.splits)

lemma authenticate_refused: "authenticate d cfg ctx req q = Inl r \<Longrightarrow> rq_upstream (snd r) = rq_upstream q"
  by (auto simp: authenticate_def Let_def split: sum.splits option.splits)

lemma upstream_credentialed:
  assumes "rq_upstream (snd (fst (run (serveCredentialed d cfg sn req sp gen q) fs w l))) = Some up" and "rq_upstream q = None"
  shows "\<not> hasAccessToken (hr_RawQuery req) \<and> (\<exists>p realm sp'. dp_Auth d req cfg = Inr p \<and> map_of (cfg_Realms cfg) (pr_Realm p) = Some realm \<and>
     realmAllows realm (rq_route q) (hr_Method req) \<and> sp = Some sp' \<and> fetchable d cfg sn req (rq_route q) sp' up)"
proof (cases "authenticate d cfg (sn_ctx sn) req q")
  case (Inl r)
  then show ?thesis using assms authenticate_refused [OF Inl] by (simp add: serveCredentialed_def Let_def split: if_splits)
next
  case (Inr x)
  obtain p realm q1 where x: "x = (p, realm, q1)" by (metis prod.collapse)
  have a: "dp_Auth d req cfg = Inr p" "map_of (cfg_Realms cfg) (pr_Realm p) = Some realm" "rq_upstream q1 = None" "rq_route q1 = rq_route q"
    using authenticate_ok [of d cfg "sn_ctx sn" req q p realm q1] Inr x assms(2) by simp_all
  have "rq_upstream (snd (serveInteractive d cfg sn req sp q1)) = Some up" "\<not> hasAccessToken (hr_RawQuery req)" "realmAllows realm (rq_route q) (hr_Method req)"
    using assms(1) a(3,4) assms(2) by (auto simp: serveCredentialed_def Let_def Inr x split: if_splits)
  then show ?thesis using upstream_interactive [of d cfg sn req sp q1 up] a by auto
qed

lemma upstream_routed:
  assumes "rq_upstream (snd (fst (run (serveRouted d cfg sn req rt dc q) fs w l))) = Some up" and "rq_upstream q = None" and "rq_route q = rt"
  shows "\<not> hasAccessToken (hr_RawQuery req) \<and> dp_Ready d \<and> hr_Method req \<in> set (dc_Methods dc) \<and> rt_kind rt = kindProfile \<and>
    (\<exists>p realm sp. dp_Auth d req cfg = Inr p \<and> map_of (cfg_Realms cfg) (pr_Realm p) = Some realm \<and> realmAllows realm rt (hr_Method req) \<and>
       lookupProfile (rt_profile rt) = Some sp \<and> fetchable d cfg sn req rt sp up)"
proof -
  let ?sp = "if rt_kind rt = kindProfile then lookupProfile (rt_profile rt) else None"
  have routed: "dp_Ready d" "hr_Method req \<in> set (dc_Methods dc)" and
    cred: "\<exists>sp gen. (sp = None \<or> sp = ?sp) \<and> rq_upstream (snd (fst (run (serveCredentialed d cfg sn req sp gen q) fs w l))) = Some up"
    using assms(1,2) by (auto simp: serveRouted_def Let_def run_inspect_result List.member_iff split: if_splits option.splits)
  from cred obtain sp gen where sp: "sp = None \<or> sp = ?sp" and run: "rq_upstream (snd (fst (run (serveCredentialed d cfg sn req sp gen q) fs w l))) = Some up"
    by blast
  obtain p realm sp' where c: "\<not> hasAccessToken (hr_RawQuery req)" "dp_Auth d req cfg = Inr p" "map_of (cfg_Realms cfg) (pr_Realm p) = Some realm"
     "realmAllows realm rt (hr_Method req)" "sp = Some sp'" "fetchable d cfg sn req rt sp' up"
    using upstream_credentialed [OF run assms(2)] assms(3) by blast
  then have "rt_kind rt = kindProfile" "lookupProfile (rt_profile rt) = Some sp'" using sp by (auto split: if_splits)
  then show ?thesis using routed c by blast
qed

lemma profile_declaration:
  "dc \<in> set routeTable \<Longrightarrow> dc_Kind dc = kindProfile \<Longrightarrow>
     dc = decl ''/v1/namespaces/{namespace}/services/{service}/profiles/{profile}'' kindProfile [MethodGet]"
proof -
  have "\<forall>dc \<in> set routeTable. dc_Kind dc = kindProfile \<longrightarrow>
      dc = decl ''/v1/namespaces/{namespace}/services/{service}/profiles/{profile}'' kindProfile [MethodGet]" by code_simp
  then show "dc \<in> set routeTable \<Longrightarrow> dc_Kind dc = kindProfile \<Longrightarrow>
     dc = decl ''/v1/namespaces/{namespace}/services/{service}/profiles/{profile}'' kindProfile [MethodGet]" by blast
qed

text \<open>
  C3: A Pod is fetched from only for a request that earned it.  Whatever the stores, the API server
  and the Pods answer, a request that reaches \<open>Upstream.Do\<close> is a GET of a known profile at a
  gateway that is ready, carries no token in its URL, and is authenticated into a realm that
  admits its namespace, Service and profile; the target is one discovery gave for that very
  Service and selection, it matches the version and the Pod that were asked for, the selection
  is one the operator admits, the Pod was confirmed, a slot was free, and the duration is within
  the limit of the profile.
\<close>

theorem fetch_is_earned:
  assumes "rq_upstream (sd_request (fst (run (serveHTTP d cfg sn req) fs w l))) = Some up"
    and "\<forall>n. n > 0 \<longrightarrow> sn_pick sn n < n"
  shows "\<exists>rt sp p realm query params targets.
    hr_Method req = ''GET'' \<and> dp_Ready d \<and> \<not> hasAccessToken (hr_RawQuery req) \<and>
    bindRoute (lb_Label (dp_Libraries d)) (decl ''/v1/namespaces/{namespace}/services/{service}/profiles/{profile}'' kindProfile [''GET'']) (hr_Path req) = Some rt \<and>
    dp_Auth d req cfg = Inr p \<and> map_of (cfg_Realms cfg) (pr_Realm p) = Some realm \<and>
    listAllows (rl_Namespaces realm) (rt_namespace rt) \<and> listAllows (rl_Services realm) (rt_service rt) \<and> listAllows (rl_Profiles realm) (rt_profile rt) \<and>
    lookupProfile (rt_profile rt) = Some sp \<and> up_Path up = sp_path sp \<and> up_Seconds up = pf_seconds params \<and>
    parseQuery (hr_RawQuery req) = Some query \<and>
    parseProfileParams (lb_Validation (dp_Libraries d)) sp (cfg_ProfileLimits cfg) query = (params, None) \<and>
    0 \<le> up_Seconds up \<and> up_Seconds up \<le> max 0 (if rt_profile rt = ''trace'' then lc_TraceSeconds (cfg_ProfileLimits cfg) else lc_CPUSeconds (cfg_ProfileLimits cfg)) \<and>
    allowPort (cfg_Pprof cfg) (pf_port params) = None \<and>
    Targets (dp_Cluster d) (rt_namespace rt) (rt_service rt) (pp_sel (pf_port params)) = Inr targets \<and>
    up_Target up \<in> set targets \<and> askedFor params (up_Target up) \<and> Confirm (sn_podRead sn) (sn_callerCanceled sn) (up_Target up) = None \<and> sn_slotFree sn"
proof -
  obtain rt dc where m: "matchRoute (lb_Label (dp_Libraries d)) (hr_Path req) = Some (rt, dc)"
    and r: "rq_upstream (snd (fst (run (serveRouted d cfg sn req rt dc (routedRequest req rt)) fs w l))) = Some up"
    using assms(1) by (auto simp: serveHTTP_def run_result split: option.splits if_splits)
  have q: "rq_upstream (routedRequest req rt) = None" "rq_route (routedRequest req rt) = rt" by (simp_all add: routedRequest_def newRequest_def)
  obtain p realm sp where routed: "\<not> hasAccessToken (hr_RawQuery req)" "dp_Ready d" "hr_Method req \<in> set (dc_Methods dc)" "rt_kind rt = kindProfile"
    and auth: "dp_Auth d req cfg = Inr p" "map_of (cfg_Realms cfg) (pr_Realm p) = Some realm" "realmAllows realm rt (hr_Method req)"
    and sp: "lookupProfile (rt_profile rt) = Some sp" and fetch: "fetchable d cfg sn req rt sp up"
    using upstream_routed [OF r q] by blast
  have bound: "dc \<in> set routeTable" "bindRoute (lb_Label (dp_Libraries d)) dc (hr_Path req) = Some rt"
    using m matchIn_Some unfolding matchRoute_def by blast+
  have dc: "dc = decl ''/v1/namespaces/{namespace}/services/{service}/profiles/{profile}'' kindProfile [MethodGet]"
    using profile_declaration [OF bound(1)] bindRoute_kind [OF bound(2)] routed(4) by simp
  then have get: "hr_Method req = ''GET''" using routed(3) by (simp add: MethodGet_def)
  have lists: "listAllows (rl_Namespaces realm) (rt_namespace rt) \<and> listAllows (rl_Services realm) (rt_service rt) \<and> listAllows (rl_Profiles realm) (rt_profile rt)"
    using auth(3) routed(4) by (auto simp: realmAllows_def split: if_splits)
  obtain query params targets where query: "parseQuery (hr_RawQuery req) = Some query" and parse: "parseProfileParams (lb_Validation (dp_Libraries d)) sp (cfg_ProfileLimits cfg) query = (params, None)"
    and allow: "allowPort (cfg_Pprof cfg) (pf_port params) = None"
    and targets: "Targets (dp_Cluster d) (rt_namespace rt) (rt_service rt) (pp_sel (pf_port params)) = Inr targets"
    and sel: "selectTarget (sn_pick sn) targets params = Inr (up_Target up)" and slot: "sn_slotFree sn"
    and conf: "Confirm (sn_podRead sn) (sn_callerCanceled sn) (up_Target up) = None"
    and up: "up_Path up = sp_path sp" "up_Seconds up = pf_seconds params"
    using fetch by (auto simp: fetchable_def)
  have member: "up_Target up \<in> set targets" "askedFor params (up_Target up)" using selectTarget_decides [of "sn_pick sn" targets params] assms(2) sel by simp_all
  have bounds: "0 \<le> up_Seconds up" "up_Seconds up \<le> max 0 (if rt_profile rt = ''trace'' then lc_TraceSeconds (cfg_ProfileLimits cfg) else lc_CPUSeconds (cfg_ProfileLimits cfg))"
    using profile_duration_bounded [OF sp parse] up(2) by (auto split: if_splits)
  have bind: "bindRoute (lb_Label (dp_Libraries d)) (decl ''/v1/namespaces/{namespace}/services/{service}/profiles/{profile}'' kindProfile [''GET'']) (hr_Path req) = Some rt"
    using bound(2) dc by (simp add: MethodGet_def)
  show ?thesis
    using get routed(1,2) bind auth(1,2) lists sp up query parse bounds allow targets member conf slot by blast
qed

end
