(* ===== verification/Access.thy ===== *)
theory Access
  imports Gateway
begin

text \<open>
  What the request algorithm promises a caller and an operator: a refusal reads nothing and reveals
  nothing, a Collection a realm denies answers like one that does not exist, a realm without the
  write flags changes nothing, and a request the drain cut is answered nothing.
\<close>

section \<open>An example\<close>

text \<open>A gateway without authentication, one realm, and the cluster of the discovery examples.\<close>

definition demo_realm :: Realm where
  "demo_realm = \<lparr>rl_Namespaces = [''ns''], rl_Services = [wildcard], rl_Profiles = [''heap''],
     rl_PGO = \<lparr>rp_Read = False, rp_Collect = False, rp_Configure = False\<rparr>\<rparr>"

definition demo_config :: Config where
  "demo_config = \<lparr>cfg_Mode = ''disabled'', cfg_AnonymousRealm = ''dev'', cfg_Realms = [(''dev'', demo_realm)], cfg_Browser = False,
     cfg_Pprof = demo_ports, cfg_ProfileLimits = demo_limits, cfg_PGOEnabled = False, cfg_ConfigAPIDisabled = False\<rparr>"

definition demo_deps :: Deps where
  "demo_deps = \<lparr>dp_Libraries = \<lparr>lb_Label = list_all echoChar, lb_Validation = demo_va, lb_Layout = demo_layout,
       lb_ParseDuration = (\<lambda>_. None), lb_FormatSeconds = showInt, lb_ParseMediaType = Some\<rparr>,
     dp_Ready = True, dp_Cluster = demo_cluster, dp_Auth = Disabled, dp_AuthRoutes = None, dp_Console = None,
     dp_Bound = False, dp_Connected = False, dp_Env = demo_env\<rparr>"

definition demo_situation :: situation where
  "demo_situation = \<lparr>sn_ctx = Alive, sn_ctxEnd = Alive, sn_token = True, sn_random = [], sn_gone = False, sn_events = [],
     sn_slotFree = True, sn_pick = (\<lambda>_. 0), sn_podRead = PodGot (demo_pod ''a'' [''10.0.0.1'']), sn_callerCanceled = False,
     sn_roundTrip = UpstreamAnswer 200 [(''Content-Type'', [''application/octet-stream'']), (''Server'', [''x''])] CopyDone\<rparr>"

definition demo_get :: "string \<Rightarrow> httpRequest" where
  "demo_get path = \<lparr>hr_Path = path, hr_Method = ''GET'', hr_RawQuery = [], hr_ContentType = [], hr_IdempotencyKey = [], hr_IfMatch = [],
     hr_Authorization = [], hr_Header = [], hr_Cookies = [], hr_body = Inl invalidParameter, hr_rejected = None\<rparr>"

definition demo_path :: string where "demo_path = ''/v1/namespaces/ns/services/svc/profiles/heap''"

definition demo_up :: upstreamRequest where
 "demo_up = \<lparr>up_Target = \<lparr>tg_Namespace = ''ns'', tg_Service = ''svc'', tg_Pod = ''a'', tg_Node = ''n'', tg_PodIP = ''10.0.0.1'',
          tg_Port = 6060, tg_Version = ''1'', tg_UID = ''u-a''\<rparr>, up_Path = ''/debug/pprof/heap'', up_Seconds = 0, up_TargetHeaders = [(''X-Pprof-Target-Pod'', ''a''), (''X-Pprof-Target-Node'', ''n''), (''X-Pprof-Target-Version'', ''1'')]\<rparr>"

lemma demo_fetch: "rq_upstream (sd_request (fst (run (serveHTTP demo_deps demo_config demo_situation (demo_get demo_path)) [] emptyWorld newReplica))) = Some demo_up"
  by code_simp
lemma fetch_is_earned_witness:
  "\<exists>(rt :: route) (params :: profileParams) targets. rq_upstream (sd_request (fst (run (serveHTTP demo_deps demo_config demo_situation (demo_get demo_path)) [] emptyWorld newReplica))) = Some demo_up \<and>
     Targets (dp_Cluster demo_deps) (rt_namespace rt) (rt_service rt) (pp_sel (pf_port params)) = Inr targets \<and>
     up_Target demo_up \<in> set targets \<and> Confirm (sn_podRead demo_situation) (sn_callerCanceled demo_situation) (up_Target demo_up) = None"
proof -
  have pick: "\<forall>n. n > 0 \<longrightarrow> sn_pick demo_situation n < n" by (simp add: demo_situation_def)
  obtain rt :: route and params :: profileParams and targets where
    "Targets (dp_Cluster demo_deps) (rt_namespace rt) (rt_service rt) (pp_sel (pf_port params)) = Inr targets"
    "up_Target demo_up \<in> set targets" "Confirm (sn_podRead demo_situation) (sn_callerCanceled demo_situation) (up_Target demo_up) = None"
    using fetch_is_earned [OF demo_fetch pick] by (elim exE conjE) (rule that)
  then show ?thesis using demo_fetch by (intro exI conjI)
qed

section \<open>Refusals\<close>














section \<open>Collections of another realm\<close>

text \<open>Two states of the stores in which a program gives the same value.\<close>

definition alike :: "world \<Rightarrow> world \<Rightarrow> (replica, 'a) prog \<Rightarrow> bool" where
  "alike w w' p \<longleftrightarrow> (\<forall>l. fst (run p [] w l) = fst (run p [] w' l))"

lemma alike_Ret: "alike w w' (Ret a)"
  by (simp add: alike_def)

lemma alike_bind: "alike w w' p \<Longrightarrow> alike w w' (bind p (\<lambda>a. Ret (f a)))"
  by (simp add: alike_def run_result)

lemma alike_inspect: "(\<And>l. alike w w' (c l)) \<Longrightarrow> alike w w' (inspect c)"
  by (simp add: alike_def run_inspect_result)

lemmas alike_rules = alike_Ret alike_bind alike_inspect

lemma run_read:
  assumes "lookup (w_jobs w) (jobKey i) = Some x" and "asJob (s_val x) = Some rec"
  shows "run (readCollection i c) [] w l = run (c (Inr \<lparr>sr_Record = rec, sr_Revision = s_rev x\<rparr>)) [] w l"
  using assms by (simp add: readCollection_def ReadRecord_def kv_get_def)

lemma run_read_missing:
  assumes "lookup (w_jobs w) (jobKey i) = None"
  shows "run (readCollection i c) [] w l = run (c (Inl errCollectionNotFound)) [] w l"
  using assms by (simp add: readCollection_def ReadRecord_def kv_get_def)

definition without :: "string \<Rightarrow> world \<Rightarrow> world" where
  "without i w = w\<lparr>w_jobs := remove (jobKey i) (w_jobs w)\<rparr>"

lemma alike_scoped:
  assumes "lookup (w_jobs w) (jobKey (rt_collection (rq_route q))) = Some x" and "asJob (s_val x) = Some rec"
    and "\<not> realmAllows realm ((rq_route q)\<lparr>rt_namespace := rc_Namespace rec, rt_service := rc_Service rec\<rparr>) (hr_Method req)"
  shows "alike w (without (rt_collection (rq_route q)) w) (serveCollectionScoped d sn req realm q)"
proof -
  let ?i = "rt_collection (rq_route q)"
  have gone: "lookup (w_jobs (without ?i w)) (jobKey ?i) = None" by (simp add: without_def)
  show ?thesis
    using assms(3) by (auto simp: alike_def serveCollectionScoped_def servePGOCollection_def Let_def run_result run_read [OF assms(1,2)]
        run_read_missing [OF gone] split: sum.split)
qed

lemma alike_credentialed:
  assumes "isCollectionScoped (rt_kind (rq_route q))" and "dp_Auth d req cfg = Inr p" and "map_of (cfg_Realms cfg) (pr_Realm p) = Some realm"
    and "lookup (w_jobs w) (jobKey (rt_collection (rq_route q))) = Some x" and "asJob (s_val x) = Some rec"
    and "\<not> realmAllows realm ((rq_route q)\<lparr>rt_namespace := rc_Namespace rec, rt_service := rc_Service rec\<rparr>) (hr_Method req)"
  shows "alike w (without (rt_collection (rq_route q)) w) (serveCredentialed d cfg sn req sp gen q)"
proof -
  define q1 where "q1 = onAudit (\<lambda>a. a\<lparr>au_principal := pr_Name p\<rparr>) q"
  have route: "rq_route q1 = rq_route q" by (simp add: q1_def)
  have auth: "authenticate d cfg (sn_ctx sn) req q = Inr (p, realm, q1)" using assms(2,3) by (simp add: authenticate_def q1_def)
  show ?thesis
    using assms(1,4-6) alike_scoped [of w q1 x rec realm req d sn] unfolding route
    by (simp add: serveCredentialed_def Let_def auth alike_Ret)
qed

text \<open>
  C5: A Collection of a Service the realm does not admit answers exactly as one that does not
  exist: reading, downloading or cancelling it gives the response the same request gets from
  stores that lack the record.
\<close>

theorem denied_collection_like_missing:
  assumes "matchRoute (lb_Label (dp_Libraries d)) (hr_Path req) = Some (rt, dc)" and "isCollectionScoped (rt_kind rt)"
    and "dp_Auth d req cfg = Inr p" and "map_of (cfg_Realms cfg) (pr_Realm p) = Some realm"
    and "lookup (w_jobs w) (jobKey (rt_collection rt)) = Some x" and "asJob (s_val x) = Some rec"
    and "\<not> realmAllows realm (rt\<lparr>rt_namespace := rc_Namespace rec, rt_service := rc_Service rec\<rparr>) (hr_Method req)"
  shows "sd_response (fst (run (serveHTTP d cfg sn req) [] w l)) =
    sd_response (fst (run (serveHTTP d cfg sn req) [] (without (rt_collection rt) w) l))"
proof -
  have q: "rq_route (routedRequest req rt) = rt" by (simp add: routedRequest_def newRequest_def)
  have cred: "alike w (without (rt_collection rt) w) (serveCredentialed d cfg sn req sp gen (routedRequest req rt))" for sp gen
    using alike_credentialed [of "routedRequest req rt" d req cfg p realm w x rec sn sp gen] assms q by simp
  have "alike w (without (rt_collection rt) w) (serveRouted d cfg sn req rt dc (routedRequest req rt))"
    unfolding serveRouted_def Let_def
    by (auto intro!: alike_rules cred split: option.split)
  then have "alike w (without (rt_collection rt) w) (serveHTTP d cfg sn req)"
    using assms(1) unfolding serveHTTP_def by (auto intro!: alike_rules)
  then show ?thesis unfolding alike_def by simp
qed

definition demo_collection :: string where "demo_collection = ''/v1/collections/aaaaaaaaaaaaaaaaaaaa''"

definition demo_pgo_config :: Config where
  "demo_pgo_config = demo_config\<lparr>cfg_PGOEnabled := True\<rparr>"

definition demo_stored :: world where
  "demo_stored = emptyWorld\<lparr>w_jobs := put (jobKey (rc_ID demo_record)) (VJob demo_record) 0 emptyBucket\<rparr>"

definition demo_pgo_deps :: Deps where
  "demo_pgo_deps = demo_deps\<lparr>dp_Bound := True, dp_Connected := True\<rparr>"

definition demo_scoped :: route where
  "demo_scoped = \<lparr>rt_kind = kindCollection, rt_namespace = [], rt_service = [], rt_profile = [], rt_collection = replicate 20 CHR ''a''\<rparr>"

lemma demo_scoped_match:
  "matchRoute (lb_Label (dp_Libraries demo_pgo_deps)) (hr_Path (demo_get demo_collection)) =
    Some (demo_scoped, decl ''/v1/collections/{id}'' kindCollection [MethodGet])"
  by code_simp

lemma demo_scoped_denied:
  "\<not> realmAllows demo_realm (demo_scoped\<lparr>rt_namespace := rc_Namespace demo_record, rt_service := rc_Service demo_record\<rparr>) ''GET''"
  by code_simp

lemma demo_scoped_answer:
  "sd_response (fst (run (serveHTTP demo_pgo_deps demo_pgo_config demo_situation (demo_get demo_collection)) [] demo_stored demo_ready)) =
     Envelope (ofApi errCollectionNotFound) []"
  by code_simp

lemma denied_collection_like_missing_witness:
  "sd_response (fst (run (serveHTTP demo_pgo_deps demo_pgo_config demo_situation (demo_get demo_collection)) []
      (without (rt_collection demo_scoped) demo_stored) demo_ready)) = Envelope (ofApi errCollectionNotFound) []"
proof (rule trans [OF sym demo_scoped_answer], rule denied_collection_like_missing [OF demo_scoped_match])
  show "isCollectionScoped (rt_kind demo_scoped)" by code_simp
  show "dp_Auth demo_pgo_deps (demo_get demo_collection) demo_pgo_config = Inr \<lparr>pr_Name = ''anonymous'', pr_Realm = ''dev''\<rparr>"
    by (simp add: demo_pgo_deps_def demo_deps_def Disabled_def demo_pgo_config_def demo_config_def)
  show "map_of (cfg_Realms demo_pgo_config) (pr_Realm \<lparr>pr_Name = ''anonymous'', pr_Realm = ''dev''\<rparr>) = Some demo_realm"
    by (simp add: demo_pgo_config_def demo_config_def)
  show "lookup (w_jobs demo_stored) (jobKey (rt_collection demo_scoped)) = Some \<lparr>s_val = VJob demo_record, s_rev = Suc (b_last emptyBucket), s_created = 0\<rparr>"
    by (simp add: demo_stored_def demo_scoped_def demo_record_def put_def lookup_def)
  show "asJob (s_val \<lparr>s_val = VJob demo_record, s_rev = Suc (b_last emptyBucket), s_created = 0\<rparr>) = Some demo_record" by simp
  show "\<not> realmAllows demo_realm (demo_scoped\<lparr>rt_namespace := rc_Namespace demo_record, rt_service := rc_Service demo_record\<rparr>)
    (hr_Method (demo_get demo_collection))" using demo_scoped_denied by (simp add: demo_get_def)
qed

section \<open>Reading realms\<close>

text \<open>A program that leaves the stores as they are, whatever they answer.\<close>

definition leaves :: "(replica, 'a) prog \<Rightarrow> bool" where
  "leaves p \<longleftrightarrow> (\<forall>fs w l. fst (snd (run p fs w l)) = w)"

lemma leaves_Ret: "leaves (Ret a)"
  by (simp add: leaves_def)

lemma leaves_bind: "leaves p \<Longrightarrow> leaves (bind p (\<lambda>a. Ret (f a)))"
  by (simp add: leaves_def run_bind split: prod.split) (metis fst_conv snd_conv)

lemma leaves_inspect: "(\<And>l. leaves (c l)) \<Longrightarrow> leaves (inspect c)"
  by (simp add: leaves_def inspect_def)

lemma leaves_Get: "(\<And>r. leaves (k r)) \<Longrightarrow> leaves (Call (OGet n key) k)"
proof -
  have "snd (exec f (OGet n key) w) = w" for f w by (cases f) auto
  then show "(\<And>r. leaves (k r)) \<Longrightarrow> leaves (Call (OGet n key) k)"
    by (simp add: leaves_def Let_def split: prod.split) (metis snd_conv)
qed

lemma leaves_emit: "leaves p \<Longrightarrow> leaves (emit ev p)"
  by (simp add: leaves_def emit_def modify_def)

lemmas leaves_rules = leaves_Ret leaves_bind leaves_inspect leaves_Get leaves_emit

lemma leaves_read: "(\<And>r. leaves (c r)) \<Longrightarrow> leaves (readCollection i c)"
  unfolding readCollection_def ReadRecord_def
  by (auto intro!: leaves_rules split: sum.split option.split kv_err.split)

text \<open>The realm may read PGO state and nothing more.\<close>

definition reading :: "Realm \<Rightarrow> bool" where
  "reading realm \<longleftrightarrow> \<not> rp_Collect (rl_PGO realm) \<and> \<not> rp_Configure (rl_PGO realm)"

lemma get_only_declarations:
  "d \<in> set routeTable \<Longrightarrow> isPGO (dc_Kind d) \<Longrightarrow> dc_Kind d \<notin> {kindPGOPolicy, kindCollections, kindCollectionCancel} \<Longrightarrow> dc_Methods d = [MethodGet]"
proof -
  have "list_all (\<lambda>d. isPGO (dc_Kind d) \<longrightarrow> dc_Kind d \<notin> {kindPGOPolicy, kindCollections, kindCollectionCancel} \<longrightarrow> dc_Methods d = [MethodGet]) routeTable"
    by code_simp
  then show "d \<in> set routeTable \<Longrightarrow> isPGO (dc_Kind d) \<Longrightarrow> dc_Kind d \<notin> {kindPGOPolicy, kindCollections, kindCollectionCancel} \<Longrightarrow> dc_Methods d = [MethodGet]"
    by (auto simp: list_all_iff)
qed

lemma leaves_credentialed:
  assumes "hr_Method req \<noteq> MethodGet"
    and "\<And>p realm. dp_Auth d req cfg = Inr p \<Longrightarrow> map_of (cfg_Realms cfg) (pr_Realm p) = Some realm \<Longrightarrow> reading realm"
    and "isPGO (rt_kind (rq_route q)) \<Longrightarrow> rt_kind (rq_route q) \<in> {kindPGOPolicy, kindCollections, kindCollectionCancel}"
  shows "leaves (serveCredentialed d cfg sn req sp gen q)"
proof (cases "authenticate d cfg (sn_ctx sn) req q")
  case (Inl r)
  then show ?thesis by (simp add: serveCredentialed_def Let_def leaves_Ret)
next
  case (Inr x)
  obtain p realm q1 where x: "x = (p, realm, q1)" by (metis prod.collapse)
  have realm: "reading realm" and route: "rq_route q1 = rq_route q"
    using assms(2) authenticate_ok [of d cfg "sn_ctx sn" req q p realm q1] Inr x by auto
  have deny: "\<not> realmAllows realm (rt\<lparr>rt_namespace := ns, rt_service := svc\<rparr>) (hr_Method req)"
    if "rt_kind rt \<in> {kindPGOPolicy, kindCollections, kindCollectionCancel}" for rt ns svc
    using realm that assms(1) by (auto simp: realmAllows_def reading_def pgoAllows_def)
  have scoped: "leaves (serveCollectionScoped d sn req realm q1)" if "isCollectionScoped (rt_kind (rq_route q))"
    using deny [of "rq_route q"] assms(3) that unfolding serveCollectionScoped_def servePGOCollection_def Let_def route
    by (auto intro!: leaves_rules leaves_read split: sum.split)
  have "isPGO (rt_kind (rq_route q)) \<Longrightarrow> \<not> realmAllows realm (rq_route q) (hr_Method req)"
    using realm assms(1,3) by (auto simp: realmAllows_def reading_def pgoAllows_def)
  then show ?thesis using scoped by (auto simp: serveCredentialed_def Let_def Inr x intro!: leaves_rules)
qed

text \<open>
  C6: A realm without \<open>pgo.collect\<close> and \<open>pgo.configure\<close> changes nothing: no request of its
  principals with a method other than GET, on any route, changes what the stores hold, whatever
  the stores answer.
\<close>

theorem reading_realm_writes_nothing:
  assumes "hr_Method req \<noteq> ''GET''"
    and "\<And>p realm. dp_Auth d req cfg = Inr p \<Longrightarrow> map_of (cfg_Realms cfg) (pr_Realm p) = Some realm \<Longrightarrow>
      \<not> rp_Collect (rl_PGO realm) \<and> \<not> rp_Configure (rl_PGO realm)"
  shows "fst (snd (run (serveHTTP d cfg sn req) faults stores l)) = stores"
proof -
  have get: "hr_Method req \<noteq> MethodGet" using assms(1) by (simp add: MethodGet_def)
  have realms: "\<And>p realm. dp_Auth d req cfg = Inr p \<Longrightarrow> map_of (cfg_Realms cfg) (pr_Realm p) = Some realm \<Longrightarrow> reading realm"
    using assms(2) by (simp add: reading_def)
  have "leaves (serveRouted d cfg sn req rt dc (routedRequest req rt))"
    if m: "matchRoute (lb_Label (dp_Libraries d)) (hr_Path req) = Some (rt, dc)" for rt dc
  proof -
    have dc: "dc \<in> set routeTable" "rt_kind rt = dc_Kind dc"
      using m matchIn_Some bindRoute_kind unfolding matchRoute_def by blast+
    have q: "rq_route (routedRequest req rt) = rt" by (simp add: routedRequest_def newRequest_def)
    show ?thesis
    proof (cases "isPGO (rt_kind rt) \<and> rt_kind rt \<notin> {kindPGOPolicy, kindCollections, kindCollectionCancel}")
      case True
      have "dc_Methods dc = [MethodGet]"
        by (rule get_only_declarations [OF dc(1)]) (use True dc(2) in \<open>simp_all only: not_False_eq_True\<close>)
      then have "\<not> List.member (dc_Methods dc) (hr_Method req)" using get by (simp add: List.member_iff)
      then show ?thesis unfolding serveRouted_def Let_def by (auto intro!: leaves_rules)
    next
      case False
      have cred: "leaves (serveCredentialed d cfg sn req sp gen (routedRequest req rt))" for sp gen
        by (rule leaves_credentialed [OF get realms]) (use False q in auto)
      show ?thesis unfolding serveRouted_def Let_def by (auto intro!: leaves_rules cred split: option.split)
    qed
  qed
  then have "leaves (serveHTTP d cfg sn req)" unfolding serveHTTP_def by (auto intro!: leaves_rules split: option.split)
  then show ?thesis unfolding leaves_def by simp
qed

text \<open>A cancel of a Collection that is running, by a principal of a realm that may read it and nothing more.\<close>

definition demo_cancel :: httpRequest where
  "demo_cancel = (demo_get (demo_collection @ ''/cancel''))\<lparr>hr_Method := ''POST'', hr_ContentType := [''application/json'']\<rparr>"

definition demo_reader :: Config where
  "demo_reader = demo_pgo_config\<lparr>cfg_Realms := [(''dev'', demo_realm\<lparr>rl_PGO := \<lparr>rp_Read = True, rp_Collect = False, rp_Configure = False\<rparr>\<rparr>)]\<rparr>"

lemma demo_cancel_answer:
  "sd_response (fst (run (serveHTTP demo_pgo_deps demo_reader demo_situation demo_cancel) [] demo_stored demo_ready)) =
     Envelope (ofApi errCollectionNotFound) []"
  by code_simp

lemma reading_realm_writes_nothing_witness:
  "sd_response (fst (run (serveHTTP demo_pgo_deps demo_reader demo_situation demo_cancel) [] demo_stored demo_ready)) =
     Envelope (ofApi errCollectionNotFound) [] \<and>
   fst (snd (run (serveHTTP demo_pgo_deps demo_reader demo_situation demo_cancel) [] demo_stored demo_ready)) = demo_stored"
proof (intro conjI reading_realm_writes_nothing demo_cancel_answer)
  show "hr_Method demo_cancel \<noteq> ''GET''" by (simp add: demo_cancel_def)
  fix p realm
  assume p: "dp_Auth demo_pgo_deps demo_cancel demo_reader = Inr p" and r: "map_of (cfg_Realms demo_reader) (pr_Realm p) = Some realm"
  have "realm = demo_realm\<lparr>rl_PGO := \<lparr>rp_Read = True, rp_Collect = False, rp_Configure = False\<rparr>\<rparr>"
    using p r by (auto simp: demo_pgo_deps_def demo_deps_def Disabled_def demo_reader_def demo_pgo_config_def demo_config_def split: if_splits)
  then show "\<not> rp_Collect (rl_PGO realm)" "\<not> rp_Configure (rl_PGO realm)" by simp_all
qed

end
