(* ===== verification/Credentials.thy ===== *)
theory Credentials
  imports Gateway
begin

text \<open>
  Basic authentication (\<open>internal/auth/basic.go\<close>, \<open>users.go\<close>, \<open>poll.go\<close>) and the validation of a user
  set (\<open>internal/config/users.go\<close>): the reading of the header, the one comparison of a request, and
  the users file that is read again and swapped whole.

  bcrypt, the YAML parser, SHA-256 and the random source are arguments: \<open>compare\<close>, \<open>parse\<close>, \<open>sha\<close>
  and \<open>mint\<close>, the dummy hash minted at a cost.
\<close>

section \<open>Strings of a header\<close>

text \<open>\<open>base64.StdEncoding\<close>: the standard alphabet, padded; the decoder skips carriage returns and line feeds.\<close>

definition stdAlphabet :: string where
  "stdAlphabet = ''ABCDEFGHIJKLMNOPQRSTUVWXYZabcdefghijklmnopqrstuvwxyz0123456789+/''"

definition stdVal :: "char \<Rightarrow> nat option" where
  "stdVal c = (if c \<in> set stdAlphabet then Some (length (takeWhile (\<lambda>x. x \<noteq> c) stdAlphabet)) else None)"

definition stdBody :: "string \<Rightarrow> string" where
  "stdBody t =
     (if drop (length t - 2) t = ''=='' then take (length t - 2) t
      else if drop (length t - 1) t = ''='' then take (length t - 1) t else t)"

definition stdDecodeString :: "string \<Rightarrow> string option" where
  "stdDecodeString s =
     (let t = filter (\<lambda>c. c \<noteq> CHR 0x0A \<and> c \<noteq> CHR 0x0D) s; vals = map stdVal (stdBody t)
      in if length t mod 4 \<noteq> 0 \<or> None \<in> set vals then None else map_option (map char_of) (b64bytes (map the vals)))"

definition stdEncodeToString :: "string \<Rightarrow> string" where
  "stdEncodeToString s =
     (let body = map (\<lambda>n. stdAlphabet ! n) (b64groups (map of_char s))
      in body @ replicate ((4 - length body mod 4) mod 4) (CHR ''=''))"

text \<open>
  \<open>strings.EqualFold\<close> against an ASCII token: letters fold by case, and the long s (C5 BF) and the
  Kelvin sign (E2 84 AA) fold to s and k.
\<close>

definition toLower :: "char \<Rightarrow> char" where
  "toLower c = (if CHR ''A'' \<le> c \<and> c \<le> CHR ''Z'' then char_of (of_char c + 32 :: nat) else c)"

fun equalFold :: "string \<Rightarrow> string \<Rightarrow> bool" where
  "equalFold s [] \<longleftrightarrow> s = []"
| "equalFold s (t # ts) \<longleftrightarrow>
     (case s of
        [] \<Rightarrow> False
      | c # cs \<Rightarrow>
          if toLower c = toLower t then equalFold cs ts
          else if toLower t = CHR ''s'' \<and> hasPrefix [CHR 0xC5, CHR 0xBF] s then equalFold (drop 2 s) ts
          else if toLower t = CHR ''k'' \<and> hasPrefix [CHR 0xE2, CHR 0x84, CHR 0xAA] s then equalFold (drop 3 s) ts
          else False)"

text \<open>\<open>strings.TrimSpace\<close>: the white space of Unicode, by its UTF-8 encodings.\<close>

definition spaces :: "string list" where
  "spaces = [[CHR 0x09], [CHR 0x0A], [CHR 0x0B], [CHR 0x0C], [CHR 0x0D], [CHR 0x20], [CHR 0xC2, CHR 0x85], [CHR 0xC2, CHR 0xA0],
     [CHR 0xE1, CHR 0x9A, CHR 0x80]] @ map (\<lambda>n. [CHR 0xE2, CHR 0x80, char_of (n :: nat)]) ([0x80..<0x8B] @ [0xA8, 0xA9, 0xAF]) @
     [[CHR 0xE2, CHR 0x81, CHR 0x9F], [CHR 0xE3, CHR 0x80, CHR 0x80]]"

function trimLeft :: "string list \<Rightarrow> string \<Rightarrow> string" where
  "trimLeft sp s = (case find (\<lambda>w. w \<noteq> [] \<and> hasPrefix w s) sp of None \<Rightarrow> s | Some w \<Rightarrow> trimLeft sp (drop (length w) s))"
  by pat_completeness auto
termination
proof (relation "measure (\<lambda>(_, s). length s)")
  fix sp s w
  assume "find (\<lambda>w. w \<noteq> [] \<and> hasPrefix w s) sp = Some w"
  then have "w \<noteq> []" "hasPrefix w s" by (auto simp: find_Some_iff)
  then show "((sp, drop (length w) s), (sp, s)) \<in> measure (\<lambda>(_, s). length s)" by (auto simp: hasPrefix_iff)
qed simp

declare trimLeft.simps [simp del]

definition trimSpace :: "string \<Rightarrow> string" where
  "trimSpace s = rev (trimLeft (map rev spaces) (rev (trimLeft spaces s)))"

section \<open>The user set\<close>

record BasicUser =
  bu_Name :: string
  bu_PasswordHash :: string
  bu_Realm :: string

definition minBcryptCost :: nat where "minBcryptCost = 10"
definition maxBcryptCost :: nat where "maxBcryptCost = 14"
definition maxUserNameBytes :: nat where "maxUserNameBytes = 256"

definition hashChar :: "char \<Rightarrow> bool" where
  "hashChar c \<longleftrightarrow> c = CHR ''.'' \<or> c = CHR ''/'' \<or> (CHR ''A'' \<le> c \<and> c \<le> CHR ''Z'') \<or> (CHR ''a'' \<le> c \<and> c \<le> CHR ''z'') \<or> isDigit c"

text \<open>The two cost digits of a string of the bcrypt grammar.\<close>

definition bcryptHash :: "string \<Rightarrow> nat option" where
  "bcryptHash s = (case s of
     a # b # v # c # d1 # d2 # e # rest \<Rightarrow>
       if a = CHR ''$'' \<and> b = CHR ''2'' \<and> v \<in> {CHR ''a'', CHR ''b'', CHR ''y''} \<and> c = CHR ''$'' \<and> isDigit d1 \<and> isDigit d2 \<and>
          e = CHR ''$'' \<and> length rest = 53 \<and> list_all hashChar rest
       then Some (10 * digitVal d1 + digitVal d2) else None
   | _ \<Rightarrow> None)"

definition hashCost :: "string \<Rightarrow> nat option" where
  "hashCost hash = (case bcryptHash hash of
     None \<Rightarrow> None
   | Some cost \<Rightarrow> if cost < minBcryptCost \<or> cost > maxBcryptCost then None else Some cost)"

text \<open>What is wrong with a user set; an entry is named by its half (of the file) and its position.\<close>

datatype userFault = NameLength | NameColon | NameDuplicate | NotAHash | CostDiffers | RealmRequired | RealmUnknown

datatype userError = NoUsers | UserAt bool nat userFault

definition validateUserName :: "string \<Rightarrow> string list \<Rightarrow> userFault option" where
  "validateUserName name met =
     (if length name < 1 \<or> length name > maxUserNameBytes then Some NameLength
      else if CHR '':'' \<in> set name then Some NameColon
      else if List.member met name then Some NameDuplicate
      else None)"

text \<open>The loop over one half; the state is the names met and the cost, 0 before the first user.\<close>

fun validateUsers :: "(string \<times> Realm) list \<Rightarrow> bool \<Rightarrow> nat \<Rightarrow> BasicUser list \<Rightarrow> string list \<times> nat \<Rightarrow> userError + string list \<times> nat" where
  "validateUsers realms ofFile i [] st = Inr st"
| "validateUsers realms ofFile i (user # users) (met, cost) =
     (case validateUserName (bu_Name user) met of
        Some f \<Rightarrow> Inl (UserAt ofFile i f)
      | None \<Rightarrow>
          (case hashCost (bu_PasswordHash user) of
             None \<Rightarrow> Inl (UserAt ofFile i NotAHash)
           | Some userCost \<Rightarrow>
               if cost \<noteq> 0 \<and> userCost \<noteq> cost then Inl (UserAt ofFile i CostDiffers)
               else if bu_Realm user = [] then Inl (UserAt ofFile i RealmRequired)
               else if map_of realms (bu_Realm user) = None then Inl (UserAt ofFile i RealmUnknown)
               else validateUsers realms ofFile (Suc i) users (bu_Name user # met, userCost)))"

definition ValidateBasicUsers :: "BasicUser list \<Rightarrow> BasicUser list \<Rightarrow> (string \<times> Realm) list \<Rightarrow> userError + nat" where
  "ValidateBasicUsers inline file realms =
     (if length inline + length file = 0 then Inl NoUsers
      else case validateUsers realms False 0 inline ([], 0) of
        Inl e \<Rightarrow> Inl e
      | Inr st \<Rightarrow>
          (case validateUsers realms True 0 file st of
             Inl e \<Rightarrow> Inl e
           | Inr (_, cost) \<Rightarrow> Inr cost))"

record userSet =
  us_users :: "(string \<times> BasicUser) list"
  us_dummy :: string

text \<open>\<open>mint\<close> answers \<open>None\<close> when the random source or bcrypt fails.\<close>

definition newUserSet :: "(nat \<Rightarrow> string option) \<Rightarrow> BasicUser list \<Rightarrow> BasicUser list \<Rightarrow> (string \<times> Realm) list \<Rightarrow> userSet option" where
  "newUserSet mint inline file realms =
     (case ValidateBasicUsers inline file realms of
        Inl _ \<Rightarrow> None
      | Inr cost \<Rightarrow>
          map_option (\<lambda>dummy. \<lparr>us_users = fold (\<lambda>u m. map_put (bu_Name u) u m) file [], us_dummy = dummy\<rparr>) (mint cost))"

section \<open>One request\<close>

definition maxBasicHeaderBytes :: nat where "maxBasicHeaderBytes = 1024"
definition maxPasswordBytes :: nat where "maxPasswordBytes = 72"
definition basicScheme :: string where "basicScheme = ''Basic''"

definition unauthorized :: "string \<Rightarrow> Failure" where
  "unauthorized reason = \<lparr>fl_Status = 401, fl_Reason = reason, fl_Redirect = [], fl_ClearSession = False\<rparr>"

definition lookupUser :: "string \<Rightarrow> BasicUser list \<Rightarrow> userSet \<Rightarrow> BasicUser option \<times> string" where
  "lookupUser name inline us =
     (case find (\<lambda>u. bu_Name u = name) inline of
        Some u \<Rightarrow> (Some u, bu_PasswordHash u)
      | None \<Rightarrow>
          (case map_of (us_users us) name of
             Some u \<Rightarrow> (Some u, bu_PasswordHash u)
           | None \<Rightarrow> (None, us_dummy us)))"

definition parseBasic :: "string \<Rightarrow> Failure + string \<times> string" where
  "parseBasic header =
     (if header = [] then Inl (unauthorized ''missing'')
      else case cut (CHR '' '') header of (scheme, rest) \<Rightarrow>
        if \<not> equalFold scheme basicScheme then Inl (unauthorized ''scheme'')
        else if length header > maxBasicHeaderBytes then Inl (unauthorized ''malformed'')
        else case stdDecodeString (trimSpace rest) of
          None \<Rightarrow> Inl (unauthorized ''malformed'')
        | Some plain \<Rightarrow>
            (case cutChar (CHR '':'') plain of
               None \<Rightarrow> Inl (unauthorized ''malformed'')
             | Some (name, password) \<Rightarrow>
                 if length password > maxPasswordBytes then Inl (unauthorized ''malformed'')
                 else Inr (name, password)))"

text \<open>
  \<open>Basic.Authenticate\<close> with the comparisons it made, hash and password.  \<open>users\<close> is the inline half
  of the configuration snapshot, absent when the block is; \<open>slot\<close> says whether the gate has a token.
\<close>

definition basicAuthenticate :: "(string \<Rightarrow> string \<Rightarrow> bool) \<Rightarrow> BasicUser list option \<Rightarrow> bool \<Rightarrow> userSet \<Rightarrow> string
    \<Rightarrow> (authError + Principal) \<times> (string \<times> string) list" where
  "basicAuthenticate compare users slot us header =
     (case users of
        None \<Rightarrow> (Inl Unclassified, [])
      | Some inline \<Rightarrow>
          (case parseBasic header of
             Inl f \<Rightarrow> (Inl (Classified f), [])
           | Inr (name, password) \<Rightarrow>
               if \<not> slot then (Inl (Classified (unauthorized ''throttled''\<lparr>fl_Status := 429\<rparr>)), [])
               else case lookupUser name inline us of (user, hash) \<Rightarrow>
                 (case user of
                    Some u \<Rightarrow>
                      if compare hash password then (Inr \<lparr>pr_Name = bu_Name u, pr_Realm = bu_Realm u\<rparr>, [(hash, password)])
                      else (Inl (Classified (unauthorized ''bad_credential'')), [(hash, password)])
                  | None \<Rightarrow> (Inl (Classified (unauthorized ''bad_credential'')), [(hash, password)]))))"

section \<open>A file read again\<close>

text \<open>
  \<open>filePoller\<close> with the state its \<open>apply\<close> owns.  A read answers the bytes, or nothing when it fails.
\<close>

record 's filePoller =
  po_sum :: string
  po_loaded :: bool
  po_state :: 's

definition Poll :: "(string \<Rightarrow> string) \<Rightarrow> (string \<Rightarrow> 's option) \<Rightarrow> string option \<Rightarrow> 's filePoller \<Rightarrow> 's filePoller" where
  "Poll sha apply read p =
     (case read of
        None \<Rightarrow> p
      | Some b \<Rightarrow>
          if po_loaded p \<and> sha b = po_sum p then p
          else case apply b of
            None \<Rightarrow> p
          | Some st \<Rightarrow> \<lparr>po_sum = sha b, po_loaded = True, po_state = st\<rparr>)"

definition loadFile :: "(string \<Rightarrow> string) \<Rightarrow> (string \<Rightarrow> 's option) \<Rightarrow> string option \<Rightarrow> 's filePoller option" where
  "loadFile sha apply read =
     (case read of
        None \<Rightarrow> None
      | Some b \<Rightarrow> map_option (\<lambda>st. \<lparr>po_sum = sha b, po_loaded = True, po_state = st\<rparr>) (apply b))"

definition applyUsersFile :: "(string \<Rightarrow> BasicUser list option) \<Rightarrow> (nat \<Rightarrow> string option) \<Rightarrow> BasicUser list \<Rightarrow> (string \<times> Realm) list
    \<Rightarrow> string \<Rightarrow> userSet option" where
  "applyUsersFile parse mint inline realms raw =
     (case parse raw of None \<Rightarrow> None | Some file \<Rightarrow> newUserSet mint inline file realms)"

text \<open>
  \<open>NewBasic\<close>: with a users file the poller loads it; without one the set is made of no file users,
  and there is nothing to poll.
\<close>

record basicConfig =
  bc_Users :: "BasicUser list"
  bc_UsersFile :: string

definition NewBasic :: "(string \<Rightarrow> string) \<Rightarrow> (string \<Rightarrow> BasicUser list option) \<Rightarrow> (nat \<Rightarrow> string option) \<Rightarrow> basicConfig
    \<Rightarrow> (string \<times> Realm) list \<Rightarrow> string option \<Rightarrow> userSet filePoller option" where
  "NewBasic sha parse mint bc realms read =
     (if bc_UsersFile bc \<noteq> [] then loadFile sha (applyUsersFile parse mint (bc_Users bc) realms) read
      else map_option (\<lambda>us. \<lparr>po_sum = [], po_loaded = False, po_state = us\<rparr>) (newUserSet mint (bc_Users bc) [] realms))"

text \<open>\<open>Basic.Run\<close> over the polls of a run: what each read and the source its dummy hash is minted from.\<close>

definition RunPolls :: "(string \<Rightarrow> string) \<Rightarrow> (string \<Rightarrow> BasicUser list option) \<Rightarrow> basicConfig \<Rightarrow> (string \<times> Realm) list
    \<Rightarrow> (string option \<times> (nat \<Rightarrow> string option)) list \<Rightarrow> userSet filePoller \<Rightarrow> userSet filePoller" where
  "RunPolls sha parse bc realms polls p =
     (if bc_UsersFile bc = [] then p
      else fold (\<lambda>(read, mint) p. Poll sha (applyUsersFile parse mint (bc_Users bc) realms) read p) polls p)"

section \<open>Which user sets are valid\<close>

definition userOK :: "(string \<times> Realm) list \<Rightarrow> nat \<Rightarrow> BasicUser \<Rightarrow> bool" where
  "userOK realms cost u \<longleftrightarrow> 1 \<le> length (bu_Name u) \<and> length (bu_Name u) \<le> maxUserNameBytes \<and> CHR '':'' \<notin> set (bu_Name u) \<and>
     hashCost (bu_PasswordHash u) = Some cost \<and> bu_Realm u \<noteq> [] \<and> map_of realms (bu_Realm u) \<noteq> None"

lemma hashCost_range: "hashCost h = Some c \<Longrightarrow> 10 \<le> c \<and> c \<le> 14"
  by (auto simp: hashCost_def minBcryptCost_def maxBcryptCost_def split: option.splits if_splits)

lemma validateUserName_None: "validateUserName name met = None \<longleftrightarrow>
    1 \<le> length name \<and> length name \<le> maxUserNameBytes \<and> CHR '':'' \<notin> set name \<and> name \<notin> set met"
  by (auto simp: validateUserName_def List.member_iff Suc_le_eq)

lemma validateUsers_Cons:
  "validateUsers realms h i (u # us) (met, cost) = Inr r \<longleftrightarrow>
     (\<exists>c. userOK realms c u \<and> bu_Name u \<notin> set met \<and> (cost = 0 \<or> c = cost) \<and> validateUsers realms h (Suc i) us (bu_Name u # met, c) = Inr r)"
  using validateUserName_None [of "bu_Name u" met]
  by (cases "validateUserName (bu_Name u) met"; cases "hashCost (bu_PasswordHash u)") (auto simp: userOK_def)

lemma validateUsers_Inr:
  "validateUsers realms h i us (met, cost) = Inr (met', c) \<longleftrightarrow>
     met' = rev (map bu_Name us) @ met \<and> distinct (map bu_Name us) \<and> set (map bu_Name us) \<inter> set met = {} \<and>
     (\<forall>u \<in> set us. userOK realms c u) \<and> (if us = [] then c = cost else cost = 0 \<or> c = cost)"
proof (induction us arbitrary: i met cost)
  case Nil
  show ?case by auto
next
  case (Cons u us)
  have pos: "userOK realms k u \<Longrightarrow> k \<noteq> 0" for k using hashCost_range by (force simp: userOK_def)
  have "validateUsers realms h i (u # us) (met, cost) = Inr (met', c) \<longleftrightarrow>
      (\<exists>k. userOK realms k u \<and> bu_Name u \<notin> set met \<and> (cost = 0 \<or> k = cost) \<and>
        met' = rev (map bu_Name us) @ bu_Name u # met \<and> distinct (map bu_Name us) \<and> set (map bu_Name us) \<inter> set (bu_Name u # met) = {} \<and>
        (\<forall>u \<in> set us. userOK realms c u) \<and> (if us = [] then c = k else k = 0 \<or> c = k))"
    unfolding validateUsers_Cons Cons.IH by simp
  also have "\<dots> \<longleftrightarrow> userOK realms c u \<and> bu_Name u \<notin> set met \<and> (cost = 0 \<or> c = cost) \<and>
        met' = rev (map bu_Name us) @ bu_Name u # met \<and> distinct (map bu_Name us) \<and> set (map bu_Name us) \<inter> set (bu_Name u # met) = {} \<and>
        (\<forall>u \<in> set us. userOK realms c u)"
    using pos by (auto split: if_splits)
  also have "\<dots> \<longleftrightarrow> met' = rev (map bu_Name (u # us)) @ met \<and> distinct (map bu_Name (u # us)) \<and> set (map bu_Name (u # us)) \<inter> set met = {} \<and>
        (\<forall>u \<in> set (u # us). userOK realms c u) \<and> (if u # us = [] then c = cost else cost = 0 \<or> c = cost)"
    by auto
  finally show ?case .
qed

text \<open>
  \<open>ValidateBasicUsers\<close> answers a cost exactly for the user sets the mode allows: there is a
  user; over both halves the names are distinct, of 1 to 256 bytes and without a colon; every hash
  is a bcrypt hash of that one cost, between 10 and 14; and every realm exists.
\<close>

theorem ValidateBasicUsers_decides:
  "ValidateBasicUsers inline file realms = Inr cost \<longleftrightarrow>
     inline @ file \<noteq> [] \<and> distinct (map bu_Name (inline @ file)) \<and> (\<forall>u \<in> set (inline @ file). userOK realms cost u)"
proof -
  have "ValidateBasicUsers inline file realms = Inr cost \<longleftrightarrow> inline @ file \<noteq> [] \<and>
      (\<exists>met k met'. validateUsers realms False 0 inline ([], 0) = Inr (met, k) \<and> validateUsers realms True 0 file (met, k) = Inr (met', cost))"
    by (auto simp: ValidateBasicUsers_def split: sum.split prod.split)
  also have "\<dots> \<longleftrightarrow> inline @ file \<noteq> [] \<and> distinct (map bu_Name (inline @ file)) \<and> (\<forall>u \<in> set (inline @ file). userOK realms cost u)"
  proof (cases "inline = []")
    case True
    then show ?thesis by (auto simp: validateUsers_Inr)
  next
    case False
    then obtain u where u: "u \<in> set inline" by (cases inline) auto
    have pos: "userOK realms k u \<Longrightarrow> k \<noteq> 0" for k using hashCost_range by (force simp: userOK_def)
    show ?thesis using False u pos by (cases "file = []") (auto simp: validateUsers_Inr intro!: exI [of _ cost])
  qed
  finally show ?thesis .
qed

section \<open>The set in force\<close>

text \<open>
  What a file poller keeps of its state, for every file whose \<open>apply\<close> answers valid states only:
  the users file here, the cookie key file in the browser flow.
\<close>

locale reloadable =
  fixes valid :: "'s \<Rightarrow> bool" and applies :: "(string \<Rightarrow> 's option) set"
  assumes apply_valid: "f \<in> applies \<Longrightarrow> f raw = Some st \<Longrightarrow> valid st"
begin

lemma poll_valid: "valid (po_state p) \<Longrightarrow> f \<in> applies \<Longrightarrow> valid (po_state (Poll sha f read p))"
  using apply_valid by (auto simp: Poll_def split: option.split)

lemma load_valid: "f \<in> applies \<Longrightarrow> loadFile sha f read = Some p \<Longrightarrow> valid (po_state p)"
  using apply_valid by (auto simp: loadFile_def split: option.splits)

lemma polls_valid:
  "valid (po_state p) \<Longrightarrow> \<forall>(read, x) \<in> set polls. f x \<in> applies \<Longrightarrow>
     valid (po_state (fold (\<lambda>(read, x) p. Poll sha (f x) read p) polls p))"
  by (induction polls arbitrary: p) (auto simp: poll_valid)

end

text \<open>Every hash of the set in force, the dummy included, is at one cost, and every realm exists.\<close>

definition inForce :: "(string \<times> Realm) list \<Rightarrow> BasicUser list \<Rightarrow> nat \<Rightarrow> userSet \<Rightarrow> bool" where
  "inForce realms inline cost us \<longleftrightarrow> (\<forall>u \<in> set inline. userOK realms cost u) \<and>
     (\<forall>n u. map_of (us_users us) n = Some u \<longrightarrow> bu_Name u = n \<and> userOK realms cost u \<and> n \<notin> bu_Name ` set inline) \<and>
     hashCost (us_dummy us) = Some cost"

text \<open>\<open>bcrypt.GenerateFromPassword\<close> at a cost answers a hash of that cost.\<close>

definition mintOK :: "(nat \<Rightarrow> string option) \<Rightarrow> bool" where
  "mintOK mint \<longleftrightarrow> (\<forall>c h. 10 \<le> c \<longrightarrow> c \<le> 14 \<longrightarrow> mint c = Some h \<longrightarrow> hashCost h = Some c)"

lemma map_of_users: "map_of (fold (\<lambda>u m. map_put (bu_Name u) u m) us m) n = Some u \<Longrightarrow> map_of m n = Some u \<or> u \<in> set us \<and> bu_Name u = n"
proof (induction us arbitrary: m)
  case (Cons a us)
  then show ?case using Cons.IH [of "map_put (bu_Name a) a m"] by (auto split: if_splits)
qed simp

lemma newUserSet_inForce:
  assumes "newUserSet mint inline file realms = Some us" and "mintOK mint"
  shows "\<exists>cost. inForce realms inline cost us"
proof -
  obtain cost where v: "ValidateBasicUsers inline file realms = Inr cost"
    using assms(1) by (cases "ValidateBasicUsers inline file realms") (simp_all add: newUserSet_def)
  then obtain dummy where d: "mint cost = Some dummy"
    and us: "us = \<lparr>us_users = fold (\<lambda>u m. map_put (bu_Name u) u m) file [], us_dummy = dummy\<rparr>"
    using assms(1) by (cases "mint cost") (simp_all add: newUserSet_def)
  have ok: "inline @ file \<noteq> []" "distinct (map bu_Name (inline @ file))" "\<forall>u \<in> set (inline @ file). userOK realms cost u"
    using v unfolding ValidateBasicUsers_decides by blast+
  obtain u where "u \<in> set (inline @ file)" using ok(1) last_in_set [of "inline @ file"] by blast
  then have "10 \<le> cost" "cost \<le> 14" using ok(3) hashCost_range [of "bu_PasswordHash u" cost] by (auto simp: userOK_def)
  then have "hashCost dummy = Some cost" using assms(2) d by (simp add: mintOK_def)
  moreover have "bu_Name u = n \<and> userOK realms cost u \<and> n \<notin> bu_Name ` set inline" if "map_of (us_users us) n = Some u" for n u
  proof -
    have u: "u \<in> set file" "bu_Name u = n" using map_of_users [of "file" "[]" n u] that us by simp_all
    moreover have "n \<notin> bu_Name ` set inline" using ok(2) u by (simp add: disjoint_iff) blast
    ultimately show ?thesis using ok(3) by simp
  qed
  moreover have "us_dummy us = dummy" using us by simp
  ultimately show ?thesis using ok(3) unfolding inForce_def by (intro exI [of _ cost]) simp
qed

lemma applyUsersFile_inForce:
  "applyUsersFile parse mint inline realms raw = Some us \<Longrightarrow> mintOK mint \<Longrightarrow> \<exists>cost. inForce realms inline cost us"
  by (auto simp: applyUsersFile_def split: option.splits intro: newUserSet_inForce)

interpretation users: reloadable "\<lambda>us. \<exists>cost. inForce realms inline cost us" "{applyUsersFile parse mint inline realms | mint. mintOK mint}"
  for realms inline parse
  by unfold_locales (auto intro: applyUsersFile_inForce)

lemma RunPolls_inForce:
  assumes "NewBasic sha parse mint bc realms read = Some p" and "mintOK mint" and "\<forall>(read, mint) \<in> set polls. mintOK mint"
  shows "\<exists>cost. inForce realms (bc_Users bc) cost (po_state (RunPolls sha parse bc realms polls p))"
proof -
  have "\<exists>cost. inForce realms (bc_Users bc) cost (po_state p)"
    using assms(1,2) users.load_valid [of _ parse "bc_Users bc" realms sha read p] newUserSet_inForce
    by (fastforce simp: NewBasic_def split: if_splits)
  moreover have "\<forall>(read, mint) \<in> set polls. applyUsersFile parse mint (bc_Users bc) realms \<in> {applyUsersFile parse mint (bc_Users bc) realms | mint. mintOK mint}"
    using assms(3) by auto
  ultimately show ?thesis
    using users.polls_valid [of realms "bc_Users bc" p polls "\<lambda>mint. applyUsersFile parse mint (bc_Users bc) realms" parse sha]
    by (auto simp: RunPolls_def)
qed

section \<open>Logging in\<close>

lemma lookupUser_cost:
  assumes "inForce realms inline cost us" and "lookupUser name inline us = (user, hash)"
  shows "hashCost hash = Some cost" "user = Some u \<Longrightarrow> bu_Name u = name \<and> hash = bu_PasswordHash u \<and> userOK realms cost u"
    "user = Some u \<longleftrightarrow> (find (\<lambda>u. bu_Name u = name) inline = Some u \<or> find (\<lambda>u. bu_Name u = name) inline = None \<and> map_of (us_users us) name = Some u)"
proof -
  have found: "u \<in> set inline \<and> bu_Name u = name" if "find (\<lambda>u. bu_Name u = name) inline = Some u" for u
    using that by (auto simp: find_Some_iff)
  show "hashCost hash = Some cost" "user = Some u \<Longrightarrow> bu_Name u = name \<and> hash = bu_PasswordHash u \<and> userOK realms cost u"
    using assms found by (auto simp: lookupUser_def inForce_def userOK_def split: option.splits)
  show "user = Some u \<longleftrightarrow> (find (\<lambda>u. bu_Name u = name) inline = Some u \<or> find (\<lambda>u. bu_Name u = name) inline = None \<and> map_of (us_users us) name = Some u)"
    using assms(2) by (auto simp: lookupUser_def split: option.splits)
qed

text \<open>
  C8: Basic authentication compares once, at one cost.  Whatever the users file held at each of
  any number of polls, the set in force has one cost: every name, a user's or not, looks up a hash
  of that cost, so a known and an unknown name cost the same.  Every request against that set is
  either refused by its header or the gate with no comparison made, or makes exactly one, of the
  password it sent, against the hash its name looks up.  It is admitted exactly when the name
  is a user's and the comparison with that user's hash holds, as that user in a realm that
  exists; and every other request past the header is \<open>bad_credential\<close>.
\<close>

theorem basic_compares_once:
  assumes "NewBasic sha parse mint bc realms read = Some p" and "mintOK mint" and "\<forall>(read, mint) \<in> set polls. mintOK mint"
    and "us = po_state (RunPolls sha parse bc realms polls p)"
  shows "\<exists>cost. (\<forall>u \<in> set (bc_Users bc). hashCost (bu_PasswordHash u) = Some cost) \<and>
    (\<forall>name. hashCost (snd (lookupUser name (bc_Users bc) us)) = Some cost) \<and>
    (\<forall>compare slot header. case basicAuthenticate compare (Some (bc_Users bc)) slot us header of (outcome, compared) \<Rightarrow>
      (case parseBasic header of
         Inl f \<Rightarrow> outcome = Inl (Classified f) \<and> compared = []
       | Inr (name, password) \<Rightarrow>
           if \<not> slot then compared = [] \<and> outcome = Inl (Classified \<lparr>fl_Status = 429, fl_Reason = ''throttled'', fl_Redirect = [], fl_ClearSession = False\<rparr>)
           else \<exists>user hash. lookupUser name (bc_Users bc) us = (user, hash) \<and> compared = [(hash, password)] \<and>
             (case outcome of
                Inr who \<Rightarrow> (\<exists>u. user = Some u \<and> bu_Name u = name \<and> hash = bu_PasswordHash u \<and> compare hash password \<and>
                  pr_Name who = name \<and> pr_Realm who = bu_Realm u \<and> map_of realms (pr_Realm who) \<noteq> None)
              | Inl e \<Rightarrow> (user = None \<or> \<not> compare hash password) \<and> e = Classified (unauthorized ''bad_credential''))))"
proof -
  obtain cost where force: "inForce realms (bc_Users bc) cost us" using RunPolls_inForce [OF assms(1-3)] assms(4) by blast
  have inline: "\<forall>u \<in> set (bc_Users bc). hashCost (bu_PasswordHash u) = Some cost"
    using force by (simp add: inForce_def userOK_def)
  have "hashCost (snd (lookupUser name (bc_Users bc) us)) = Some cost" for name
    using lookupUser_cost(1) [OF force, of name] by (metis prod.collapse)
  moreover have "bu_Name u = name \<and> hash = bu_PasswordHash u \<and> map_of realms (bu_Realm u) \<noteq> None"
    if "lookupUser name (bc_Users bc) us = (Some u, hash)" for name u hash
    using lookupUser_cost(2) [OF force that, of u] by (simp add: userOK_def)
  ultimately show ?thesis using inline
    by (intro exI [of _ cost]) (auto simp: basicAuthenticate_def unauthorized_def split: sum.split prod.split option.split)
qed

definition demo_hash :: "nat \<Rightarrow> string" where
  "demo_hash c = ''$2a$1'' @ digitChar (c - 10) # CHR ''$'' # replicate 53 (CHR ''a'')"

definition demo_user :: BasicUser where
  "demo_user = \<lparr>bu_Name = ''alice'', bu_PasswordHash = ''$2a$12$'' @ replicate 53 (CHR ''b''), bu_Realm = ''dev''\<rparr>"

definition demo_basic :: basicConfig where
  "demo_basic = \<lparr>bc_Users = [demo_user], bc_UsersFile = []\<rparr>"

definition demo_realms :: "(string \<times> Realm) list" where
  "demo_realms = [(''dev'', \<lparr>rl_Namespaces = [wildcard], rl_Services = [wildcard], rl_Profiles = [wildcard],
     rl_PGO = \<lparr>rp_Read = False, rp_Collect = False, rp_Configure = False\<rparr>\<rparr>)]"

definition demo_set :: userSet where "demo_set = \<lparr>us_users = [], us_dummy = demo_hash 12\<rparr>"

lemma demo_mintOK: "mintOK (\<lambda>c. Some (demo_hash c))"
proof -
  have "\<forall>c \<in> {10, 11, 12, 13, 14}. hashCost (demo_hash c) = Some c" by code_simp
  moreover have "c \<in> {10, 11, 12, 13, 14}" if "10 \<le> c" "c \<le> 14" for c :: nat using that by auto
  ultimately show ?thesis unfolding mintOK_def by blast
qed

text \<open>The headers of \<open>alice:pw\<close> and of \<open>bob:pw\<close>, who is no user.\<close>

lemma basic_compares_once_witness:
  "let auth = basicAuthenticate (\<lambda>hash password. password = ''pw'') (Some [demo_user]) True demo_set
   in auth ''Basic YWxpY2U6cHc='' = (Inr \<lparr>pr_Name = ''alice'', pr_Realm = ''dev''\<rparr>, [(bu_PasswordHash demo_user, ''pw'')]) \<and>
      (\<exists>hash. auth ''Basic Ym9iOnB3'' = (Inl (Classified (unauthorized ''bad_credential'')), [(hash, ''pw'')]) \<and>
         hashCost hash = hashCost (bu_PasswordHash demo_user))"
proof -
  let ?p = "\<lparr>po_sum = [], po_loaded = False, po_state = demo_set\<rparr>"
  let ?auth = "basicAuthenticate (\<lambda>hash password. password = ''pw'') (Some [demo_user]) True demo_set"
  have new: "NewBasic id (\<lambda>_. None) (\<lambda>c. Some (demo_hash c)) demo_basic demo_realms None = Some ?p" by code_simp
  have run: "demo_set = po_state (RunPolls id (\<lambda>_. None) demo_basic demo_realms [] ?p)" by (simp add: RunPolls_def)
  have users: "bc_Users demo_basic = [demo_user]" by (simp add: demo_basic_def)
  have alice: "?auth ''Basic YWxpY2U6cHc='' = (Inr \<lparr>pr_Name = ''alice'', pr_Realm = ''dev''\<rparr>, [(bu_PasswordHash demo_user, ''pw'')])" by code_simp
  have bob: "?auth ''Basic Ym9iOnB3'' = (Inl (Classified (unauthorized ''bad_credential'')), [(snd (lookupUser ''bob'' [demo_user] demo_set), ''pw'')])"
    by code_simp
  have none: "\<forall>(read :: string option, mint) \<in> set []. mintOK mint" by simp
  obtain cost where "\<forall>u \<in> set [demo_user]. hashCost (bu_PasswordHash u) = Some cost"
    and "\<forall>name. hashCost (snd (lookupUser name [demo_user] demo_set)) = Some cost"
    using basic_compares_once [OF new demo_mintOK none run, unfolded users] by blast
  then show ?thesis using alice bob by (simp add: Let_def)
qed

section \<open>The header a client builds\<close>

lemma stdAlphabet_facts: "distinct stdAlphabet" "length stdAlphabet = 64" "CHR ''='' \<notin> set stdAlphabet"
  "CHR 0x0A \<notin> set stdAlphabet" "CHR 0x0D \<notin> set stdAlphabet"
  "list_all (\<lambda>w. hd w \<notin> set stdAlphabet \<and> hd w \<noteq> CHR ''='' \<and> last w \<notin> set stdAlphabet \<and> last w \<noteq> CHR ''='') spaces"
  by code_simp+

lemma std_inverse: "n < 64 \<Longrightarrow> stdVal (stdAlphabet ! n) = Some n"
proof -
  assume n: "n < 64"
  then have "takeWhile (\<lambda>x. x \<noteq> stdAlphabet ! n) stdAlphabet = take n stdAlphabet"
    using stdAlphabet_facts(1,2) by (intro takeWhile_eq_take_P_nth) (auto simp: nth_eq_iff_index_eq)
  then show ?thesis using n stdAlphabet_facts(2) by (simp add: stdVal_def)
qed

lemma stdBody_pad:
  assumes "CHR ''='' \<notin> set body" and "k \<le> 2"
  shows "stdBody (body @ replicate k (CHR ''='')) = body"
proof -
  consider "k = 0" | "k = 1" | "k = 2" using assms(2) by linarith
  then show ?thesis
  proof cases
    case 1
    have "drop n body \<noteq> x" if "CHR ''='' \<in> set x" for n x
      using assms(1) that in_set_dropD by metis
    then show ?thesis using 1 by (simp add: stdBody_def)
  next
    case 2
    have "drop (length body - 1) body @ ''='' \<noteq> ''==''"
    proof
      assume "drop (length body - 1) body @ ''='' = ''==''"
      then have "CHR ''='' \<in> set (drop (length body - 1) body)" by (cases "drop (length body - 1) body") auto
      then show False using assms(1) in_set_dropD by metis
    qed
    then show ?thesis using 2 by (simp add: stdBody_def)
  next
    case 3
    then show ?thesis by (simp add: stdBody_def numeral_2_eq_2)
  qed
qed

lemma b64groups_mod: "length (b64groups bs) mod 4 \<noteq> 1"
  by (induction bs rule: b64groups.induct) simp_all

lemma pad_length: "(n :: nat) mod 4 \<noteq> 1 \<Longrightarrow> (4 - n mod 4) mod 4 \<le> 2 \<and> (n + (4 - n mod 4) mod 4) mod 4 = 0"
proof -
  assume "n mod 4 \<noteq> 1"
  moreover have "n mod 4 < 4" by simp
  ultimately have "n mod 4 = 0 \<or> n mod 4 = 2 \<or> n mod 4 = 3" by linarith
  then show ?thesis
    using mod_add_left_eq [of n 4 "(4 - n mod 4) mod 4"] by (elim disjE) simp_all
qed

lemma std_roundtrip: "stdDecodeString (stdEncodeToString s) = Some s"
proof -
  let ?bs = "map of_char s :: nat list"
  define body where "body = map (\<lambda>n. stdAlphabet ! n) (b64groups ?bs)"
  have lt: "\<forall>b \<in> set ?bs. b < 256" by (auto simp: nat_of_char_less_256)
  have gs: "\<forall>g \<in> set (b64groups ?bs). g < 64" by (rule b64groups_lt [OF lt])
  have chars: "set body \<subseteq> set stdAlphabet" using gs stdAlphabet_facts(2) by (auto simp: body_def)
  define k where "k = (4 - length body mod 4) mod 4"
  have m: "length body mod 4 \<noteq> 1" using b64groups_mod [of ?bs] by (simp add: body_def)
  have k: "k \<le> 2" "(length body + k) mod 4 = 0" using pad_length [OF m] unfolding k_def by simp_all
  have enc: "stdEncodeToString s = body @ replicate k (CHR ''='')" by (simp add: stdEncodeToString_def body_def k_def Let_def)
  have clean: "filter (\<lambda>c. c \<noteq> CHR 0x0A \<and> c \<noteq> CHR 0x0D) (stdEncodeToString s) = stdEncodeToString s"
    unfolding enc using chars stdAlphabet_facts(4,5) by (auto simp: filter_id_conv)
  have "stdBody (stdEncodeToString s) = body" unfolding enc by (rule stdBody_pad [OF _ k(1)]) (use chars stdAlphabet_facts(3) in auto)
  moreover have vals: "map stdVal body = map Some (b64groups ?bs)" using gs std_inverse by (simp add: body_def)
  moreover have "None \<notin> stdVal ` set body"
    using arg_cong [OF vals, of set] by (auto simp: image_image)
  moreover have "length (stdEncodeToString s) mod 4 = 0" using k(2) by (simp add: enc)
  ultimately show ?thesis using clean b64bytes_groups [OF lt] by (simp add: stdDecodeString_def Let_def comp_def)
qed

lemma trimLeft_id: "list_all (\<lambda>w. w = [] \<or> hd w \<noteq> c) sp \<Longrightarrow> trimLeft sp (c # cs) = c # cs"
proof -
  assume "list_all (\<lambda>w. w = [] \<or> hd w \<noteq> c) sp"
  then have "find (\<lambda>w. w \<noteq> [] \<and> hasPrefix w (c # cs)) sp = None"
    by (auto simp: find_None_iff list_all_iff hasPrefix_iff neq_Nil_conv Cons_eq_append_conv)
  then show ?thesis by (simp add: trimLeft.simps [of sp "c # cs"])
qed

lemma trimSpace_encoded: "trimSpace (stdEncodeToString s) = stdEncodeToString s"
proof (cases "stdEncodeToString s")
  case Nil
  have "trimSpace [] = []" by code_simp
  then show ?thesis using Nil by simp
next
  case (Cons c cs)
  have gs: "\<forall>g \<in> set (b64groups (map of_char s)). g < 64" by (rule b64groups_lt) (auto simp: nat_of_char_less_256)
  have chars: "set (stdEncodeToString s) \<subseteq> insert (CHR ''='') (set stdAlphabet)"
    using gs stdAlphabet_facts(2) by (auto simp: stdEncodeToString_def Let_def)
  have sp: "list_all (\<lambda>w. w = [] \<or> hd w \<noteq> x) spaces" "list_all (\<lambda>w. w = [] \<or> hd w \<noteq> x) (map rev spaces)"
    if "x \<in> set (stdEncodeToString s)" for x
    using that chars stdAlphabet_facts(6) by (auto simp: list_all_iff hd_rev)
  have "trimLeft spaces (stdEncodeToString s) = stdEncodeToString s" using trimLeft_id [OF sp(1) [of c]] Cons by simp
  moreover obtain d ds where d: "rev (stdEncodeToString s) = d # ds" using Cons by (cases "rev (stdEncodeToString s)") auto
  moreover have "d \<in> set (stdEncodeToString s)" using d by (metis list.set_intros(1) set_rev)
  ultimately show ?thesis using trimLeft_id [OF sp(2) [of d], of ds] by (simp add: trimSpace_def)
qed

text \<open>
  C37: What a client sends is what the gateway reads: for a name without a colon and a password of
  at most 72 bytes, the header \<open>Basic\<close> followed by the base64 of name, colon and password parses to
  that name and that password, while the header is within its bound; a longer one is malformed.
\<close>

theorem basic_header_roundtrip:
  assumes "CHR '':'' \<notin> set name" and "length password \<le> 72"
  shows "parseBasic (''Basic '' @ stdEncodeToString (name @ CHR '':'' # password)) =
    (if length (stdEncodeToString (name @ CHR '':'' # password)) \<le> 1018 then Inr (name, password) else Inl (unauthorized ''malformed''))"
proof -
  let ?rest = "stdEncodeToString (name @ CHR '':'' # password)"
  have cut: "cut (CHR '' '') (''Basic '' @ ?rest) = (''Basic'', ?rest)"
    using cutChar_append [of "CHR '' ''" "''Basic''" ?rest] by (simp add: cut_def)
  have fold: "equalFold ''Basic'' basicScheme" by code_simp
  have "parseBasic (''Basic '' @ ?rest) = (if length (''Basic '' @ ?rest) > 1024 then Inl (unauthorized ''malformed'') else Inr (name, password))"
    using assms fold trimSpace_encoded std_roundtrip [of "name @ CHR '':'' # password"]
    unfolding parseBasic_def cut by (simp add: maxBasicHeaderBytes_def maxPasswordBytes_def)
  then show ?thesis by auto
qed

lemma basic_header_roundtrip_witness:
  "parseBasic (''Basic '' @ stdEncodeToString (''alice:pw'')) = Inr (''alice'', ''pw'')"
proof -
  have "length (stdEncodeToString (''alice'' @ CHR '':'' # ''pw'')) \<le> 1018" by code_simp
  then show ?thesis using basic_header_roundtrip [of "''alice''" "''pw''"] by simp
qed

section \<open>Realms of a token\<close>

text \<open>\<open>mapping.go\<close>: the claims kept of a verified token, and the realm it acts in.\<close>

record claims =
  cm_Subject :: string
  cm_Username :: string
  cm_Groups :: "string list"
  cm_Nonce :: string

record mappingEntry =
  me_Name :: string
  me_Realm :: string

record OIDCMapping =
  mp_Users :: "mappingEntry list"
  mp_Groups :: "mappingEntry list"
  mp_DefaultRealm :: string

definition mapRealm :: "OIDCMapping \<Rightarrow> claims \<Rightarrow> string option" where
  "mapRealm m c =
     (case find (\<lambda>u. me_Name u = cm_Username c) (mp_Users m) of
        Some u \<Rightarrow> Some (me_Realm u)
      | None \<Rightarrow>
          (case find (\<lambda>g. List.member (cm_Groups c) (me_Name g)) (mp_Groups m) of
             Some g \<Rightarrow> Some (me_Realm g)
           | None \<Rightarrow> if mp_DefaultRealm m \<noteq> [] then Some (mp_DefaultRealm m) else None))"

end
