(* ===== verification/Tokens.thy ===== *)
theory Tokens
  imports Credentials
begin

text \<open>
  Bearer tokens: the issuer's signing keys and their cache (\<open>internal/auth/jwks.go\<close>) and the ordered
  checks of a token (\<open>verify.go\<close>).

  The JOSE library is the record \<open>jose\<close>: it parses a compact token, and a parsed token verifies
  under a key or does not.  The JSON decoder is part of it: the members of the object a header
  begins with, and the claims of a payload.
\<close>

section \<open>Signing keys\<close>

datatype keyMaterial = NoKey | RSAKey nat string | ECKey string string | OtherKey

record JSONWebKey =
  jk_KeyID :: string
  jk_Algorithm :: string
  jk_Use :: string
  jk_Key :: keyMaterial
  jk_Valid :: bool

definition minRSABits :: nat where "minRSABits = 2048"

definition allowedAlgs :: "string list" where
  "allowedAlgs = [''RS256'', ''RS384'', ''RS512'', ''ES256'', ''ES384'', ''ES512'', ''PS256'', ''PS384'', ''PS512'']"

definition algAllowed :: "string \<Rightarrow> bool" where
  "algAllowed alg = List.member allowedAlgs alg"

definition curveFor :: "string \<Rightarrow> string option" where
  "curveFor alg =
     (if alg = ''ES256'' then Some ''P-256'' else if alg = ''ES384'' then Some ''P-384''
      else if alg = ''ES512'' then Some ''P-521'' else None)"

definition compatible :: "string \<Rightarrow> JSONWebKey \<Rightarrow> bool" where
  "compatible alg k =
     (if \<not> algAllowed alg then False
      else if jk_Algorithm k \<noteq> [] \<and> jk_Algorithm k \<noteq> alg then False
      else case jk_Key k of
        RSAKey _ _ \<Rightarrow> hd alg = CHR ''R'' \<or> hd alg = CHR ''P''
      | ECKey curve _ \<Rightarrow> Some curve = curveFor alg
      | _ \<Rightarrow> False)"

text \<open>Why a key cannot verify a token.\<close>

datatype unusableKey = KeyTypeUnknown | UseNotSig | ModulusTooShort | CurveUnknown | NotRSAOrEC | KeyDoesNotParse | AlgNotAllowed

definition unusable :: "JSONWebKey \<Rightarrow> unusableKey option" where
  "unusable k =
     (if jk_Key k = NoKey then Some KeyTypeUnknown
      else if jk_Use k \<noteq> [] \<and> jk_Use k \<noteq> ''sig'' then Some UseNotSig
      else case (case jk_Key k of
          RSAKey bits _ \<Rightarrow> if bits < minRSABits then Some ModulusTooShort else None
        | ECKey curve _ \<Rightarrow> if curve \<noteq> ''P-256'' \<and> curve \<noteq> ''P-384'' \<and> curve \<noteq> ''P-521'' then Some CurveUnknown else None
        | _ \<Rightarrow> Some NotRSAOrEC) of
        Some why \<Rightarrow> Some why
      | None \<Rightarrow>
          if \<not> jk_Valid k then Some KeyDoesNotParse
          else if jk_Algorithm k \<noteq> [] \<and> \<not> compatible (jk_Algorithm k) k then Some AlgNotAllowed
          else None)"

record keySet =
  ks_byKID :: "(string \<times> JSONWebKey) list"
  ks_all :: "JSONWebKey list"
  ks_fetched :: time

text \<open>\<open>usableKeys\<close>; nothing when two usable keys share a kid or none is usable.\<close>

fun addKeys :: "JSONWebKey list \<Rightarrow> keySet \<Rightarrow> keySet option" where
  "addKeys [] ks = Some ks"
| "addKeys (k # raw) ks =
     (if unusable k \<noteq> None then addKeys raw ks
      else if jk_KeyID k \<noteq> [] then
        (if map_of (ks_byKID ks) (jk_KeyID k) \<noteq> None then None
         else addKeys raw (ks\<lparr>ks_byKID := map_put (jk_KeyID k) k (ks_byKID ks), ks_all := ks_all ks @ [k]\<rparr>))
      else addKeys raw (ks\<lparr>ks_all := ks_all ks @ [k]\<rparr>))"

definition usableKeys :: "JSONWebKey list \<Rightarrow> time \<Rightarrow> keySet option" where
  "usableKeys raw fetched =
     (case addKeys raw \<lparr>ks_byKID = [], ks_all = [], ks_fetched = fetched\<rparr> of
        None \<Rightarrow> None
      | Some ks \<Rightarrow> if ks_all ks = [] then None else Some ks)"

definition stale :: "duration \<Rightarrow> time \<Rightarrow> keySet option \<Rightarrow> bool" where
  "stale maxStale now cur = (case cur of None \<Rightarrow> True | Some ks \<Rightarrow> now - ks_fetched ks > maxStale)"

section \<open>The key cache\<close>

record jwksCache =
  jc_refreshMin :: duration
  jc_maxStale :: duration
  jc_cur :: "keySet option"
  jc_lastAttempt :: "time option"

definition newJWKSCache :: "duration \<Rightarrow> duration \<Rightarrow> jwksCache" where
  "newJWKSCache refreshMin maxStale = \<lparr>jc_refreshMin = refreshMin, jc_maxStale = maxStale, jc_cur = None, jc_lastAttempt = None\<rparr>"

text \<open>
  \<open>Refresh\<close> with what the fetch answered, nothing when it failed, and the clock after it; whether
  it succeeded.
\<close>

definition Refresh :: "JSONWebKey list option \<Rightarrow> time \<Rightarrow> jwksCache \<Rightarrow> bool \<times> jwksCache" where
  "Refresh fetch now c =
     (case fetch of
        None \<Rightarrow> (False, c)
      | Some raw \<Rightarrow>
          (case usableKeys raw now of
             None \<Rightarrow> (False, c)
           | Some ks \<Rightarrow> (True, c\<lparr>jc_cur := Some ks\<rparr>)))"

text \<open>An on-demand refresh: its clock reading, what its fetch answers if it runs, and the clock after that.\<close>

record demand =
  dm_now :: time
  dm_fetch :: "JSONWebKey list option"
  dm_fetched :: time

definition refreshOnDemand :: "demand \<Rightarrow> jwksCache \<Rightarrow> bool \<times> jwksCache" where
  "refreshOnDemand d c =
     (case jc_lastAttempt c of
        Some prev \<Rightarrow>
          if dm_now d - prev < jc_refreshMin c then (False, c)
          else (True, snd (Refresh (dm_fetch d) (dm_fetched d) (c\<lparr>jc_lastAttempt := Some (dm_now d)\<rparr>)))
      | None \<Rightarrow> (True, snd (Refresh (dm_fetch d) (dm_fetched d) (c\<lparr>jc_lastAttempt := Some (dm_now d)\<rparr>))))"

text \<open>What the fetches of any number of requests and of the timer do to the cache, with the runs on demand.\<close>

datatype cacheEvent = OnDemand demand | Timer "JSONWebKey list option" time

fun cacheRun :: "cacheEvent list \<Rightarrow> jwksCache \<Rightarrow> time list \<times> jwksCache" where
  "cacheRun [] c = ([], c)"
| "cacheRun (OnDemand d # es) c =
     (case refreshOnDemand d c of (did, c1) \<Rightarrow>
        (case cacheRun es c1 of (ts, c2) \<Rightarrow> (if did then dm_now d # ts else ts, c2)))"
| "cacheRun (Timer fetch now # es) c = cacheRun es (snd (Refresh fetch now c))"

definition selectKey :: "keySet option \<Rightarrow> string \<Rightarrow> string \<Rightarrow> JSONWebKey option" where
  "selectKey cur kid alg =
     (case cur of
        None \<Rightarrow> None
      | Some ks \<Rightarrow>
          if kid \<noteq> [] then
            (case map_of (ks_byKID ks) kid of
               Some k \<Rightarrow> if compatible alg k then Some k else None
             | None \<Rightarrow> None)
          else (case filter (compatible alg) (ks_all ks) of [k] \<Rightarrow> Some k | _ \<Rightarrow> None))"

section \<open>Claims\<close>

text \<open>
  A JSON value as far as the checks look into it.  A number is the 64-bit float the decoder reads,
  \<open>m\<close> times 2 to the \<open>e\<close>, nothing when it is out of that range.
\<close>

datatype json = JNull | JString string | JNumber "(int \<times> int) option" | JArray "json list" | JOther

definition maxTokenBytes :: nat where "maxTokenBytes = 16384"
definition maxIdentityBytes :: nat where "maxIdentityBytes = 256"
definition accessTokenType :: string where "accessTokenType = ''at+jwt''"
definition tokenTypeAccess :: string where "tokenTypeAccess = ''access''"

text \<open>\<open>body[name]\<close>: a missing claim is the nil message, and so is \<open>null\<close> to \<open>absent\<close>.\<close>

definition claimOf :: "(string \<times> json) list \<Rightarrow> string \<Rightarrow> json" where
  "claimOf body name = (case map_of body name of None \<Rightarrow> JNull | Some v \<Rightarrow> v)"

definition absent :: "json \<Rightarrow> bool" where
  "absent raw \<longleftrightarrow> raw = JNull"

definition asString :: "json \<Rightarrow> string option" where
  "asString raw = (case raw of JString s \<Rightarrow> Some s | _ \<Rightarrow> None)"

definition identity :: "json \<Rightarrow> string option" where
  "identity raw = (case asString raw of
     None \<Rightarrow> None
   | Some s \<Rightarrow> if s = [] \<or> length s > maxIdentityBytes \<or> CHR 0x00 \<in> set s then None else Some s)"

definition numericDate :: "json \<Rightarrow> int option" where
  "numericDate raw = (case raw of
     JNumber (Some (m, e)) \<Rightarrow>
       let d = 2 ^ nat (- e); f = m * 2 ^ nat e
       in if f < - (2 ^ 63) * d \<or> f \<ge> 2 ^ 63 * d then None else Some (tdiv f d)
   | _ \<Rightarrow> None)"

text \<open>A \<open>null\<close> in an array of strings decodes as the empty string.\<close>

fun strings :: "json list \<Rightarrow> string list option" where
  "strings [] = Some []"
| "strings (v # vs) = (case v of
     JString s \<Rightarrow> map_option ((#) s) (strings vs)
   | JNull \<Rightarrow> map_option ((#) []) (strings vs)
   | _ \<Rightarrow> None)"

definition stringOrArray :: "json \<Rightarrow> string list option" where
  "stringOrArray raw = (case raw of
     JString s \<Rightarrow> Some [s]
   | JArray vs \<Rightarrow> strings vs
   | _ \<Rightarrow> None)"

record verifier =
  vf_issuer :: string
  vf_audience :: string
  vf_tokenType :: string
  vf_usernameClaim :: string
  vf_groupsClaim :: string
  vf_skew :: duration

text \<open>\<open>Unix\<close> of a time: its seconds, rounded down.\<close>

definition unix :: "time \<Rightarrow> int" where
  "unix t = t div second"

text \<open>\<open>checkClaims\<close>: the reason of the first check that fails, or none; \<open>typ\<close> is the type header.\<close>

definition checkClaims :: "verifier \<Rightarrow> time \<Rightarrow> string \<Rightarrow> (string \<times> json) list \<Rightarrow> string option" where
  "checkClaims v now typ body =
     (let late = unix (now + vf_skew v); early = unix (now - vf_skew v) in
      if asString (claimOf body ''iss'') \<noteq> Some (vf_issuer v) then Some ''issuer''
      else if identity (claimOf body ''sub'') = None then Some ''claim''
      else if (case numericDate (claimOf body ''iat'') of None \<Rightarrow> True | Some iat \<Rightarrow> iat > late) then Some ''expired''
      else if (case numericDate (claimOf body ''exp'') of None \<Rightarrow> True | Some exp \<Rightarrow> exp \<le> early) then Some ''expired''
      else if map_of body ''nbf'' \<noteq> None \<and> (case numericDate (claimOf body ''nbf'') of None \<Rightarrow> True | Some nbf \<Rightarrow> nbf > late) then Some ''expired''
      else if identity (claimOf body (vf_usernameClaim v)) = None then Some ''claim''
      else if vf_tokenType v = tokenTypeAccess \<and> \<not> equalFold typ accessTokenType then Some ''token_type''
      else case stringOrArray (claimOf body ''aud'') of
        None \<Rightarrow> Some ''audience''
      | Some aud \<Rightarrow>
          if \<not> List.member aud (vf_audience v) then Some ''audience''
          else if vf_tokenType v \<noteq> tokenTypeAccess \<and> length aud > 1 \<and> asString (claimOf body ''azp'') \<noteq> Some (vf_audience v) then Some ''audience''
          else if map_of body (vf_groupsClaim v) \<noteq> None \<and> stringOrArray (claimOf body (vf_groupsClaim v)) = None then Some ''claim''
          else None)"

definition orEmpty :: "'a list option \<Rightarrow> 'a list" where
  "orEmpty x = (case x of None \<Rightarrow> [] | Some s \<Rightarrow> s)"

definition keep :: "verifier \<Rightarrow> (string \<times> json) list \<Rightarrow> claims" where
  "keep v body = \<lparr>cm_Subject = orEmpty (asString (claimOf body ''sub'')),
     cm_Username = orEmpty (asString (claimOf body (vf_usernameClaim v))),
     cm_Groups = orEmpty (stringOrArray (claimOf body (vf_groupsClaim v))),
     cm_Nonce = orEmpty (asString (claimOf body ''nonce''))\<rparr>"

section \<open>Verification\<close>

record jwsHeader =
  jh_KeyID :: string
  jh_typ :: string

record jws =
  jw_headers :: "jwsHeader list"
  jw_Verify :: "JSONWebKey \<Rightarrow> string option"

datatype joseError = UnexpectedAlgorithm | NotAToken

record jose =
  jo_ParseSigned :: "string \<Rightarrow> string list \<Rightarrow> joseError + jws"
  jo_members :: "string \<Rightarrow> (string \<times> json) list option"
  jo_claims :: "string \<Rightarrow> (string \<times> json) list option"

text \<open>The walk over the members of the protected header: the last \<open>alg\<close> read, and how many there are.\<close>

fun algMembers :: "(string \<times> json) list \<Rightarrow> string \<times> nat \<Rightarrow> (string \<times> nat) option" where
  "algMembers [] st = Some st"
| "algMembers ((key, value) # ms) (alg, n) =
     (if key = ''alg'' then
        (case value of
           JString s \<Rightarrow> algMembers ms (s, Suc n)
         | JNull \<Rightarrow> algMembers ms (alg, Suc n)
         | _ \<Rightarrow> None)
      else algMembers ms (alg, n))"

definition singleAlg :: "jose \<Rightarrow> string \<Rightarrow> string \<times> bool" where
  "singleAlg jo token =
     (case decodeString (fst (cut (CHR ''.'') token)) of
        None \<Rightarrow> ([], False)
      | Some header \<Rightarrow>
          (case jo_members jo header of
             None \<Rightarrow> ([], False)
           | Some ms \<Rightarrow>
               (case algMembers ms ([], 0) of
                  None \<Rightarrow> ([], False)
                | Some (alg, n) \<Rightarrow> (alg, n = 1))))"

text \<open>
  What happens around one verification: its three clock readings, the two refreshes it may ask
  for, and what other requests and the timer did to the cache between its loads of it.
\<close>

record verifySituation =
  vs_now :: time
  vs_first :: demand
  vs_others1 :: "cacheEvent list"
  vs_again :: time
  vs_second :: demand
  vs_others2 :: "cacheEvent list"
  vs_claims :: time

definition fetchedByOthers :: "cacheEvent list \<Rightarrow> jwksCache \<Rightarrow> jwksCache" where
  "fetchedByOthers es c = snd (cacheRun es c)"

definition signatureFailure :: "Failure" where "signatureFailure = unauthorized ''signature''"

definition keysStale :: Failure where
  "keysStale = \<lparr>fl_Status = 503, fl_Reason = ''keys_stale'', fl_Redirect = [], fl_ClearSession = False\<rparr>"

text \<open>The shape and algorithm checks: the refusal, or the token, its header and its algorithm.\<close>

definition checkShape :: "jose \<Rightarrow> string \<Rightarrow> Failure + jws \<times> jwsHeader \<times> string" where
  "checkShape jo token =
     (if length token > maxTokenBytes then Inl (unauthorized ''malformed'')
      else case singleAlg jo token of (alg, oneAlg) \<Rightarrow>
        (case jo_ParseSigned jo token allowedAlgs of
           Inl err \<Rightarrow> if err = UnexpectedAlgorithm \<and> oneAlg then Inl (unauthorized ''alg'') else Inl (unauthorized ''malformed'')
         | Inr t \<Rightarrow>
             (case jw_headers t of
                [header] \<Rightarrow> if \<not> oneAlg then Inl (unauthorized ''malformed'') else Inr (t, header, alg)
              | _ \<Rightarrow> Inl (unauthorized ''malformed''))))"

text \<open>The load of the key set, with the refresh a stale one asks for.\<close>

definition freshKeys :: "verifySituation \<Rightarrow> jwksCache \<Rightarrow> (Failure + unit) \<times> jwksCache" where
  "freshKeys sit c =
     (if stale (jc_maxStale c) (vs_now sit) (jc_cur c) then
        let c1 = fetchedByOthers (vs_others1 sit) (snd (refreshOnDemand (vs_first sit) c))
        in (if stale (jc_maxStale c1) (vs_again sit) (jc_cur c1) then Inl keysStale else Inr (), c1)
      else (Inr (), c))"

text \<open>The selection of the key, with the refresh a kid that is not held asks for.\<close>

definition chooseKey :: "verifySituation \<Rightarrow> string \<Rightarrow> string \<Rightarrow> jwksCache \<Rightarrow> JSONWebKey option \<times> jwksCache" where
  "chooseKey sit kid alg c =
     (case selectKey (jc_cur c) kid alg of
        Some k \<Rightarrow> (Some k, c)
      | None \<Rightarrow>
          if kid = [] then (None, c)
          else (case refreshOnDemand (vs_second sit) c of
            (False, c1) \<Rightarrow> (None, c1)
          | (True, c1) \<Rightarrow> let c2 = fetchedByOthers (vs_others2 sit) c1 in (selectKey (jc_cur c2) kid alg, c2)))"

text \<open>The signature and the claims.\<close>

definition checkSigned :: "verifier \<Rightarrow> jose \<Rightarrow> time \<Rightarrow> jws \<Rightarrow> jwsHeader \<Rightarrow> JSONWebKey \<Rightarrow> Failure + claims" where
  "checkSigned v jo now t header key =
     (case jw_Verify t key of
        None \<Rightarrow> Inl signatureFailure
      | Some payload \<Rightarrow>
          (case jo_claims jo payload of
             None \<Rightarrow> Inl (unauthorized ''malformed'')
           | Some body \<Rightarrow>
               (case checkClaims v now (jh_typ header) body of
                  Some reason \<Rightarrow> Inl (unauthorized reason)
                | None \<Rightarrow> Inr (keep v body))))"

text \<open>\<open>verify\<close>; the cache is absent until discovery has succeeded.\<close>

definition verify :: "verifier \<Rightarrow> jose \<Rightarrow> verifySituation \<Rightarrow> string \<Rightarrow> jwksCache option \<Rightarrow> (Failure + claims) \<times> jwksCache option" where
  "verify v jo sit token state =
     (case checkShape jo token of
        Inl f \<Rightarrow> (Inl f, state)
      | Inr (t, header, alg) \<Rightarrow>
          (case state of
             None \<Rightarrow> (Inl keysStale, None)
           | Some c \<Rightarrow>
               (case freshKeys sit c of
                  (Inl f, c1) \<Rightarrow> (Inl f, Some c1)
                | (Inr _, c1) \<Rightarrow>
                    (case chooseKey sit (jh_KeyID header) alg c1 of
                       (None, c2) \<Rightarrow> (Inl signatureFailure, Some c2)
                     | (Some key, c2) \<Rightarrow> (checkSigned v jo (vs_claims sit) t header key, Some c2)))))"

section \<open>The key set\<close>

text \<open>What every key set in force satisfies.\<close>

definition keysOK :: "keySet \<Rightarrow> bool" where
  "keysOK ks \<longleftrightarrow> (\<forall>k \<in> set (ks_all ks). unusable k = None) \<and>
     (\<forall>kid k. map_of (ks_byKID ks) kid = Some k \<longleftrightarrow> k \<in> set (ks_all ks) \<and> jk_KeyID k = kid \<and> kid \<noteq> [])"

definition cacheOK :: "jwksCache \<Rightarrow> bool" where
  "cacheOK c \<longleftrightarrow> (\<forall>ks. jc_cur c = Some ks \<longrightarrow> keysOK ks \<and> ks_all ks \<noteq> [])"

lemma addKeys_OK: "addKeys raw ks = Some ks' \<Longrightarrow> keysOK ks \<Longrightarrow>
    keysOK ks' \<and> ks_fetched ks' = ks_fetched ks \<and> set (ks_all ks') = set (ks_all ks) \<union> {k \<in> set raw. unusable k = None}"
proof (induction raw arbitrary: ks)
  case (Cons k raw)
  show ?case
  proof (cases "unusable k")
    case (Some why)
    then show ?thesis using Cons by auto
  next
    case None
    define ks1 where "ks1 = (if jk_KeyID k \<noteq> [] then ks\<lparr>ks_byKID := map_put (jk_KeyID k) k (ks_byKID ks), ks_all := ks_all ks @ [k]\<rparr>
      else ks\<lparr>ks_all := ks_all ks @ [k]\<rparr>)"
    have step: "addKeys raw ks1 = Some ks'" and free: "jk_KeyID k \<noteq> [] \<Longrightarrow> map_of (ks_byKID ks) (jk_KeyID k) = None"
      using Cons.prems(1) None by (auto simp: ks1_def split: if_splits)
    have usable: "\<forall>k' \<in> set (ks_all ks1). unusable k' = None" using Cons.prems(2) None by (auto simp: keysOK_def ks1_def)
    have "map_of (ks_byKID ks1) kid = Some k' \<longleftrightarrow> k' \<in> set (ks_all ks1) \<and> jk_KeyID k' = kid \<and> kid \<noteq> []" for kid k'
    proof -
      have old: "map_of (ks_byKID ks) kid = Some k' \<longleftrightarrow> k' \<in> set (ks_all ks) \<and> jk_KeyID k' = kid \<and> kid \<noteq> []"
        using Cons.prems(2) unfolding keysOK_def by blast
      have "map_of (ks_byKID ks1) kid = (if kid = jk_KeyID k \<and> kid \<noteq> [] then Some k else map_of (ks_byKID ks) kid)"
        by (simp add: ks1_def)
      moreover have "k' \<in> set (ks_all ks1) \<longleftrightarrow> k' \<in> set (ks_all ks) \<or> k' = k" by (auto simp: ks1_def)
      moreover have "k' \<notin> set (ks_all ks) \<or> jk_KeyID k' \<noteq> kid" if "kid = jk_KeyID k" "kid \<noteq> []"
        using old that free by auto
      ultimately show ?thesis using old by (cases "kid = jk_KeyID k \<and> kid \<noteq> []") auto
    qed
    then have "keysOK ks1" using usable unfolding keysOK_def by blast
    moreover have "ks_fetched ks1 = ks_fetched ks" "set (ks_all ks1) = insert k (set (ks_all ks))" by (simp_all add: ks1_def)
    ultimately show ?thesis using Cons.IH [OF step] None by auto
  qed
qed simp

lemma usableKeys_OK:
  assumes "usableKeys raw now = Some ks"
  shows "keysOK ks" "ks_fetched ks = now" "ks_all ks \<noteq> []" "set (ks_all ks) = {k \<in> set raw. unusable k = None}"
proof -
  let ?ks0 = "\<lparr>ks_byKID = [], ks_all = [], ks_fetched = now\<rparr>"
  have "addKeys raw ?ks0 = Some ks" "ks_all ks \<noteq> []" using assms by (auto simp: usableKeys_def split: option.splits if_splits)
  moreover have "keysOK ?ks0" by (simp add: keysOK_def)
  ultimately show "keysOK ks" "ks_fetched ks = now" "ks_all ks \<noteq> []" "set (ks_all ks) = {k \<in> set raw. unusable k = None}"
    using addKeys_OK [of raw ?ks0 ks] by simp_all
qed

lemma addKeys_decides:
  "(\<exists>ks'. addKeys raw ks = Some ks') \<longleftrightarrow>
     (let kids = map jk_KeyID (filter (\<lambda>k. unusable k = None \<and> jk_KeyID k \<noteq> []) raw)
      in distinct kids \<and> (\<forall>kid \<in> set kids. map_of (ks_byKID ks) kid = None))"
proof (induction raw arbitrary: ks)
  case (Cons k raw)
  define kids where "kids = map jk_KeyID (filter (\<lambda>k. unusable k = None \<and> jk_KeyID k \<noteq> []) raw)"
  have IH: "(\<exists>ks'. addKeys raw ks = Some ks') \<longleftrightarrow> distinct kids \<and> (\<forall>kid \<in> set kids. map_of (ks_byKID ks) kid = None)" for ks
    using Cons.IH [of ks] by (simp add: Let_def kids_def)
  show ?case
  proof (cases "unusable k = None \<and> jk_KeyID k \<noteq> []")
    case True
    define ks1 where "ks1 = ks\<lparr>ks_byKID := map_put (jk_KeyID k) k (ks_byKID ks), ks_all := ks_all ks @ [k]\<rparr>"
    have "map_of (ks_byKID ks1) = (map_of (ks_byKID ks))(jk_KeyID k \<mapsto> k)" by (simp add: ks1_def)
    then have "(\<exists>ks'. addKeys raw ks1 = Some ks') \<longleftrightarrow> distinct kids \<and> jk_KeyID k \<notin> set kids \<and> (\<forall>kid \<in> set kids. map_of (ks_byKID ks) kid = None)"
      using IH [of ks1] by auto
    moreover have "addKeys (k # raw) ks = (if map_of (ks_byKID ks) (jk_KeyID k) \<noteq> None then None else addKeys raw ks1)"
      using True by (simp add: ks1_def)
    moreover have "map jk_KeyID (filter (\<lambda>k. unusable k = None \<and> jk_KeyID k \<noteq> []) (k # raw)) = jk_KeyID k # kids"
      using True by (simp add: kids_def)
    ultimately show ?thesis by (auto simp: Let_def)
  next
    case False
    then have "\<exists>ks1. addKeys (k # raw) ks = addKeys raw ks1 \<and> ks_byKID ks1 = ks_byKID ks"
      by (cases "unusable k = None") (auto intro: exI [of _ ks] exI [of _ "ks\<lparr>ks_all := ks_all ks @ [k]\<rparr>"])
    then obtain ks1 where "addKeys (k # raw) ks = addKeys raw ks1" "ks_byKID ks1 = ks_byKID ks" by blast
    moreover have "map jk_KeyID (filter (\<lambda>k. unusable k = None \<and> jk_KeyID k \<noteq> []) (k # raw)) = kids"
      using False by (auto simp: kids_def)
    ultimately show ?thesis using IH [of ks1] by (simp only: Let_def)
  qed
qed simp

text \<open>
  C36: A fetched key set is taken exactly when it can be told apart: when some key of it is usable
  and no two usable keys share a kid.  What is kept is then every usable key and nothing else, and
  a kid names the one kept key that carries it.
\<close>

theorem usableKeys_decides:
  "case usableKeys raw now of
     Some ks \<Rightarrow> (\<exists>k \<in> set raw. unusable k = None) \<and>
       distinct (map jk_KeyID (filter (\<lambda>k. unusable k = None \<and> jk_KeyID k \<noteq> []) raw)) \<and>
       set (ks_all ks) = {k \<in> set raw. unusable k = None} \<and> ks_fetched ks = now \<and>
       (\<forall>kid k. map_of (ks_byKID ks) kid = Some k \<longleftrightarrow> k \<in> set raw \<and> unusable k = None \<and> jk_KeyID k = kid \<and> kid \<noteq> [])
   | None \<Rightarrow> (\<forall>k \<in> set raw. unusable k \<noteq> None) \<or>
       \<not> distinct (map jk_KeyID (filter (\<lambda>k. unusable k = None \<and> jk_KeyID k \<noteq> []) raw))"
proof -
  let ?ks0 = "\<lparr>ks_byKID = [], ks_all = [], ks_fetched = now\<rparr>"
  let ?distinct = "distinct (map jk_KeyID (filter (\<lambda>k. unusable k = None \<and> jk_KeyID k \<noteq> []) raw))"
  have dec: "(\<exists>ks. addKeys raw ?ks0 = Some ks) \<longleftrightarrow> ?distinct" using addKeys_decides [of raw ?ks0] by (simp add: Let_def)
  have ok0: "keysOK ?ks0" by (simp add: keysOK_def)
  show ?thesis
  proof (cases "usableKeys raw now")
    case None
    have "set (ks_all ks) = {k \<in> set raw. unusable k = None}" if "addKeys raw ?ks0 = Some ks" for ks
      using addKeys_OK [OF that ok0] by simp
    then have "(\<forall>k \<in> set raw. unusable k \<noteq> None) \<or> \<not> ?distinct"
      using None dec unfolding usableKeys_def by (auto split: option.splits if_splits)
    then show ?thesis using None by simp
  next
    case (Some ks)
    note ok = usableKeys_OK [OF Some]
    have "?distinct" using dec Some by (auto simp: usableKeys_def split: option.splits)
    moreover have "\<exists>k \<in> set raw. unusable k = None" using ok(3,4) by (metis (mono_tags, lifting) Collect_empty_eq set_empty)
    moreover have "map_of (ks_byKID ks) kid = Some k \<longleftrightarrow> k \<in> set raw \<and> unusable k = None \<and> jk_KeyID k = kid \<and> kid \<noteq> []" for kid k
      using ok(1,4) unfolding keysOK_def by auto
    ultimately show ?thesis using Some ok(2,4) by simp
  qed
qed

section \<open>The cache over time\<close>

text \<open>A later state of the cache: its key set is the same, or was fetched at \<open>t\<close> or after.\<close>

definition later :: "time \<Rightarrow> jwksCache \<Rightarrow> jwksCache \<Rightarrow> bool" where
  "later t c c' \<longleftrightarrow> (cacheOK c \<longrightarrow> cacheOK c') \<and> jc_maxStale c' = jc_maxStale c \<and> jc_refreshMin c' = jc_refreshMin c \<and>
     (jc_cur c' = jc_cur c \<or> (\<exists>ks. jc_cur c' = Some ks \<and> t \<le> ks_fetched ks))"

lemma later_refl [simp]: "later t c c"
  by (simp add: later_def)

lemma later_trans: "later t a b \<Longrightarrow> later t b c \<Longrightarrow> later t a c"
  unfolding later_def by (elim conjE disjE) auto

lemma later_Refresh: "t \<le> now \<Longrightarrow> later t c (snd (Refresh fetch now c))"
  using usableKeys_OK by (auto simp: Refresh_def later_def cacheOK_def split: option.split)

lemma later_demand:
  assumes "t \<le> dm_fetched d"
  shows "later t c (snd (refreshOnDemand d c))"
proof -
  have "later t c (c\<lparr>jc_lastAttempt := x\<rparr>)" for x by (simp add: later_def cacheOK_def)
  then show ?thesis using later_trans [OF _ later_Refresh [OF assms]]
    by (auto simp: refreshOnDemand_def split: option.split)
qed

text \<open>When the fetch of an event was answered.\<close>

fun fetchedAt :: "cacheEvent \<Rightarrow> time" where
  "fetchedAt (OnDemand d) = dm_fetched d"
| "fetchedAt (Timer _ now) = now"

lemma later_others: "\<forall>e \<in> set es. t \<le> fetchedAt e \<Longrightarrow> later t c (fetchedByOthers es c)"
proof (induction es arbitrary: c)
  case (Cons e es)
  define c1 where "c1 = (case e of OnDemand d \<Rightarrow> snd (refreshOnDemand d c) | Timer fetch now \<Rightarrow> snd (Refresh fetch now c))"
  have "later t c c1" using Cons.prems by (cases e) (simp_all add: c1_def later_demand later_Refresh)
  moreover have "later t c1 (fetchedByOthers es c1)" using Cons by simp
  moreover have "fetchedByOthers (e # es) c = fetchedByOthers es c1"
    by (cases e) (simp_all add: fetchedByOthers_def c1_def split: prod.split)
  ultimately show ?case using later_trans by metis
qed (simp add: fetchedByOthers_def)

lemma Refresh_frame: "jc_lastAttempt (snd (Refresh f now c)) = jc_lastAttempt c" "jc_refreshMin (snd (Refresh f now c)) = jc_refreshMin c"
  by (auto simp: Refresh_def split: option.split)

lemma spaced:
  "case jc_lastAttempt c of
     None \<Rightarrow> successively (\<lambda>a b. jc_refreshMin c \<le> b - a) (fst (cacheRun es c))
   | Some prev \<Rightarrow> successively (\<lambda>a b. jc_refreshMin c \<le> b - a) (prev # fst (cacheRun es c))"
proof (induction es arbitrary: c)
  case Nil
  show ?case by (simp split: option.split)
next
  case (Cons e es)
  show ?case
  proof (cases e)
    case (Timer fetch now)
    then show ?thesis using Cons.IH [of "snd (Refresh fetch now c)", unfolded Refresh_frame] by (simp only: cacheRun.simps)
  next
    case (OnDemand d)
    define c1 where "c1 = snd (Refresh (dm_fetch d) (dm_fetched d) (c\<lparr>jc_lastAttempt := Some (dm_now d)\<rparr>))"
    have c1: "jc_lastAttempt c1 = Some (dm_now d)" "jc_refreshMin c1 = jc_refreshMin c" by (simp_all add: c1_def Refresh_frame)
    then have IH: "successively (\<lambda>a b. jc_refreshMin c \<le> b - a) (dm_now d # fst (cacheRun es c1))" using Cons.IH [of c1] by simp
    show ?thesis
    proof (cases "jc_lastAttempt c")
      case None
      then have "refreshOnDemand d c = (True, c1)" by (simp add: refreshOnDemand_def c1_def)
      then show ?thesis using IH None OnDemand by (simp add: case_prod_unfold)
    next
      case (Some prev)
      show ?thesis
      proof (cases "dm_now d - prev < jc_refreshMin c")
        case True
        then have "refreshOnDemand d c = (False, c)" using Some by (simp add: refreshOnDemand_def)
        then show ?thesis using Cons.IH [of c] Some OnDemand by (simp add: case_prod_unfold)
      next
        case False
        then have "refreshOnDemand d c = (True, c1)" using Some by (simp add: refreshOnDemand_def c1_def)
        then show ?thesis using IH Some False OnDemand by (simp add: case_prod_unfold)
      qed
    qed
  qed
qed

text \<open>
  C9: Requests cannot make the gateway hammer its issuer: over any sequence of verifications that
  ask for a refresh, each with any reading of the clock, and of timer refreshes that succeed or
  fail, two refreshes run on demand one after the other are at least \<open>refreshMin\<close> apart.
\<close>

theorem refreshes_spaced:
  "successively (\<lambda>a b. refreshMin \<le> b - a) (fst (cacheRun es (newJWKSCache refreshMin maxStale)))"
  using spaced [of "newJWKSCache refreshMin maxStale" es] by (simp add: newJWKSCache_def)

section \<open>What an accepted token is\<close>

text \<open>The clock of a verification does not run backwards.\<close>

definition clockOK :: "verifySituation \<Rightarrow> bool" where
  "clockOK sit \<longleftrightarrow> vs_now sit \<le> vs_again sit \<and> vs_now sit \<le> dm_fetched (vs_first sit) \<and> vs_now sit \<le> dm_fetched (vs_second sit) \<and>
     (\<forall>e \<in> set (vs_others1 sit @ vs_others2 sit). vs_now sit \<le> fetchedAt e)"

definition freshAt :: "time \<Rightarrow> jwksCache \<Rightarrow> bool" where
  "freshAt now c \<longleftrightarrow> \<not> stale (jc_maxStale c) now (jc_cur c)"

lemma freshAt_later: "freshAt now c \<Longrightarrow> later now c c' \<Longrightarrow> 0 \<le> jc_maxStale c \<Longrightarrow> freshAt now c'"
  by (auto simp: freshAt_def later_def stale_def split: option.splits)

lemma freshKeys_ok:
  assumes "freshKeys sit c = (Inr u, c1)" and "clockOK sit"
  shows "later (vs_now sit) c c1" "freshAt (vs_now sit) c1"
proof -
  define cr where "cr = fetchedByOthers (vs_others1 sit) (snd (refreshOnDemand (vs_first sit) c))"
  have clock: "vs_now sit \<le> vs_again sit" "vs_now sit \<le> dm_fetched (vs_first sit)" "\<forall>e \<in> set (vs_others1 sit). vs_now sit \<le> fetchedAt e"
    using assms(2) by (simp_all add: clockOK_def)
  have l: "later (vs_now sit) c cr"
    unfolding cr_def by (rule later_trans [OF later_demand [OF clock(2)] later_others [OF clock(3)]])
  have "later (vs_now sit) c c1 \<and> freshAt (vs_now sit) c1"
  proof (cases "stale (jc_maxStale c) (vs_now sit) (jc_cur c)")
    case True
    then have "\<not> stale (jc_maxStale cr) (vs_again sit) (jc_cur cr)" "c1 = cr"
      using assms(1) unfolding freshKeys_def Let_def cr_def [symmetric] by (simp_all split: if_splits)
    then show ?thesis using l clock(1) by (cases "jc_cur cr") (simp_all add: freshAt_def stale_def)
  next
    case False
    then have "c1 = c" using assms(1) by (simp add: freshKeys_def)
    then show ?thesis using False by (simp add: freshAt_def)
  qed
  then show "later (vs_now sit) c c1" "freshAt (vs_now sit) c1" by blast+
qed

lemma selectKey_ok:
  assumes "selectKey (jc_cur c) kid alg = Some k" and "cacheOK c"
  shows "\<exists>ks. jc_cur c = Some ks \<and> k \<in> set (ks_all ks) \<and> unusable k = None \<and> compatible alg k \<and> (kid \<noteq> [] \<longrightarrow> jk_KeyID k = kid) \<and>
    (kid = [] \<longrightarrow> filter (compatible alg) (ks_all ks) = [k])"
proof -
  obtain ks where ks: "jc_cur c = Some ks" and ok: "keysOK ks" using assms by (auto simp: selectKey_def cacheOK_def split: option.splits)
  have one: "filter (compatible alg) (ks_all ks) = [k]" if "kid = []"
    using assms(1) ks that by (auto simp: selectKey_def split: list.splits)
  have "k \<in> set (ks_all ks) \<and> compatible alg k \<and> (kid \<noteq> [] \<longrightarrow> jk_KeyID k = kid)"
  proof (cases "kid = []")
    case True
    then have "k \<in> set (filter (compatible alg) (ks_all ks))" using one by simp
    then show ?thesis using True by simp
  next
    case False
    then show ?thesis using assms(1) ks ok by (auto simp: selectKey_def keysOK_def split: option.splits if_splits)
  qed
  then show ?thesis using ks ok one by (auto simp: keysOK_def)
qed

lemma chooseKey_ok:
  assumes "chooseKey sit kid alg c = (Some k, c')" and "clockOK sit"
  shows "later (vs_now sit) c c'" "selectKey (jc_cur c') kid alg = Some k"
proof -
  define c2 where "c2 = fetchedByOthers (vs_others2 sit) (snd (refreshOnDemand (vs_second sit) c))"
  have clock: "vs_now sit \<le> dm_fetched (vs_second sit)" "\<forall>e \<in> set (vs_others2 sit). vs_now sit \<le> fetchedAt e"
    using assms(2) by (simp_all add: clockOK_def)
  have l: "later (vs_now sit) c c2"
    unfolding c2_def by (rule later_trans [OF later_demand [OF clock(1)] later_others [OF clock(2)]])
  have "later (vs_now sit) c c' \<and> selectKey (jc_cur c') kid alg = Some k"
  proof (cases "selectKey (jc_cur c) kid alg")
    case None
    obtain did c1 where d: "refreshOnDemand (vs_second sit) c = (did, c1)" by fastforce
    have "c' = c2 \<and> selectKey (jc_cur c2) kid alg = Some k"
      using assms(1) None d by (cases did) (auto simp: chooseKey_def Let_def c2_def split: if_splits)
    then show ?thesis using l by simp
  next
    case (Some k')
    then show ?thesis using assms(1) by (simp add: chooseKey_def)
  qed
  then show "later (vs_now sit) c c'" "selectKey (jc_cur c') kid alg = Some k" by blast+
qed

lemma if_Some_None: "((if b then Some x else e) = None) = (\<not> b \<and> e = None)"
  by simp

lemma checkClaims_ok:
  assumes "checkClaims v now typ body = None"
  shows "asString (claimOf body ''iss'') = Some (vf_issuer v)" "identity (claimOf body (vf_usernameClaim v)) \<noteq> None"
    "\<exists>exp. numericDate (claimOf body ''exp'') = Some exp \<and> unix (now - vf_skew v) < exp"
    "\<exists>iat. numericDate (claimOf body ''iat'') = Some iat \<and> iat \<le> unix (now + vf_skew v)"
    "\<exists>aud. stringOrArray (claimOf body ''aud'') = Some aud \<and> vf_audience v \<in> set aud \<and>
      (vf_tokenType v \<noteq> tokenTypeAccess \<longrightarrow> length aud \<le> 1 \<or> asString (claimOf body ''azp'') = Some (vf_audience v))"
    "vf_tokenType v = tokenTypeAccess \<longrightarrow> equalFold typ accessTokenType"
    "map_of body ''nbf'' = None \<or> (\<exists>nbf. numericDate (claimOf body ''nbf'') = Some nbf \<and> nbf \<le> unix (now + vf_skew v))"
proof -
  obtain aud where aud: "stringOrArray (claimOf body ''aud'') = Some aud"
    using assms unfolding checkClaims_def Let_def if_Some_None by (cases "stringOrArray (claimOf body ''aud'')") simp_all
  note facts = assms [unfolded checkClaims_def Let_def if_Some_None aud option.case(2), simplified]
  show "asString (claimOf body ''iss'') = Some (vf_issuer v)" "identity (claimOf body (vf_usernameClaim v)) \<noteq> None"
    "vf_tokenType v = tokenTypeAccess \<longrightarrow> equalFold typ accessTokenType"
    using facts by blast+
  show "\<exists>exp. numericDate (claimOf body ''exp'') = Some exp \<and> unix (now - vf_skew v) < exp"
    using facts by (cases "numericDate (claimOf body ''exp'')") simp_all
  show "\<exists>iat. numericDate (claimOf body ''iat'') = Some iat \<and> iat \<le> unix (now + vf_skew v)"
    using facts by (cases "numericDate (claimOf body ''iat'')") simp_all
  show "map_of body ''nbf'' = None \<or> (\<exists>nbf. numericDate (claimOf body ''nbf'') = Some nbf \<and> nbf \<le> unix (now + vf_skew v))"
    using facts by (cases "numericDate (claimOf body ''nbf'')") (auto simp: not_less)
  show "\<exists>aud. stringOrArray (claimOf body ''aud'') = Some aud \<and> vf_audience v \<in> set aud \<and>
      (vf_tokenType v \<noteq> tokenTypeAccess \<longrightarrow> length aud \<le> 1 \<or> asString (claimOf body ''azp'') = Some (vf_audience v))"
    using facts aud by (auto simp: List.member_iff not_less)
qed

text \<open>
  C7: An accepted token was good.  Whatever the cache held and whatever was fetched meanwhile, a
  token \<open>verify\<close> accepts is within its bound, names one allowed algorithm, and its signature holds
  under one usable key of the issuer that fits that algorithm and the token's kid, from a set
  fetched within \<open>maxStale\<close> of the start of the request; its issuer is the configured one, its
  lifetime includes the present within the skew (with a \<open>nbf\<close>, from it on), an access token says so in
  its type header, the audience is among its own and, for an ID
  token of several, the authorized party is the audience; and the claims handed on are the signed
  ones, with a username that is not empty.
\<close>

theorem verified_token_good:
  assumes "verify v jo sit token (Some c) = (Inr cl, state)" and "cacheOK c" and "0 \<le> jc_maxStale c" and "clockOK sit"
  shows "\<exists>t header alg c' ks key payload body. length token \<le> 16384 \<and>
    jo_ParseSigned jo token allowedAlgs = Inr t \<and> jw_headers t = [header] \<and> singleAlg jo token = (alg, True) \<and> alg \<in> set allowedAlgs \<and>
    state = Some c' \<and> cacheOK c' \<and> jc_cur c' = Some ks \<and> key \<in> set (ks_all ks) \<and> vs_now sit - ks_fetched ks \<le> jc_maxStale c \<and>
    unusable key = None \<and> compatible alg key \<and> (jh_KeyID header \<noteq> [] \<longrightarrow> jk_KeyID key = jh_KeyID header) \<and>
    jw_Verify t key = Some payload \<and> jo_claims jo payload = Some body \<and>
    asString (claimOf body ''iss'') = Some (vf_issuer v) \<and>
    (\<exists>exp. numericDate (claimOf body ''exp'') = Some exp \<and> unix (vs_claims sit - vf_skew v) < exp) \<and>
    (\<exists>iat. numericDate (claimOf body ''iat'') = Some iat \<and> iat \<le> unix (vs_claims sit + vf_skew v)) \<and>
    (map_of body ''nbf'' = None \<or> (\<exists>nbf. numericDate (claimOf body ''nbf'') = Some nbf \<and> nbf \<le> unix (vs_claims sit + vf_skew v))) \<and>
    (vf_tokenType v = ''access'' \<longrightarrow> equalFold (jh_typ header) ''at+jwt'') \<and>
    (\<exists>aud. stringOrArray (claimOf body ''aud'') = Some aud \<and> vf_audience v \<in> set aud \<and>
      (vf_tokenType v \<noteq> ''access'' \<longrightarrow> length aud \<le> 1 \<or> asString (claimOf body ''azp'') = Some (vf_audience v))) \<and>
    cl = keep v body \<and> cm_Username cl \<noteq> []"
proof -
  obtain t header alg where shape: "checkShape jo token = Inr (t, header, alg)"
    using assms(1) by (auto simp: verify_def split: sum.splits)
  have s: "length token \<le> 16384" "jo_ParseSigned jo token allowedAlgs = Inr t" "jw_headers t = [header]" "singleAlg jo token = (alg, True)"
    using shape by (auto simp: checkShape_def maxTokenBytes_def split: if_splits prod.splits sum.splits list.splits)
  obtain u c1 where fresh: "freshKeys sit c = (Inr u, c1)"
    using assms(1) shape by (auto simp: verify_def split: sum.splits prod.splits)
  obtain key c2 where choose: "chooseKey sit (jh_KeyID header) alg c1 = (Some key, c2)"
    and signed: "checkSigned v jo (vs_claims sit) t header key = Inr cl" and state: "state = Some c2"
    using assms(1) shape fresh by (auto simp: verify_def split: sum.splits prod.splits option.splits)
  note l1 = freshKeys_ok [OF fresh assms(4)] and l2 = chooseKey_ok [OF choose assms(4)]
  have l: "later (vs_now sit) c c2" using later_trans [OF l1(1) l2(1)] .
  have ok: "cacheOK c2" "jc_maxStale c2 = jc_maxStale c" using l assms(2) by (auto simp: later_def)
  have "freshAt (vs_now sit) c2" using freshAt_later [OF l1(2) l2(1)] l1(1) assms(3) by (simp add: later_def)
  moreover obtain ks where ks: "jc_cur c2 = Some ks" "key \<in> set (ks_all ks)" "unusable key = None" "compatible alg key"
     "jh_KeyID header \<noteq> [] \<longrightarrow> jk_KeyID key = jh_KeyID header"
    using selectKey_ok [OF l2(2) ok(1)] by blast
  ultimately have "vs_now sit - ks_fetched ks \<le> jc_maxStale c" using ok(2) by (simp add: freshAt_def stale_def)
  moreover have "alg \<in> set allowedAlgs" using ks(4) by (auto simp: compatible_def algAllowed_def List.member_iff split: if_splits)
  moreover obtain payload body where sg: "jw_Verify t key = Some payload" "jo_claims jo payload = Some body"
     "checkClaims v (vs_claims sit) (jh_typ header) body = None" "cl = keep v body"
    using signed by (auto simp: checkSigned_def split: option.splits)
  moreover have "cm_Username cl \<noteq> []"
    using checkClaims_ok(2) [OF sg(3)] sg(4) by (auto simp: keep_def orEmpty_def identity_def split: option.splits if_splits)
  ultimately show ?thesis
    using s state ok(1) ks checkClaims_ok [OF sg(3)] unfolding tokenTypeAccess_def accessTokenType_def by blast
qed

text \<open>An issuer with one RSA key, and a token it signed.\<close>

definition demo_signing :: JSONWebKey where
  "demo_signing = \<lparr>jk_KeyID = ''k1'', jk_Algorithm = ''RS256'', jk_Use = ''sig'', jk_Key = RSAKey 2048 ''n'', jk_Valid = True\<rparr>"

definition demo_cache :: jwksCache where
  "demo_cache = snd (Refresh (Some [demo_signing]) 0 (newJWKSCache minute hour))"

definition demo_body :: "(string \<times> json) list" where
  "demo_body = [(''iss'', JString ''https://issuer''), (''sub'', JString ''u1''), (''iat'', JNumber (Some (0, 0))), (''exp'', JNumber (Some (60, 0))),
     (''email'', JString ''alice''), (''aud'', JString ''gate''), (''groups'', JArray [JString ''dev'']), (''nonce'', JString ''n'')]"

definition demo_jose :: jose where
  "demo_jose = \<lparr>jo_ParseSigned = (\<lambda>token algs. Inr \<lparr>jw_headers = [\<lparr>jh_KeyID = ''k1'', jh_typ = ''JWT''\<rparr>],
       jw_Verify = (\<lambda>k. if jk_Key k = RSAKey 2048 ''n'' then Some ''payload'' else None)\<rparr>),
     jo_members = (\<lambda>_. Some [(''alg'', JString ''RS256''), (''kid'', JString ''k1'')]), jo_claims = (\<lambda>_. Some demo_body)\<rparr>"

definition demo_verifier :: verifier where
  "demo_verifier = \<lparr>vf_issuer = ''https://issuer'', vf_audience = ''gate'', vf_tokenType = ''id'', vf_usernameClaim = ''email'', vf_groupsClaim = ''groups'', vf_skew = 0\<rparr>"

definition demo_demand :: demand where "demo_demand = \<lparr>dm_now = 0, dm_fetch = None, dm_fetched = 0\<rparr>"

definition demo_verification :: verifySituation where
  "demo_verification = \<lparr>vs_now = 0, vs_first = demo_demand, vs_others1 = [], vs_again = 0, vs_second = demo_demand, vs_others2 = [], vs_claims = 0\<rparr>"

lemma demo_verified: "verify demo_verifier demo_jose demo_verification ''aa.b.c'' (Some demo_cache) =
    (Inr \<lparr>cm_Subject = ''u1'', cm_Username = ''alice'', cm_Groups = [''dev''], cm_Nonce = ''n''\<rparr>, Some demo_cache)"
  by code_simp

lemma demo_cacheOK: "cacheOK demo_cache"
  using later_Refresh [of 0 0 "newJWKSCache minute hour" "Some [demo_signing]"] by (simp add: demo_cache_def later_def cacheOK_def newJWKSCache_def)

definition demo_weak :: JSONWebKey where
  "demo_weak = \<lparr>jk_KeyID = ''k2'', jk_Algorithm = ''RS256'', jk_Use = ''sig'', jk_Key = RSAKey 1024 ''n'', jk_Valid = True\<rparr>"

lemma usableKeys_decides_witness:
  "\<exists>ks. usableKeys [demo_signing, demo_weak] 5 = Some ks \<and> set (ks_all ks) = {demo_signing} \<and>
     map_of (ks_byKID ks) ''k1'' = Some demo_signing \<and> map_of (ks_byKID ks) ''k2'' = None"
proof -
  have good: "unusable demo_signing = None" and weak: "unusable demo_weak \<noteq> None" by code_simp+
  have kids: "jk_KeyID demo_signing = ''k1''" "jk_KeyID demo_weak = ''k2''" by (simp_all add: demo_signing_def demo_weak_def)
  obtain ks where ks: "usableKeys [demo_signing, demo_weak] 5 = Some ks"
    using usableKeys_decides [of "[demo_signing, demo_weak]" 5] good weak kids by (auto split: option.splits)
  have all: "set (ks_all ks) = {demo_signing}"
    and named: "\<And>kid k. map_of (ks_byKID ks) kid = Some k \<longleftrightarrow>
      k \<in> set [demo_signing, demo_weak] \<and> unusable k = None \<and> jk_KeyID k = kid \<and> kid \<noteq> []"
    using usableKeys_decides [of "[demo_signing, demo_weak]" 5] good weak unfolding ks by auto
  have "map_of (ks_byKID ks) ''k1'' = Some demo_signing" unfolding named using good kids by simp
  moreover have "map_of (ks_byKID ks) ''k2'' = None"
    using weak kids by (auto simp: named not_Some_eq [symmetric] simp del: not_Some_eq)
  ultimately show ?thesis using ks all by blast
qed

lemma verified_token_good_witness:
  "\<exists>ks key. jc_cur demo_cache = Some ks \<and> key \<in> set (ks_all ks) \<and> unusable key = None \<and> vs_now demo_verification - ks_fetched ks \<le> jc_maxStale demo_cache"
proof -
  have "0 \<le> jc_maxStale demo_cache" by code_simp
  moreover have "clockOK demo_verification" by (simp add: clockOK_def demo_verification_def demo_demand_def)
  ultimately show ?thesis using verified_token_good [OF demo_verified demo_cacheOK] by blast
qed

end
