(* ===== verification/Admission.thy ===== *)
theory Admission
  imports Prelude
begin

text \<open>
  The admission gate (\<open>internal/admit/gate.go\<close>): a counting semaphore over a buffered channel, taken
  without waiting, whose release functions give back at most the one slot they hold.

  \<open>gt_once\<close> has one entry per acquisition so far, in order: whether its \<open>sync.Once\<close> has run.  The
  release function of an acquisition is named by its position.
\<close>

section \<open>The gate\<close>

record Gate =
  gt_capacity :: nat
  gt_slots :: nat
  gt_once :: "bool list"

definition New :: "nat \<Rightarrow> Gate" where
  "New capacity = \<lparr>gt_capacity = capacity, gt_slots = 0, gt_once = []\<rparr>"

definition TryAcquire :: "Gate \<Rightarrow> (nat \<times> Gate) option" where
  "TryAcquire g =
     (if gt_slots g < gt_capacity g
      then Some (length (gt_once g), g\<lparr>gt_slots := Suc (gt_slots g), gt_once := gt_once g @ [False]\<rparr>)
      else None)"

text \<open>One call of a release function; \<open>None\<close> is the receive from an empty channel, which never returns.\<close>

definition releaser :: "nat \<Rightarrow> Gate \<Rightarrow> Gate option" where
  "releaser i g =
     (if gt_once g ! i then Some g
      else if gt_slots g = 0 then None
      else Some (g\<lparr>gt_slots := gt_slots g - 1, gt_once := (gt_once g)[i := True]\<rparr>))"

section \<open>Any interleaving of holders\<close>

text \<open>
  The steps of any number of goroutines: an acquisition, and a call of a release function some
  acquisition handed out, again and again if its holder wants to.
\<close>

inductive gateStep :: "Gate \<Rightarrow> Gate \<Rightarrow> bool" where
  acquire: "TryAcquire g = Some (i, g') \<Longrightarrow> gateStep g g'"
| release: "i < length (gt_once g) \<Longrightarrow> releaser i g = Some g' \<Longrightarrow> gateStep g g'"

definition holding :: "Gate \<Rightarrow> nat set" where
  "holding g = {i. i < length (gt_once g) \<and> \<not> gt_once g ! i}"

definition gateOK :: "Gate \<Rightarrow> bool" where
  "gateOK g \<longleftrightarrow> gt_slots g = card (holding g) \<and> gt_slots g \<le> gt_capacity g"

lemma finite_holding [simp]: "finite (holding g)"
  by (simp add: holding_def)

lemma holding_acquire:
  assumes "TryAcquire g = Some (i, g')"
  shows "holding g' = insert i (holding g)" "i \<notin> holding g" "gt_slots g' = Suc (gt_slots g)" "gt_slots g < gt_capacity g" "gt_capacity g' = gt_capacity g"
  using assms by (auto simp: TryAcquire_def holding_def nth_append split: if_splits)

lemma holding_release:
  assumes "i < length (gt_once g)" and "releaser i g = Some g'"
  shows "holding g' = holding g - {i}" "gt_capacity g' = gt_capacity g"
    "gt_slots g' = (if i \<in> holding g then gt_slots g - 1 else gt_slots g)"
  using assms by (auto simp: releaser_def holding_def nth_list_update split: if_splits)

lemma gateStep_OK: "gateStep g g' \<Longrightarrow> gateOK g \<Longrightarrow> gateOK g' \<and> gt_capacity g' = gt_capacity g"
proof (induction rule: gateStep.induct)
  case (acquire g i g')
  then show ?case using holding_acquire [OF acquire(1)] by (simp add: gateOK_def)
next
  case (release i g g')
  have h: "holding g' = holding g - {i}" "gt_capacity g' = gt_capacity g"
    "gt_slots g' = (if i \<in> holding g then gt_slots g - 1 else gt_slots g)"
    using holding_release [OF release(1,2)] by simp_all
  have "card (holding g') = (if i \<in> holding g then card (holding g) - 1 else card (holding g))"
    unfolding h(1) by (simp add: card_Diff_singleton)
  then show ?case using h(2,3) release(3) unfolding gateOK_def by (cases "i \<in> holding g") (simp_all, linarith)
qed

lemma gate_reachable:
  "gateStep\<^sup>*\<^sup>* (New c) g \<Longrightarrow> gateOK g \<and> gt_capacity g = c"
proof (induction rule: rtranclp_induct)
  case base
  show ?case by (simp add: gateOK_def New_def holding_def)
next
  case (step g g')
  then show ?case using gateStep_OK by blast
qed

text \<open>
  C10: The gate admits at most its capacity.  After any interleaving of acquisitions and releases,
  repeated releases included, the slots taken are the acquisitions not yet released, never more
  than the capacity; no release function ever blocks; and calling one again changes nothing.
\<close>

theorem gate_bounded:
  assumes "gateStep\<^sup>*\<^sup>* (New capacity) g"
  shows "card (holding g) = gt_slots g \<and> gt_slots g \<le> capacity \<and>
    (\<forall>i < length (gt_once g). \<exists>g'. releaser i g = Some g' \<and> releaser i g' = Some g' \<and> holding g' = holding g - {i})"
proof -
  have ok: "gateOK g" "gt_capacity g = capacity" using gate_reachable [OF assms] by auto
  have "\<exists>g'. releaser i g = Some g' \<and> releaser i g' = Some g' \<and> holding g' = holding g - {i}" if i: "i < length (gt_once g)" for i
  proof -
    have "gt_slots g \<noteq> 0" if "\<not> gt_once g ! i"
      using ok(1) i that by (auto simp: gateOK_def holding_def)
    then obtain g' where g': "releaser i g = Some g'" by (cases "gt_once g ! i") (simp_all add: releaser_def)
    moreover have "releaser i g' = Some g'" using g' i by (auto simp: releaser_def split: if_splits)
    ultimately show ?thesis using holding_release(1) [OF i g'] by blast
  qed
  then show ?thesis using ok by (auto simp: gateOK_def)
qed

lemma gate_bounded_witness:
  "card (holding \<lparr>gt_capacity = 2, gt_slots = 1, gt_once = [False]\<rparr>) = 1"
proof -
  have "gateStep (New 2) \<lparr>gt_capacity = 2, gt_slots = 1, gt_once = [False]\<rparr>"
    by (rule gateStep.acquire [where i = 0]) (simp add: TryAcquire_def New_def)
  then show ?thesis using gate_bounded [of 2 "\<lparr>gt_capacity = 2, gt_slots = 1, gt_once = [False]\<rparr>"] by auto
qed

text \<open>
  C11: A slot comes back.  In every reachable state, whatever the others hold, a holder that
  releases leaves a slot the next \<open>TryAcquire\<close> gets.
\<close>

theorem gate_readmits:
  assumes "gateStep\<^sup>*\<^sup>* (New capacity) g" and "i \<in> holding g"
  shows "\<exists>g' j g''. releaser i g = Some g' \<and> TryAcquire g' = Some (j, g'') \<and> holding g'' = insert j (holding g - {i}) \<and> j \<noteq> i"
proof -
  have ok: "gateOK g" using gate_reachable [OF assms(1)] by blast
  have i: "i < length (gt_once g)" "\<not> gt_once g ! i" using assms(2) by (auto simp: holding_def)
  have pos: "gt_slots g \<noteq> 0" using ok assms(2) by (auto simp: gateOK_def)
  define g' where "g' = g\<lparr>gt_slots := gt_slots g - 1, gt_once := (gt_once g)[i := True]\<rparr>"
  have r: "releaser i g = Some g'" using i pos by (simp add: releaser_def g'_def)
  have "gt_slots g' < gt_capacity g'" using ok pos unfolding gateOK_def g'_def by (simp del: finite_holding) linarith
  then obtain j g'' where a: "TryAcquire g' = Some (j, g'')" by (simp add: TryAcquire_def)
  have "j \<noteq> i" using a i(1) by (auto simp: TryAcquire_def g'_def split: if_splits)
  then show ?thesis using r a holding_acquire(1) [OF a] holding_release(1) [OF i(1) r] by auto
qed

lemma gate_readmits_witness:
  "\<exists>g' j g''. releaser 0 \<lparr>gt_capacity = 1, gt_slots = 1, gt_once = [False]\<rparr> = Some g' \<and> TryAcquire g' = Some (j, g'') \<and> j \<noteq> 0"
proof -
  have "gateStep (New 1) \<lparr>gt_capacity = 1, gt_slots = 1, gt_once = [False]\<rparr>"
    by (rule gateStep.acquire [where i = 0]) (simp add: TryAcquire_def New_def)
  then show ?thesis
    using gate_readmits [of 1 "\<lparr>gt_capacity = 1, gt_slots = 1, gt_once = [False]\<rparr>" 0] by (fastforce simp: holding_def)
qed

end
