(* ===== verification/Spec2Isabelle.thy ===== *)
theory Spec2Isabelle
  imports System Access Tokens Admission
begin

text \<open>
  profgate is a gateway to the pprof endpoints of the Pods of a Kubernetes cluster.  A request names
  a namespace, a Service and a profile; the gateway authenticates it into a realm, discovers the
  Pods of the Service, confirms one and forwards its profile.  Its PGO part
  runs \<^emph>\<open>Collections\<close>: on request or on a schedule it samples the CPU profiles of a Service's
  Pods over several rounds, merges them and keeps the merged profile for download.  Any number of
  replicas share the work; they meet only in three NATS stores: a key-value bucket of policy
  overrides, a key-value bucket of job records, active keys, slots and receipts, and an object
  store of artifacts.  No replica is a leader: every decision is a conditional write.

  \<^bold>\<open>Parts of the program and their theories.\<close>

  \<^item> \<open>Prelude\<close>: Go's durations, 64-bit integers, strings, sorting, association lists as maps.
  \<^item> \<open>Limits\<close>: the PGO block of \<open>internal/config/config.go\<close>: limits, defaults, the load-time rules and
    the derived memory figure, with 64-bit wrap-around written out.
  \<^item> \<open>Policy\<close>: \<open>internal/pgo/policy.go\<close>: policies, layering of overrides, validation.
  \<^item> \<open>Collection_Record\<close>: \<open>internal/pgo/record.go\<close> and \<open>id.go\<close>: records, deadlines, identifiers.
  \<^item> \<open>Keys\<close>: the keys of \<open>internal/pgo/caches.go\<close>, artifact names, slots and their offsets.
  \<^item> \<open>Store\<close>: the contract of \<open>internal/natskv\<close>: two revisioned buckets and the objects (\<open>world\<close>), one
    call (\<open>perform\<close>), a call that may fail applied or not (\<open>exec\<close>), and programs (\<open>prog\<close>) of calls and
    critical sections; \<open>run\<close> executes one program alone under a list of faults.
  \<^item> \<open>Caches\<close>: \<open>internal/pgo/caches.go\<close>: the four watched caches, the replay barrier, the listing.
  \<^item> \<open>Replica\<close>: the memory of one replica and what its loops share (\<open>runtime.go\<close>).
  \<^item> \<open>Rely_Guarantee\<close>: safety of a program under interference, as a locale over an invariant, a rely
    and a guarantee; \<open>Protocol\<close> interprets it with the invariant of the stores, the evolution of
    records and what each party may write.
  \<^item> \<open>Publisher\<close>, \<open>Worker\<close>, \<open>Sweeper\<close>, \<open>Scheduler\<close>: the files of those names under \<open>internal/pgo\<close>.
  \<^item> \<open>Session\<close>: the request session of \<open>internal/pgo/runtime.go\<close>.
  \<^item> \<open>Discovery\<close>: \<open>internal/k8s\<close>: eligibility, explanation, confirmation and catalogue over the
    informer caches.
  \<^item> \<open>Rounds\<close>: \<open>internal/pgo/rounds.go\<close>: the round loop, the fan-out of its goroutines as a step
    relation, sampling, decoding and merging.
  \<^item> \<open>Routing\<close>: the route table, the matching of a path and the realms
    (\<open>internal/httpapi/routes.go\<close>, \<open>realm.go\<close>, the filters of \<open>listing.go\<close>).
  \<^item> \<open>Requests\<close>: the query string, every parameter and its refusal, the profile table, the port
    allowlist and the body of the targets route (\<open>profile.go\<close>, \<open>errors.go\<close>, \<open>targets.go\<close>).
  \<^item> \<open>Listing\<close>: the query of the Collection listing and its cursor, the wait and the media type
    (\<open>pgo_collections.go\<close>).
  \<^item> \<open>Gateway\<close>: the request algorithm of \<open>server.go\<close>, \<open>auth.go\<close>, \<open>listing.go\<close> and \<open>console.go\<close>,
    and the fetch of \<open>internal/proxy\<close>; \<open>Access\<close> shows what a caller may reach and learn through it.
  \<^item> \<open>Admission\<close>: the gate of \<open>internal/admit\<close> that bounds the profiles in flight.
  \<^item> \<open>Credentials\<close>: basic authentication, its user set and the file it is read from again
    (\<open>internal/auth/basic.go\<close>, \<open>users.go\<close>, \<open>poll.go\<close>, \<open>internal/config/users.go\<close>), and the realm mapping.
  \<^item> \<open>Tokens\<close>: the signing keys, their cache and the checks of a bearer token
    (\<open>internal/auth/jwks.go\<close>, \<open>verify.go\<close>).
  \<^item> \<open>Handlers\<close>: the handlers of \<open>internal/httpapi/pgo.go\<close>, \<open>pgo_collections.go\<close>, \<open>pgo_policy.go\<close>.
  \<^item> \<open>System\<close>: replicas with their own memory and threads over one world, and its step relation:
    a call of some thread with any fault, a critical section, a program started, a watch delivery,
    a reconnect, a drain, a clock step, a crash.

  \<^bold>\<open>What is shown.\<close>  Every program is proved to keep the protocol under interference (the lemmas
  \<open>psafe_\<close>...), so every reachable state of \<open>System\<close> satisfies the invariant and every step is one
  the protocol allows.  This theory draws the consequences: one live Collection per Service, one
  Collection per idempotency key, well-formed records, lawful transitions.  The component theories
  show the functional behaviour: of each handler, of a publication, of the final update, of the
  caches, of a round, of discovery and of the configuration.  \<open>Gateway\<close> and \<open>Access\<close> compose the
  request layer with discovery and the handlers: a Pod is fetched from only for a request that
  earned it, a refusal reads no store and reveals nothing, a denied Collection answers like a
  missing one, and a realm without the write flags writes nothing.  \<open>Credentials\<close> and \<open>Tokens\<close> show
  what an admitted credential was: one comparison at one cost, a signature of a fresh key.

  \<^bold>\<open>Parameters.\<close>  SHA-256 and the JSON encoding are functions of \<open>env\<close>, of which nothing is assumed
  but that all replicas share the hash; the pprof and gzip libraries are the record \<open>pprof\<close>;
  \<open>crypto/rand\<close> gives bytes, of which the system assumes that no identifier is drawn twice; \<open>U\<close> is
  the set of Services that overrides exist for.

  \<^bold>\<open>Bounds.\<close>  The loops over a \<open>select\<close> take the list of the events they receive, and the list's end is
  a loop that still waits; \<open>runCutoff\<close> takes the number of times its timer fires.  \<open>cancelLoop\<close> and
  \<open>lookupReceipt\<close> count down the constants of the source (5 and 2).  Every other function is total.

  The Kubernetes validators, \<open>time.Parse\<close>, \<open>time.ParseDuration\<close>, \<open>mime.ParseMediaType\<close> and the
  floating-point format of \<open>waitElapsed\<close> (\<open>lb_FormatSeconds\<close>) are the record \<open>libraries\<close>; the Authenticator, the browser-login routes and the console are the interfaces the
  handler is built from, functions in \<open>Deps\<close>; bcrypt, the YAML parser and the JOSE library are
  arguments of \<open>Credentials\<close> and \<open>Tokens\<close>.

  \<^bold>\<open>Not modelled.\<close>  The connection to NATS and its watch goroutines (the model lets a watch deliver
  anything the bucket ever held), logging and metrics beyond the order of their calls and the
  labels of a request, contexts and timeouts (a call whose context ended is a call that failed;
  \<open>situation\<close> says how a request's own context ended), the token bucket (floating point), message
  texts, the decoding of JSON bodies, the browser login with its sealed cookies (all but the deletion of the session cookie), the discovery of
  the issuer, the HTTP transport,
  the console's assets, the command line and the start-up of the process: these are pure I/O around
  the program or code whose behaviour is that of third-party libraries.
\<close>

section \<open>Executions\<close>

text \<open>A program that runs alone is an execution of the system.\<close>

lemma run_steps:
  assumes "n < length (sys_threads s)" and "sys_threads s ! n = \<lparr>th_replica = m, th_ids = ids, th_prog = p\<rparr>"
    and "run p fs (sys_world s) (sys_mem s m) = (a, w', l', fs')"
  shows "\<exists>past. (sysStep U es)\<^sup>*\<^sup>* s (s\<lparr>sys_world := w', sys_mem := (sys_mem s)(m := l'),
      sys_threads := (sys_threads s)[n := \<lparr>th_replica = m, th_ids = ids, th_prog = Ret a\<rparr>], sys_past := past\<rparr>)"
  using assms
proof (induction p arbitrary: s fs rule: prog_induct)
  case (Ret a')
  then have "w' = sys_world s" "l' = sys_mem s m" "a' = a" by simp_all
  moreover have "(sys_threads s)[n := \<lparr>th_replica = m, th_ids = ids, th_prog = Ret a\<rparr>] = sys_threads s"
    using Ret.prems(2) list_update_id [of "sys_threads s" n] by simp
  ultimately have "s\<lparr>sys_world := w', sys_mem := (sys_mem s)(m := l'),
      sys_threads := (sys_threads s)[n := \<lparr>th_replica = m, th_ids = ids, th_prog = Ret a\<rparr>], sys_past := sys_past s\<rparr> = s"
    by simp
  then show ?case by (metis rtranclp.rtrancl_refl)
next
  case (Call op k)
  obtain r w1 where e: "exec (case fs of [] \<Rightarrow> NoFault | f # _ \<Rightarrow> f) op (sys_world s) = (r, w1)" by fastforce
  let ?t = "\<lparr>th_replica = m, th_ids = ids, th_prog = k r\<rparr>"
  define s1 where "s1 = s\<lparr>sys_world := w1, sys_threads := (sys_threads s)[n := ?t], sys_past := w1 # sys_past s\<rparr>"
  have "sysStep U es s s1" using sysStep.call [OF Call.prems(1), of op k _ r w1 U es] e Call.prems(2) by (simp add: s1_def)
  moreover have "\<exists>past. (sysStep U es)\<^sup>*\<^sup>* s1 (s1\<lparr>sys_world := w', sys_mem := (sys_mem s1)(m := l'),
      sys_threads := (sys_threads s1)[n := \<lparr>th_replica = m, th_ids = ids, th_prog = Ret a\<rparr>], sys_past := past\<rparr>)"
    using Call.prems e by (intro Call.IH) (simp_all add: s1_def)
  ultimately obtain past where "(sysStep U es)\<^sup>*\<^sup>* s (s1\<lparr>sys_world := w', sys_mem := (sys_mem s1)(m := l'),
      sys_threads := (sys_threads s1)[n := \<lparr>th_replica = m, th_ids = ids, th_prog = Ret a\<rparr>], sys_past := past\<rparr>)"
    by (meson converse_rtranclp_into_rtranclp)
  then have "(sysStep U es)\<^sup>*\<^sup>* s (s\<lparr>sys_world := w', sys_mem := (sys_mem s)(m := l'),
      sys_threads := (sys_threads s)[n := \<lparr>th_replica = m, th_ids = ids, th_prog = Ret a\<rparr>], sys_past := past\<rparr>)"
    by (simp add: s1_def)
  then show ?case by (rule exI)
next
  case (Loc g)
  obtain l1 p1 where e: "g (sys_mem s m) = (l1, p1)" by fastforce
  let ?t = "\<lparr>th_replica = m, th_ids = ids, th_prog = p1\<rparr>"
  define s1 where "s1 = s\<lparr>sys_mem := (sys_mem s)(m := l1), sys_threads := (sys_threads s)[n := ?t]\<rparr>"
  have "sysStep U es s (s\<lparr>sys_mem := (sys_mem s)(m := l1), sys_threads := (sys_threads s)[n := (sys_threads s ! n)\<lparr>th_prog := p1\<rparr>]\<rparr>)"
    using Loc.prems(1,2) e by (intro sysStep.critical [where g = g]) simp_all
  then have "sysStep U es s s1" using Loc.prems(2) by (simp add: s1_def)
  moreover have "\<exists>past. (sysStep U es)\<^sup>*\<^sup>* s1 (s1\<lparr>sys_world := w', sys_mem := (sys_mem s1)(m := l'),
      sys_threads := (sys_threads s1)[n := \<lparr>th_replica = m, th_ids = ids, th_prog = Ret a\<rparr>], sys_past := past\<rparr>)"
    using Loc.prems e by (intro Loc.IH [of s1 "sys_mem s m" fs]) (simp_all add: s1_def)
  ultimately obtain past where "(sysStep U es)\<^sup>*\<^sup>* s (s1\<lparr>sys_world := w', sys_mem := (sys_mem s1)(m := l'),
      sys_threads := (sys_threads s1)[n := \<lparr>th_replica = m, th_ids = ids, th_prog = Ret a\<rparr>], sys_past := past\<rparr>)"
    by (meson converse_rtranclp_into_rtranclp)
  then have "(sysStep U es)\<^sup>*\<^sup>* s (s\<lparr>sys_world := w', sys_mem := (sys_mem s)(m := l'),
      sys_threads := (sys_threads s)[n := \<lparr>th_replica = m, th_ids = ids, th_prog = Ret a\<rparr>], sys_past := past\<rparr>)"
    by (simp add: s1_def)
  then show ?case by (rule exI)
qed

lemma deliver_steps:
  assumes "reachable U es s" and "sys_past s \<noteq> []" and "\<forall>(kind, en) \<in> set ds. e_Synced en"
  shows "reachable U es (s\<lparr>sys_mem := (sys_mem s)(m := (sys_mem s m)\<lparr>rp_caches := fold (\<lambda>(kind, en). apply_entry kind en) ds (rp_caches (sys_mem s m))\<rparr>)\<rparr>)"
  using assms
proof (induction ds arbitrary: s)
  case Nil
  then show ?case by simp
next
  case (Cons d ds)
  obtain kind en where d: "d = (kind, en)" by fastforce
  obtain u where "u \<in> set (sys_past s)" using Cons.prems(2) by (cases "sys_past s") auto
  then have "sysStep U es s (s\<lparr>sys_mem := (sys_mem s)(m := (sys_mem s m)\<lparr>rp_caches := apply_entry kind en (rp_caches (sys_mem s m))\<rparr>)\<rparr>)"
    using Cons.prems(3) d by (intro sysStep.deliver) (auto simp: delivers_def)
  then have "reachable U es (s\<lparr>sys_mem := (sys_mem s)(m := (sys_mem s m)\<lparr>rp_caches := apply_entry kind en (rp_caches (sys_mem s m))\<rparr>)\<rparr>)"
    using Cons.prems(1) unfolding reachable_def by (meson rtranclp.rtrancl_into_rtrancl)
  then show ?case using Cons.IH [of "s\<lparr>sys_mem := (sys_mem s)(m := (sys_mem s m)\<lparr>rp_caches := apply_entry kind en (rp_caches (sys_mem s m))\<rparr>)\<rparr>"] Cons.prems d
    by (simp cong: if_cong)
qed

text \<open>One replica with synced caches answers a keyed create: the world it leaves.\<close>

definition demo_id :: string where
  "demo_id = newID (replicate 20 0)"

definition demo_created :: Record where
  "demo_created = (publish_record demo_env demo_id 0 (createInput demo_create ''k'' 0 shippedPolicy 0))\<lparr>rc_State := StatePending\<rparr>"

definition demo_world :: world where
  "demo_world = emptyWorld\<lparr>w_jobs :=
     put (jobKey demo_id) (VJob demo_created) 0
     (put demo_key (VReceipt \<lparr>rcp_ID = demo_id, rcp_SnapshotHash = ''h'', rcp_CreatedAt = 0\<rparr>) 0
     (put (activeKey ''ns'' ''svc'') (VActive \<lparr>av_ID = demo_id, av_CreatedAt = 0\<rparr>) 0
     (put (jobKey demo_id) (VJob (demo_created\<lparr>rc_State := StateInitializing\<rparr>)) 0 emptyBucket)))\<rparr>"

lemma demo_admitted:
  "idempotencyKey (cr_keys demo_create) = Inr ''k''" "ResolveVersion [demo_target] (pol_Version shippedPolicy) = (tg_Version demo_target, [])"
  "Override 0 0 ns svc (rp_caches demo_ready) = (None, 0, True)" "Live 0 0 ns svc (rp_caches demo_ready) = (False, True)"
  "sessEffective demo_env [None, Some empty_override] = (shippedPolicy, [])"
  "cachedLive 0 0 (rp_caches demo_ready) = (0, True)"
proof -
  show "idempotencyKey (cr_keys demo_create) = Inr ''k''"
    by (simp add: demo_create_def idempotencyKey_def echoable_def echoChar_def requestIDMaxBytes_def)
  show "ResolveVersion [demo_target] (pol_Version shippedPolicy) = (tg_Version demo_target, [])"
    by (simp add: ResolveVersion_def demo_target_def shippedPolicy_def filterTargets_def distinctVersions_def Let_def)
  show "sessEffective demo_env [None, Some empty_override] = (shippedPolicy, [])"
    using demo_policy_ok by (simp add: sessEffective_def demo_env_def Let_def)
qed (simp_all add: Override_def Live_def liveLocked_def cachedLive_def liveRefs_def)

lemma demo_publish_run:
  "\<exists>l'. run (serveCollectionCreate demo_env 0 demo_create) [] emptyWorld demo_ready = (Created demo_id StatePending, demo_world, l', [])"
proof -
  let ?q = demo_create
  have q: "cr_body ?q = Inr empty_override" "cr_Namespace ?q = ''ns''" "cr_Service ?q = ''svc''" "cr_principal ?q = ''alice''" "cr_token ?q"
    "cr_targets ?q = Inr [demo_target]" "cr_random ?q = replicate 20 0" "\<not> cr_gone ?q" "po_Enabled empty_override = None" "po_Schedule empty_override = None"
    by (simp_all add: demo_create_def empty_override_def)
  have e: "e_jsize demo_env v \<le> maxRecordBytes" "\<not> maxRecordBytes < e_jsize demo_env v" "e_snapHash demo_env p = ''h''" "e_maxLive demo_env = 64" for v p
    by (simp_all add: demo_env_def maxRecordBytes_def shipped_defs)
  have "run (lookupReceipt demo_key hash True receiptReads c) [] emptyWorld demo_ready = run (c (Inr NoBinding)) [] emptyWorld demo_ready" for c :: "_ \<Rightarrow> (replica, answer) prog" and hash
    by (simp add: receiptReads_def numeral_2_eq_2 ReadReceipt_def readReceipt_def kv_ops)
  then have "run (serveCollectionCreate demo_env 0 ?q) [] emptyWorld demo_ready =
      run (createAdmit demo_env 0 ?q ''k'' demo_key ''h'' 0 shippedPolicy []) [] emptyWorld demo_ready"
    by (simp add: serveCollectionCreate_def demo_admitted q e Let_def answerFromReceipt_def)
  also have "\<exists>l. run (createAdmit demo_env 0 ?q ''k'' demo_key ''h'' 0 shippedPolicy []) [] emptyWorld demo_ready =
      run (createPublish demo_env ?q ''k'' demo_key ''h'' 0 shippedPolicy 0) [] emptyWorld l"
    by (auto simp: createAdmit_def demo_admitted q e Reserve_def Let_def)
  moreover have "\<exists>l'. run (createPublish demo_env ?q ''k'' demo_key ''h'' 0 shippedPolicy 0) [] emptyWorld l =
      (Created demo_id StatePending, demo_world, l', [])" for l
    by (simp add: createPublish_def run_bind q e Publish_def Let_def MarshalBounded_def publishActive_def publishBound_def publishPending_def
        createReceipt_def receiptDecide_def kv_ops demo_world_def demo_created_def demo_id_def createInput_def publish_record_def)
  ultimately show ?thesis by metis
qed

lemma demo_ready_reachable:
  "reachable U es (initial\<lparr>sys_mem := (\<lambda>_. newReplica)(0 := demo_ready)\<rparr>)"
proof -
  let ?s = "initial\<lparr>sys_mem := (sys_mem initial)(0 := (sys_mem initial 0)\<lparr>rp_generation := 0, rp_connSynced := True, rp_viewOK := True,
      rp_caches := startAttempt (rp_caches (sys_mem initial 0))\<rparr>)\<rparr>"
  have "reachable U es ?s" unfolding reachable_def by (rule r_into_rtranclp) (rule sysStep.reconnect)
  moreover have "sys_past ?s \<noteq> []" by (simp add: initial_def)
  ultimately have "reachable U es (?s\<lparr>sys_mem := (sys_mem ?s)(0 := (sys_mem ?s 0)\<lparr>rp_caches :=
      fold (\<lambda>(kind, en). apply_entry kind en) (map (\<lambda>k. (k, marker 0)) cache_kinds) (rp_caches (sys_mem ?s 0))\<rparr>)\<rparr>)"
    by (rule deliver_steps) (auto simp: marker_def)
  then show ?thesis by (simp add: initial_def demo_ready_def newReplica_def)
qed

lemma run_forget: "run p fs w l = (a, w', l', fs') \<Longrightarrow> run (forget p) fs w l = ((), w', l', fs')"
  by (simp add: forget_def run_bind)

text \<open>A replica starts a program and runs it to its end.\<close>

lemma start_run:
  assumes "entry U (es m) ids p" and "\<forall>i \<in> ids. jobKey i \<notin> seen (sys_world s)" and "\<forall>t \<in> set (sys_threads s). th_ids t \<inter> ids = {}"
    and "run p fs (sys_world s) (sys_mem s m) = ((), w', l', fs')"
  shows "\<exists>s'. (sysStep U es)\<^sup>*\<^sup>* s s' \<and> sys_world s' = w' \<and> sys_mem s' m = l'"
proof -
  let ?t = "\<lparr>th_replica = m, th_ids = ids, th_prog = p\<rparr>"
  let ?s = "s\<lparr>sys_threads := sys_threads s @ [?t]\<rparr>"
  have "sysStep U es s ?s" using assms(1-3) by (rule sysStep.start)
  moreover obtain past where "(sysStep U es)\<^sup>*\<^sup>* ?s (?s\<lparr>sys_world := w', sys_mem := (sys_mem ?s)(m := l'),
      sys_threads := (sys_threads ?s)[length (sys_threads s) := \<lparr>th_replica = m, th_ids = ids, th_prog = Ret ()\<rparr>], sys_past := past\<rparr>)"
    using run_steps [of "length (sys_threads s)" ?s m ids p fs "()" w' l' fs'] assms(4) by auto
  ultimately have "(sysStep U es)\<^sup>*\<^sup>* s (?s\<lparr>sys_world := w', sys_mem := (sys_mem ?s)(m := l'),
      sys_threads := (sys_threads ?s)[length (sys_threads s) := \<lparr>th_replica = m, th_ids = ids, th_prog = Ret ()\<rparr>], sys_past := past\<rparr>)"
    by (rule converse_rtranclp_into_rtranclp)
  then show ?thesis by (intro exI conjI) (assumption, simp_all)
qed

lemma demo_cancel_run:
  "\<exists>w' l'. run (servePGOCollection demo_env (\<lambda>_ _. True) demo_id (KindCollectionCancel None)) [] demo_world l =
     (CancelledBody (cancelledRecord demo_created 0), w', l', []) \<and>
     job_at w' demo_id = Some (cancelledRecord demo_created 0)"
proof -
  have e: "e_jsize demo_env v \<le> maxRecordBytes" "\<not> maxRecordBytes < e_jsize demo_env v" for v by (simp_all add: demo_env_def maxRecordBytes_def)
  have r: "rc_State demo_created = StatePending" "rc_ID demo_created = demo_id" "rc_Namespace demo_created = ''ns''" "rc_Service demo_created = ''svc''"
    by (simp_all add: demo_created_def publish_record_def createInput_def demo_create_def)
  obtain n where c: "cancelAttempts = Suc n" by (simp add: cancelAttempts_def)
  show ?thesis
    by (simp add: servePGOCollection_def readCollection_def ReadRecord_def kv_ops serveCollectionCancel_def c WriteRecord_def MarshalBounded_def
        demo_world_def e r Let_def RecordTransition_def run_bind releaseActive_def job_at_def cancelledRecord_def)
qed

text \<open>An execution that creates a Collection and one that cancels it.\<close>

lemma demo_execution:
  obtains s s' where "reachable U (\<lambda>_. demo_env) s" and "sys_world s = demo_world" and "(sysStep U (\<lambda>_. demo_env))\<^sup>*\<^sup>* s s'"
    and "job_at (sys_world s') demo_id = Some (cancelledRecord demo_created 0)"
proof -
  let ?es = "\<lambda>_. demo_env" and ?s0 = "initial\<lparr>sys_mem := (\<lambda>_. newReplica)(0 := demo_ready)\<rparr>"
  obtain l where "run (serveCollectionCreate demo_env 0 demo_create) [] emptyWorld demo_ready = (Created demo_id StatePending, demo_world, l, [])"
    using demo_publish_run by blast
  note run_forget [OF this]
  moreover have "length (cr_random demo_create) = idLength" by (simp add: demo_create_def idLength_def)
  from entry.create [OF this] have "entry U demo_env {newID (cr_random demo_create)} (forget (serveCollectionCreate demo_env 0 demo_create))" .
  ultimately obtain s where s: "(sysStep U ?es)\<^sup>*\<^sup>* ?s0 s" "sys_world s = demo_world"
    using start_run [of U ?es 0 "{newID (cr_random demo_create)}" "forget (serveCollectionCreate demo_env 0 demo_create)" ?s0 "[]" demo_world l "[]"]
    by (auto simp: initial_def emptyBucket_def)
  obtain w2 l2 where c: "run (forget (servePGOCollection demo_env (\<lambda>_ _. True) demo_id (KindCollectionCancel None))) [] (sys_world s) (sys_mem s 0) = ((), w2, l2, [])"
    "job_at w2 demo_id = Some (cancelledRecord demo_created 0)" using demo_cancel_run run_forget s(2) by metis
  obtain s' where "(sysStep U ?es)\<^sup>*\<^sup>* s s'" "sys_world s' = w2"
    using start_run [of U ?es 0 "{}" _ s, OF entry.collection _ _ c(1)] by auto
  moreover have "reachable U ?es s" using demo_ready_reachable s(1) unfolding reachable_def by (meson rtranclp_trans)
  ultimately show thesis using that s(2) c(2) by simp
qed

lemma demo_created_simps [simp]:
  "rc_State demo_created = StatePending" "rc_ID demo_created = demo_id" "rc_Namespace demo_created = ''ns''" "rc_Service demo_created = ''svc''"
  "rc_IdempotencyKey demo_created = ''k''" "rc_CreatedBy demo_created = ''alice''"
  by (simp_all add: demo_created_def publish_record_def createInput_def demo_create_def)

lemma demo_world_job [simp]: "job_at demo_world demo_id = Some demo_created"
  by (simp add: demo_world_def job_at_def)

section \<open>What holds of the whole system\<close>

lemma reachable_world: "reachable U es s \<Longrightarrow> \<forall>m. e_sha (es m) = sha \<Longrightarrow> inv sha (sys_world s)"
  using reachable_inv by (simp add: sys_inv_def)

text \<open>
  C1: Whatever the replicas do, however their calls interleave, fail and are cut off, a Service
  never has two Collections that are pending or running: each such Collection holds the Service's
  active key.
\<close>

theorem one_live_collection:
  assumes "reachable U es s" and "\<forall>m. e_sha (es m) = sha"
    and "job_at (sys_world s) i = Some r" and "live (rc_State r)"
  shows "active_at (sys_world s) (rc_Namespace r) (rc_Service r) = Some i \<and>
    (\<forall>j q. job_at (sys_world s) j = Some q \<longrightarrow> live (rc_State q) \<longrightarrow> rc_Namespace q = rc_Namespace r \<longrightarrow> rc_Service q = rc_Service r \<longrightarrow> j = i)"
proof -
  have "active_at (sys_world s) (rc_Namespace q) (rc_Service q) = Some j" if "job_at (sys_world s) j = Some q" "live (rc_State q)" for j q
    using reachable_world [OF assms(1,2)] that unfolding inv_def live_active_def by blast
  from this [OF assms(3,4)] this show ?thesis by fastforce
qed

lemma one_live_collection_witness:
  "\<exists>s. reachable {} (\<lambda>_. demo_env) s \<and> active_at (sys_world s) ''ns'' ''svc'' = Some demo_id"
proof -
  obtain s where "reachable {} (\<lambda>_. demo_env) s" "sys_world s = demo_world" using demo_execution by metis
  then show ?thesis using one_live_collection [of "{}" "\<lambda>_. demo_env" s _ demo_id demo_created] by (auto simp: live_def)
qed

text \<open>The receipt of a record's key names it, with the hash of its snapshot.\<close>

definition receipt_names :: "(string \<Rightarrow> string) \<Rightarrow> system \<Rightarrow> string \<Rightarrow> Record \<Rightarrow> bool" where
  "receipt_names sha s i r \<longleftrightarrow>
     (\<exists>x. receipt_at (sys_world s) (rec_receipt sha r) = Some x \<and> rcp_ID x = i \<and> rcp_SnapshotHash x = rc_SnapshotHash r)"

text \<open>
  C2: An idempotency key stands for one Collection: every published record created under a key is
  named by the receipt of its principal, Service and key, which carries the hash of its snapshot,
  and two published records created under one key are the same Collection.
\<close>

theorem idempotent_once:
  assumes "reachable U es s" and "\<forall>m. e_sha (es m) = sha"
    and "job_at (sys_world s) i = Some r" and "published r" and "rc_IdempotencyKey r \<noteq> []"
  shows "receipt_names sha s i r \<and>
    (\<forall>j q. job_at (sys_world s) j = Some q \<longrightarrow> published q \<longrightarrow> rc_IdempotencyKey q = rc_IdempotencyKey r \<longrightarrow>
       rc_CreatedBy q = rc_CreatedBy r \<longrightarrow> rc_Namespace q = rc_Namespace r \<longrightarrow> rc_Service q = rc_Service r \<longrightarrow> j = i)"
proof -
  have inv: "keyed_bound sha (sys_world s)" "receipts_match (sys_world s)" using reachable_world [OF assms(1,2)] by (simp_all add: inv_def)
  obtain x where x: "receipt_at (sys_world s) (rec_receipt sha r) = Some x" "rcp_ID x = i"
    using inv(1) assms(3-5) unfolding keyed_bound_def by blast
  have "hasPrefix receiptPrefix (rec_receipt sha r)" by (simp add: rec_receipt_def ReceiptKey_def hasPrefix_iff)
  then have "rcp_SnapshotHash x = rc_SnapshotHash r" using inv(2) x assms(3) unfolding receipts_match_def by blast
  moreover have "j = i" if q: "job_at (sys_world s) j = Some q" "published q" "rc_IdempotencyKey q = rc_IdempotencyKey r"
      "rc_CreatedBy q = rc_CreatedBy r" "rc_Namespace q = rc_Namespace r" "rc_Service q = rc_Service r" for j q
  proof -
    have "rec_receipt sha q = rec_receipt sha r" using q by (simp add: rec_receipt_def)
    moreover have "rc_IdempotencyKey q \<noteq> []" using q(3) assms(5) by simp
    then obtain y where "receipt_at (sys_world s) (rec_receipt sha q) = Some y" "rcp_ID y = j"
      using inv(1) q(1,2) unfolding keyed_bound_def by blast
    ultimately show ?thesis using x by simp
  qed
  ultimately show ?thesis using x unfolding receipt_names_def by blast
qed

lemma idempotent_once_witness:
  "\<exists>s. reachable {} (\<lambda>_. demo_env) s \<and> receipt_names (e_sha demo_env) s demo_id demo_created"
proof -
  obtain s where "reachable {} (\<lambda>_. demo_env) s" "sys_world s = demo_world" using demo_execution by metis
  then show ?thesis using idempotent_once [of "{}" "\<lambda>_. demo_env" s "e_sha demo_env" demo_id demo_created] by (auto simp: published_def)
qed

text \<open>
  C14: Every stored record is under its own identifier and well formed: a running one has its lease,
  its start and its deadline, one that has not ended names no artifact, and the artifact a record
  names is the one of its own attempt.
\<close>

theorem records_well_formed:
  assumes "reachable U es s" and "\<forall>m. e_sha (es m) = sha" and "jobs_lookup (sys_world s) (jobKey i) = Some t"
  shows "\<exists>r. s_val t = VJob r \<and> rc_ID r = i \<and> ValidID i \<and> rec_ok r"
  using reachable_world [OF assms(1,2)] assms(3) unfolding inv_def typed_entries_def by blast

lemma records_well_formed_witness:
  "\<exists>s. reachable {} (\<lambda>_. demo_env) s \<and> job_at (sys_world s) demo_id = Some demo_created \<and> ValidID demo_id \<and> rec_ok demo_created"
proof -
  obtain s where s: "reachable {} (\<lambda>_. demo_env) s" "sys_world s = demo_world" using demo_execution by metis
  then obtain t where "jobs_lookup (sys_world s) (jobKey demo_id) = Some t" "s_val t = VJob demo_created" by (simp add: demo_world_def)
  then show ?thesis using records_well_formed [OF s(1), of _ demo_id t] s by auto
qed

section \<open>How the system moves\<close>

lemma step_evolves:
  assumes "sysStep U es s s'" and "\<forall>m. e_sha (es m) = sha" and "sys_inv U sha s"
  shows "evolves sha (sys_world s) (sys_world s') \<and> lawful (sys_world s) (sys_world s')"
proof -
  have same: ?thesis if "w_jobs (sys_world s') = w_jobs (sys_world s)" "sys_inv U sha s'"
  proof -
    have "evolves1 (sys_world s) (sys_world s')" "lawful (sys_world s) (sys_world s')"
      using that(1) by (auto simp: evolves1_def lawful_def job_at_def split: option.split)
    then show ?thesis using that(2) by (simp add: evolves_def sys_inv_def)
  qed
  note keep = sys_inv_step [OF assms]
  from assms(1) show ?thesis
  proof cases
    case (call n op k f r w')
    then have "guar sha (th_ids (sys_threads s ! n)) (sys_world s) w'" using sys_inv_call [OF assms(3)] by blast
    then show ?thesis using call(1) pr.G_E by (auto simp: guar_def)
  qed (use same keep in simp_all)
qed

lemma steps_evolve:
  assumes "(sysStep U es)\<^sup>*\<^sup>* s s'" and "\<forall>m. e_sha (es m) = sha" and "sys_inv U sha s"
  shows "sys_inv U sha s' \<and> evolves sha (sys_world s) (sys_world s')"
  using assms(1)
proof (induction rule: rtranclp_induct)
  case base
  then show ?case using assms(3) evolves_refl by simp
next
  case (step t u)
  then show ?case using step_evolves [OF step(2) assms(2)] sys_inv_step [OF step(2) assms(2)] evolves_trans by blast
qed

text \<open>
  C12: Every step of any replica moves a record along the state machine: initializing to pending or
  failed, pending to running or an end, running to running or an end, completed to expired; and
  only a record whose state allows it is deleted.
\<close>

theorem steps_lawful:
  assumes "reachable U es s" and "\<forall>m. e_sha (es m) = sha" and "sysStep U es s s'"
  shows "lawful (sys_world s) (sys_world s')"
  using step_evolves [OF assms(3,2)] reachable_inv [OF assms(1,2)] by blast

text \<open>An execution that ends without a property it began with has a step that loses it.\<close>

lemma rtranclp_loses: "R\<^sup>*\<^sup>* a b \<Longrightarrow> P a \<Longrightarrow> \<not> P b \<Longrightarrow> \<exists>u v. R\<^sup>*\<^sup>* a u \<and> R u v \<and> P u \<and> \<not> P v"
proof (induction rule: rtranclp_induct)
  case (step y z)
  then show ?case by (cases "P y") blast+
qed blast

text \<open>The step that cancels a pending Collection.\<close>

lemma steps_lawful_witness:
  "\<exists>s s'. reachable {} (\<lambda>_. demo_env) s \<and> sysStep {} (\<lambda>_. demo_env) s s' \<and> job_at (sys_world s) demo_id = Some demo_created \<and>
     job_at (sys_world s') demo_id \<noteq> Some demo_created \<and> lawful (sys_world s) (sys_world s')"
proof -
  obtain s s' where s: "reachable {} (\<lambda>_. demo_env) s" "sys_world s = demo_world" "(sysStep {} (\<lambda>_. demo_env))\<^sup>*\<^sup>* s s'"
    "job_at (sys_world s') demo_id = Some (cancelledRecord demo_created 0)" using demo_execution by metis
  have "rc_State (cancelledRecord demo_created 0) \<noteq> rc_State demo_created" by (simp add: cancelledRecord_def)
  then have "job_at (sys_world s') demo_id \<noteq> Some demo_created" using s(4) by auto
  then obtain u v where uv: "(sysStep {} (\<lambda>_. demo_env))\<^sup>*\<^sup>* s u" "sysStep {} (\<lambda>_. demo_env) u v"
    "job_at (sys_world u) demo_id = Some demo_created" "job_at (sys_world v) demo_id \<noteq> Some demo_created"
    using rtranclp_loses [OF s(3), of "\<lambda>x. job_at (sys_world x) demo_id = Some demo_created"] s(2) by auto
  have r: "reachable {} (\<lambda>_. demo_env) u" using s(1) uv(1) unfolding reachable_def by (meson rtranclp_trans)
  then have "lawful (sys_world u) (sys_world v)" using steps_lawful [OF r _ uv(2), of "e_sha demo_env"] by blast
  then show ?thesis using r uv by blast
qed

text \<open>
  C13: Over any execution a record keeps its identity, its policy snapshot and its idempotency
  key, its attempt never goes back, its start and deadline are set once, and once it has ended
  nothing of it but the step to expired changes.
\<close>

theorem records_evolve:
  assumes "reachable U es s" and "\<forall>m. e_sha (es m) = sha" and "(sysStep U es)\<^sup>*\<^sup>* s s'"
    and "job_at (sys_world s) i = Some r" and "job_at (sys_world s') i = Some r'"
  shows "rec_leads r r'"
  using steps_evolve [OF assms(3,2)] reachable_inv [OF assms(1,2)] assms(4,5) evolvesD(6) by (metis sys_inv_def)

lemma records_evolve_witness: "rec_leads demo_created (cancelledRecord demo_created 0)"
proof -
  obtain s s' where "reachable {} (\<lambda>_. demo_env) s" "sys_world s = demo_world" "(sysStep {} (\<lambda>_. demo_env))\<^sup>*\<^sup>* s s'"
    "job_at (sys_world s') demo_id = Some (cancelledRecord demo_created 0)"
    using demo_execution by metis
  then show ?thesis using records_evolve [of "{}" "\<lambda>_. demo_env" s _ s' demo_id] by auto
qed

end
